(* ===== verification/Prelude.thy ===== *)
theory Prelude
  imports Main "HOL-Library.Word" "HOL-Library.Monad_Syntax"
begin

section \<open>Shared types, errors and library lemmas\<close>

text \<open>
  This theory holds what every component of the development shares.

  \<^item> \<^bold>\<open>Failure.\<close> A C or C++ operation that can stop the process (a failed
    \<^verbatim>\<open>assert\<close>, a failed \<^verbatim>\<open>rt_assert\<close>, an exception, a null or out-of-range access)
    is modelled by a function into \<open>'a option\<close>. \<open>None\<close> is the stopped process, and
    \<open>cassert\<close> is the assertion. Error codes a function returns are ordinary values.
  \<^item> \<^bold>\<open>Integers.\<close> Fixed-width fields are \<open>w word\<close> or \<open>nat\<close>/\<open>int\<close> with the truncation
    written out (\<open>to_int32\<close>, \<open>u16\<close>). Sizes and addresses are \<open>nat\<close>.
  \<^item> \<^bold>\<open>Memory.\<close> The bytes of the process are a function from addresses to bytes;
    \<open>memcpy\<close> copies a range. \<open>heap\<close> adds the break of the allocator behind
    \<^verbatim>\<open>malloc\<close>, which always hands out a fresh range.
\<close>

named_theorems view_simps \<open>rules that reduce operations to their list view\<close>

type_synonym u8 = "8 word"
type_synonym u16 = "16 word"
type_synonym u32 = "32 word"
type_synonym u64 = "64 word"

subsection \<open>Assertions\<close>

definition cassert :: "bool \<Rightarrow> unit option" where
  "cassert b = (if b then Some () else None)"

lemma cassert_simps [simp]:
  "cassert True = Some ()" "cassert False = None"
  by (simp_all add: cassert_def)

lemma cassert_eq_Some [simp]: "cassert b = Some u \<longleftrightarrow> b"
  by (simp add: cassert_def)

lemma cassert_eq_None [simp]: "cassert b = None \<longleftrightarrow> \<not> b"
  by (simp add: cassert_def)

text \<open>\<^verbatim>\<open>assert\<close> is compiled away when \<^verbatim>\<open>NDEBUG\<close> is defined; \<open>dbg\<close> says whether it is compiled in.\<close>

definition dassert :: "bool \<Rightarrow> bool \<Rightarrow> unit option" where
  "dassert dbg b = (if dbg then cassert b else Some ())"

lemma dassert_True [simp]: "dassert dbg True = Some ()"
  by (simp add: dassert_def)

lemma dassert_release [simp]: "dassert False b = Some ()"
  by (simp add: dassert_def)

lemma dassert_debug [simp]: "dassert True b = cassert b"
  by (simp add: dassert_def)

lemma dassert_eq_Some [simp]: "dassert dbg b = Some u \<longleftrightarrow> (dbg \<longrightarrow> b)"
  by (simp add: dassert_def)

text \<open>\<open>yields P m\<close>: if the computation \<open>m\<close> does not stop, its result satisfies \<open>P\<close>. The rules
  take a computation apart along its binds, tests and cases.\<close>

definition yields :: "('r \<Rightarrow> bool) \<Rightarrow> 'r option \<Rightarrow> bool" where
  "yields P m \<longleftrightarrow> (\<forall>r. m = Some r \<longrightarrow> P r)"

lemma yieldsD: "m = Some r \<Longrightarrow> yields P m \<Longrightarrow> P r"
  by (simp add: yields_def)

lemma yieldsI: "(\<And>r. m = Some r \<Longrightarrow> P r) \<Longrightarrow> yields P m"
  by (simp add: yields_def)

lemma yields_Some: "P r \<Longrightarrow> yields P (Some r)"
  by (simp add: yields_def)

lemma yields_mono: "yields P m \<Longrightarrow> (\<And>r. P r \<Longrightarrow> Q r) \<Longrightarrow> yields Q m"
  by (simp add: yields_def)

lemma yields_None: "yields P None"
  by (simp add: yields_def)

lemma yields_bind: "(\<And>x. m = Some x \<Longrightarrow> yields P (f x)) \<Longrightarrow> yields P (m \<bind> f)"
  by (auto simp: yields_def bind_eq_Some_conv)

lemma yields_if: "(b \<Longrightarrow> yields P m) \<Longrightarrow> (\<not> b \<Longrightarrow> yields P n) \<Longrightarrow> yields P (if b then m else n)"
  by simp

lemma yields_Let: "(\<And>x. t = x \<Longrightarrow> yields P (f x)) \<Longrightarrow> yields P (let x = t in f x)"
  by simp

lemma yields_prod: "(\<And>a b. t = (a, b) \<Longrightarrow> yields P (g a b)) \<Longrightarrow> yields P (case t of (a, b) \<Rightarrow> g a b)"
  by (simp split: prod.split)

lemma yields_option:
  "(x = None \<Longrightarrow> yields P m) \<Longrightarrow> (\<And>y. x = Some y \<Longrightarrow> yields P (f y)) \<Longrightarrow>
    yields P (case x of None \<Rightarrow> m | Some y \<Rightarrow> f y)"
  by (simp split: option.split)

lemma yields_bool:
  "(b \<Longrightarrow> yields P m) \<Longrightarrow> (\<not> b \<Longrightarrow> yields P n) \<Longrightarrow> yields P (case b of True \<Rightarrow> m | False \<Rightarrow> n)"
  by (simp split: bool.split)

lemmas yields_rules = yields_Some yields_None yields_bind yields_if yields_Let yields_prod yields_option yields_bool

lemma bind_cassert_Some [simp]: "cassert b \<bind> f = Some y \<longleftrightarrow> b \<and> f () = Some y"
  by (simp add: cassert_def)

subsection \<open>Truncating conversions\<close>

text \<open>Conversion of a wider C integer to \<^verbatim>\<open>int\<close> (two's complement, 32 bits) and to
  \<^verbatim>\<open>uint16_t\<close>.\<close>

definition to_int32 :: "int \<Rightarrow> int" where
  "to_int32 x = sint (word_of_int x :: 32 word)"

definition u16_of :: "nat \<Rightarrow> nat" where
  "u16_of n = n mod 65536"

lemma to_int32_id [simp]:
  assumes "- 2147483648 \<le> x" "x \<le> 2147483647"
  shows "to_int32 x = x"
  using assms by (simp add: to_int32_def sint_sbintrunc' signed_take_bit_int_eq_self)

lemma u16_of_id [simp]: "n < 65536 \<Longrightarrow> u16_of n = n"
  by (simp add: u16_of_def)

text \<open>C's remainder truncates towards zero, so it has the sign of the dividend.\<close>

definition c_rem :: "int \<Rightarrow> int \<Rightarrow> int" where
  "c_rem a b = sgn a * (\<bar>a\<bar> mod \<bar>b\<bar>)"

lemma c_rem_nonneg [simp]: "0 \<le> a \<Longrightarrow> 0 < b \<Longrightarrow> c_rem a b = a mod b"
  by (cases "a = 0") (simp_all add: c_rem_def)

subsection \<open>Memory\<close>

type_synonym mem = "nat \<Rightarrow> u8"

record heap =
  hmem :: mem
  hbrk :: nat

definition memcpy :: "mem \<Rightarrow> nat \<Rightarrow> nat \<Rightarrow> nat \<Rightarrow> mem" where
  "memcpy m dst src n = (\<lambda>a. if dst \<le> a \<and> a < dst + n then m (src + (a - dst)) else m a)"

definition bytes_at :: "mem \<Rightarrow> nat \<Rightarrow> nat \<Rightarrow> u8 list" where
  "bytes_at m a n = map m [a..<a + n]"

definition malloc :: "heap \<Rightarrow> nat \<Rightarrow> nat \<times> heap" where
  "malloc h n = (hbrk h, h\<lparr>hbrk := hbrk h + n\<rparr>)"

lemma length_bytes_at [simp]: "length (bytes_at m a n) = n"
  by (simp add: bytes_at_def)

lemma bytes_at_0 [simp]: "bytes_at m a 0 = []"
  by (simp add: bytes_at_def)

lemma nth_bytes_at: "i < n \<Longrightarrow> bytes_at m a n ! i = m (a + i)"
  by (simp add: bytes_at_def)

lemma bytes_at_add: "bytes_at m a (k + n) = bytes_at m a k @ bytes_at m (a + k) n"
  by (simp add: list_eq_iff_nth_eq nth_append nth_bytes_at)

lemma take_bytes_at: "k \<le> n \<Longrightarrow> take k (bytes_at m a n) = bytes_at m a k"
  by (simp add: list_eq_iff_nth_eq nth_bytes_at)

lemma take_bytes_at_min: "take k (bytes_at m a n) = bytes_at m a (min k n)"
  by (simp add: list_eq_iff_nth_eq nth_bytes_at)

lemma drop_bytes_at: "drop k (bytes_at m a n) = bytes_at m (a + k) (n - k)"
  by (simp add: list_eq_iff_nth_eq nth_bytes_at add.assoc)

lemma bytes_at_cong: "(\<And>b. a \<le> b \<Longrightarrow> b < a + n \<Longrightarrow> m b = m' b) \<Longrightarrow> bytes_at m a n = bytes_at m' a n"
  by (simp add: list_eq_iff_nth_eq nth_bytes_at)

lemma bytes_at_memcpy [simp]: "bytes_at (memcpy m dst src n) dst n = bytes_at m src n"
  by (simp add: list_eq_iff_nth_eq nth_bytes_at memcpy_def)

lemma bytes_at_memcpy_other:
  "a + k \<le> dst \<or> dst + n \<le> a \<Longrightarrow> bytes_at (memcpy m dst src n) a k = bytes_at m a k"
  by (rule bytes_at_cong) (auto simp: memcpy_def)

lemma memcpy_0 [simp]: "memcpy m dst src 0 = m"
  by (auto simp: memcpy_def fun_eq_iff)

subsection \<open>Lists\<close>

lemma take_drop_update_hd:
  "i < length xs \<Longrightarrow> 0 < n \<Longrightarrow> take n (drop i (xs[i := y])) = y # take (n - 1) (drop (Suc i) xs)"
  by (cases n) (simp_all add: drop_update_swap list_update_code(2) Cons_nth_drop_Suc [symmetric] drop_update_cancel)

lemma take_drop_Cons:
  "i < length xs \<Longrightarrow> 0 < n \<Longrightarrow> take n (drop i xs) = xs ! i # take (n - 1) (drop (Suc i) xs)"
  by (cases n) (simp_all add: Cons_nth_drop_Suc [symmetric])

lemma take_Suc_update: "n < length xs \<Longrightarrow> take (Suc n) (xs[n := e]) = take n xs @ [e]"
  by (simp add: take_Suc_conv_app_nth)

lemma take_eq_mono: "take n xs = take n ys \<Longrightarrow> k \<le> n \<Longrightarrow> take k xs = take k ys"
  by (metis min.absorb1 take_take)

lemma drop_eq_mono: "drop n xs = drop n ys \<Longrightarrow> n \<le> k \<Longrightarrow> drop k xs = drop k ys"
  by (metis drop_drop le_add_diff_inverse2)

lemma sum_list_take_le: "sum_list (take n xs) \<le> sum_list (xs :: nat list)"
  by (metis append_take_drop_id le_add1 sum_list_append)

end
