(* ===== verification/Math_Utils.thy ===== *)
theory Math_Utils
  imports Prelude
begin

section \<open>Arithmetic helpers\<close>

text \<open>
  Model of src/src/util/math_utils.h, and the conventions for builds with and without assertions.
  Powers of two and rounding are computed on 64-bit words as in the source. \<^verbatim>\<open>msb_index\<close> uses the
  instruction \<^verbatim>\<open>bsrl\<close>, whose result is undefined for a zero operand: the value it leaves is a
  parameter.
\<close>

unbundle bit_operations_syntax

text \<open>Subtraction of two \<^verbatim>\<open>size_t\<close>.\<close>

definition sz_sub :: "nat \<Rightarrow> nat \<Rightarrow> nat" where
  "sz_sub a b = (if b \<le> a then a - b else (a + 2 ^ 64) - b)"

lemma sz_sub_le [simp]: "b \<le> a \<Longrightarrow> sz_sub a b = a - b"
  by (simp add: sz_sub_def)

subsection \<open>Powers of two\<close>

definition is_power_of_two :: "u64 \<Rightarrow> bool" where
  "is_power_of_two x \<longleftrightarrow> x \<noteq> 0 \<and> x AND (x - 1) = 0"

definition round_up :: "u64 \<Rightarrow> u64 \<Rightarrow> u64" where
  "round_up p x = (x + (p - 1)) AND NOT (p - 1)"

lemma mask_word: "k < 64 \<Longrightarrow> (2 ^ k :: u64) - 1 = mask k"
  by (simp add: mask_eq_decr_exp)

lemma and_not_mask:
  fixes x :: u64
  shows "x AND NOT (mask k) = push_bit k (drop_bit k x)"
  by (rule bit_eqI) (auto simp: bit_simps)

lemma unat_push_drop:
  fixes x :: u64
  shows "unat (push_bit k (drop_bit k x)) = unat x div 2 ^ k * 2 ^ k"
proof -
  have "unat x div 2 ^ k * 2 ^ k \<le> unat x"
    by simp
  also have "\<dots> < 2 ^ 64"
    using unsigned_less [of x] by simp
  finally have "take_bit 64 (unat x div 2 ^ k * 2 ^ k) = unat x div 2 ^ k * 2 ^ k"
    by (rule take_bit_nat_eq_self)
  moreover have "take_bit 64 (unat x) = unat x"
    using unsigned_less [of x] by (intro take_bit_nat_eq_self) simp
  then have "unat (push_bit k (drop_bit k x)) = take_bit 64 (push_bit k (drop_bit k (unat x)))"
    by (simp only: unsigned_push_bit_eq unsigned_drop_bit_eq) simp
  ultimately show ?thesis
    by (simp only: push_bit_eq_mult drop_bit_eq_div)
qed

lemma unat_round_up:
  assumes "k < 64" "n + 2 ^ k \<le> 2 ^ 64"
  shows "unat (round_up (2 ^ k) (of_nat n)) = (n + 2 ^ k - 1) div 2 ^ k * 2 ^ k"
proof -
  have one: "(1::nat) \<le> 2 ^ k"
    by simp
  then have "n + 2 ^ k - 1 < 2 ^ 64"
    using assms(2) by linarith
  then have small: "unat (of_nat (n + 2 ^ k - 1) :: u64) = n + 2 ^ k - 1"
    by (simp add: unsigned_of_nat take_bit_nat_eq_self del: of_nat_diff)
  have "(of_nat (n + (2 ^ k - 1)) :: u64) = of_nat n + (of_nat (2 ^ k) - of_nat 1)"
    using one by (simp only: of_nat_add of_nat_diff)
  moreover have "n + (2 ^ k - 1) = n + 2 ^ k - 1"
    using one by linarith
  ultimately have "(of_nat n + (2 ^ k - 1) :: u64) = of_nat (n + 2 ^ k - 1)"
    by (simp del: of_nat_diff)
  then show ?thesis
    unfolding round_up_def mask_word [OF assms(1)] and_not_mask unat_push_drop by (simp only: small mask_word [OF assms(1)])
qed

lemma round_up_bounds:
  assumes "k < 64" "n + 2 ^ k \<le> 2 ^ 64"
  shows "n \<le> unat (round_up (2 ^ k) (of_nat n))" "unat (round_up (2 ^ k) (of_nat n)) < n + 2 ^ k"
    "2 ^ k dvd unat (round_up (2 ^ k) (of_nat n))"
proof -
  have eq: "(n + 2 ^ k - 1) div 2 ^ k * 2 ^ k = n + 2 ^ k - 1 - (n + 2 ^ k - 1) mod 2 ^ k"
    by (simp add: minus_mod_eq_div_mult)
  have "(n + 2 ^ k - 1) mod 2 ^ k < 2 ^ k" "(n + 2 ^ k - 1) mod 2 ^ k \<le> n + 2 ^ k - 1"
    by simp_all
  then show "n \<le> unat (round_up (2 ^ k) (of_nat n))" "unat (round_up (2 ^ k) (of_nat n)) < n + 2 ^ k"
    using unat_round_up [OF assms] eq by linarith+
  show "2 ^ k dvd unat (round_up (2 ^ k) (of_nat n))"
    using unat_round_up [OF assms] by simp
qed

subsection \<open>The most significant bit\<close>

text \<open>\<open>bsr n\<close> is the index of the most significant bit of a positive \<open>n\<close>. \<open>undef\<close> is what \<^verbatim>\<open>bsrl\<close>
  leaves in its destination when the operand is zero.\<close>

fun bsr :: "nat \<Rightarrow> nat" where
  "bsr n = (if n \<le> 1 then 0 else Suc (bsr (n div 2)))"

declare bsr.simps [simp del]

definition msb_index :: "bool \<Rightarrow> nat \<Rightarrow> int \<Rightarrow> nat option" where
  "msb_index dbg undef x = do {
     dassert dbg (x < 2147483647 div 2);
     let y = nat (2 * x mod 2 ^ 32);
     Some (if y = 0 then undef else bsr y)
   }"

lemma bsr_unique: "2 ^ i \<le> n \<Longrightarrow> n < 2 ^ Suc i \<Longrightarrow> bsr n = i"
proof (induction i arbitrary: n)
  case 0
  then show ?case
    by (subst bsr.simps) simp
next
  case (Suc i)
  have "1 \<le> (2::nat) ^ i"
    by simp
  moreover have "2 * 2 ^ i \<le> n"
    using Suc.prems(1) by simp
  ultimately have "1 < n"
    by linarith
  moreover have "bsr (n div 2) = i"
    using Suc.prems by (intro Suc.IH) auto
  ultimately show ?case
    by (subst bsr.simps) simp
qed

end
