(* ===== verification/Huge_Alloc.thy ===== *)
theory Huge_Alloc
  imports Math_Utils
begin

section \<open>The hugepage allocator\<close>

text \<open>
  Model of \<^verbatim>\<open>class HugeAlloc\<close> (src/src/util/huge_alloc.h, huge_alloc.cc): one freelist of buffers
  per size class, filled by splitting buffers of larger classes and, when there are none, by
  reserving a new shared memory region. The operating system is a parameter: \<open>os k n\<close> is what
  the \<open>k\<close>-th attempt to get a region of \<open>n\<close> bytes gives; \<open>reg\<close> is the memory registration
  function of the transport. The retry loop on used keys may run forever, so it is a partial
  function. \<open>dbg\<close> tells whether assertions are compiled in and \<open>undef\<close> is what \<^verbatim>\<open>bsrl\<close> leaves
  for a zero operand. \<open>None\<close> is an exception, a failed assertion or an access out of range.
\<close>

record hbuf =
  hb_buf :: nat
  hb_class_size :: nat
  hb_lkey :: nat

record shm_region =
  sh_buf :: nat
  sh_size :: nat
  sh_registered :: bool

record huge_alloc =
  ha_shm_list :: "shm_region list"
  ha_freelist :: "hbuf list list"
  ha_prev_allocation_size :: nat
  ha_shm_reserved :: nat
  ha_user_alloc_tot :: nat
  ha_shm_calls :: nat

datatype shm_outcome = Shm_EEXIST | Shm_EACCES | Shm_EINVAL | Shm_ENOMEM | Shm_other | Shm_ok nat bool

type_synonym shm_os = "nat \<Rightarrow> nat \<Rightarrow> shm_outcome"

definition k_min_class_size :: nat where
  "k_min_class_size = 64"

definition k_max_class_size :: nat where
  "k_max_class_size = 16 * 1024 * 1024"

definition k_num_classes :: nat where
  "k_num_classes = 18"

definition kHugepageSize :: nat where
  "kHugepageSize = 2 * 1024 * 1024"

definition class_max_size :: "nat \<Rightarrow> nat" where
  "class_max_size class_i = k_min_class_size * 2 ^ class_i"

subsection \<open>Size classes\<close>

definition get_class :: "bool \<Rightarrow> nat \<Rightarrow> nat \<Rightarrow> nat option" where
  "get_class dbg undef sz = do {
     dassert dbg (1 \<le> sz \<and> sz \<le> k_max_class_size);
     msb_index dbg undef (to_int32 (int (sz_sub sz 1 div 2 ^ 6)))
   }"

partial_function (option) class_loop :: "nat \<Rightarrow> nat \<Rightarrow> nat \<Rightarrow> nat option" where
  "class_loop sz cls class_lim =
    (if class_lim < sz then class_loop sz (cls + 1) (class_lim * 2) else Some cls)"

definition get_class_slow :: "bool \<Rightarrow> nat \<Rightarrow> nat option" where
  "get_class_slow dbg sz = do {
     dassert dbg (1 \<le> sz \<and> sz \<le> k_max_class_size);
     class_loop sz 0 k_min_class_size
   }"

subsection \<open>Reserving memory\<close>

definition HugeAlloc_new :: "nat \<Rightarrow> huge_alloc" where
  "HugeAlloc_new initial_size =
    \<lparr>ha_shm_list = [], ha_freelist = replicate k_num_classes [],
     ha_prev_allocation_size = (if initial_size < k_max_class_size then k_max_class_size else initial_size),
     ha_shm_reserved = 0, ha_user_alloc_tot = 0, ha_shm_calls = 0\<rparr>"

partial_function (option) shm_loop :: "shm_os \<Rightarrow> nat \<Rightarrow> nat \<Rightarrow> (shm_outcome \<times> nat) option" where
  "shm_loop os sz k =
    (if os k sz = Shm_EEXIST then shm_loop os sz (Suc k) else Some (os k sz, Suc k))"

definition alloc_raw :: "shm_os \<Rightarrow> (nat \<Rightarrow> nat \<Rightarrow> nat) \<Rightarrow> nat \<Rightarrow> bool \<Rightarrow> huge_alloc \<Rightarrow> (hbuf \<times> huge_alloc) option" where
  "alloc_raw os reg sz do_register h = do {
     let sz = unat (round_up (of_nat kHugepageSize) (of_nat sz));
     (res, k) \<leftarrow> shm_loop os sz (ha_shm_calls h);
     let h = h\<lparr>ha_shm_calls := k\<rparr>;
     (case res of
        Shm_ENOMEM \<Rightarrow> Some (\<lparr>hb_buf = 0, hb_class_size = 0, hb_lkey = 0\<rparr>, h)
      | Shm_ok shm_buf bound \<Rightarrow> do {
          cassert (shm_buf \<noteq> 0);
          cassert bound;
          let lkey = (if do_register then reg shm_buf sz else 2 ^ 32 - 1);
          Some (\<lparr>hb_buf = shm_buf, hb_class_size = 2 ^ 64 - 1, hb_lkey = lkey\<rparr>,
                h\<lparr>ha_shm_list := ha_shm_list h @
                     [\<lparr>sh_buf = shm_buf, sh_size = sz, sh_registered = do_register\<rparr>],
                  ha_shm_reserved := ha_shm_reserved h + sz\<rparr>)
        }
      | _ \<Rightarrow> None)
   }"

definition reserve_hugepages ::
  "bool \<Rightarrow> shm_os \<Rightarrow> (nat \<Rightarrow> nat \<Rightarrow> nat) \<Rightarrow> nat \<Rightarrow> huge_alloc \<Rightarrow> (bool \<times> huge_alloc) option" where
  "reserve_hugepages dbg os reg sz h = do {
     dassert dbg (k_max_class_size \<le> sz);
     (buffer, h) \<leftarrow> alloc_raw os reg sz True h;
     if hb_buf buffer = 0 then Some (False, h)
     else do {
       let num_buffers = sz div k_max_class_size;
       dassert dbg (1 \<le> num_buffers);
       let bufs = map (\<lambda>i. \<lparr>hb_buf = hb_buf buffer + i * k_max_class_size, hb_class_size = k_max_class_size,
                           hb_lkey = hb_lkey buffer\<rparr>) [0..<num_buffers];
       Some (True, h\<lparr>ha_freelist := (ha_freelist h)[k_num_classes - 1 := ha_freelist h ! (k_num_classes - 1) @ bufs]\<rparr>)
     }
   }"

subsection \<open>Allocation\<close>

definition split :: "bool \<Rightarrow> nat \<Rightarrow> huge_alloc \<Rightarrow> huge_alloc option" where
  "split dbg cls h = do {
     cassert (1 \<le> cls \<and> cls < k_num_classes);
     cassert (ha_freelist h ! cls \<noteq> []);
     dassert dbg (ha_freelist h ! (cls - 1) = []);
     let buffer = last (ha_freelist h ! cls);
     let fl = (ha_freelist h)[cls := butlast (ha_freelist h ! cls)];
     dassert dbg (hb_class_size buffer = class_max_size cls);
     let half = hb_class_size buffer div 2;
     let buffer_0 = buffer\<lparr>hb_class_size := half\<rparr>;
     let buffer_1 = buffer\<lparr>hb_buf := hb_buf buffer + half, hb_class_size := half\<rparr>;
     Some (h\<lparr>ha_freelist := fl[cls - 1 := fl ! (cls - 1) @ [buffer_0, buffer_1]]\<rparr>)
   }"

text \<open>The last assertion of \<^verbatim>\<open>alloc_from_class\<close> is an assignment, so a build with assertions
  overwrites the class size of the buffer.\<close>

definition alloc_from_class :: "bool \<Rightarrow> nat \<Rightarrow> huge_alloc \<Rightarrow> (hbuf \<times> huge_alloc) option" where
  "alloc_from_class dbg cls h = do {
     cassert (cls < k_num_classes);
     cassert (ha_freelist h ! cls \<noteq> []);
     let buffer = last (ha_freelist h ! cls);
     let buffer = (if dbg then buffer\<lparr>hb_class_size := class_max_size cls\<rparr> else buffer);
     dassert dbg (hb_class_size buffer \<noteq> 0);
     Some (buffer, h\<lparr>ha_freelist := (ha_freelist h)[cls := butlast (ha_freelist h ! cls)],
                     ha_user_alloc_tot := ha_user_alloc_tot h + hb_class_size buffer\<rparr>)
   }"

function find_class :: "hbuf list list \<Rightarrow> nat \<Rightarrow> nat" where
  "find_class fl next_class =
    (if next_class < k_num_classes \<and> fl ! next_class = [] then find_class fl (next_class + 1) else next_class)"
  by auto
termination
  by (relation "measure (\<lambda>(fl, c). k_num_classes - c)") auto

declare find_class.simps [simp del]

text \<open>\<open>split_down dbg c d h\<close> is the loop that splits one buffer of each of the classes
  \<open>c + d, \<dots>, c + 1\<close>.\<close>

primrec split_down :: "bool \<Rightarrow> nat \<Rightarrow> nat \<Rightarrow> huge_alloc \<Rightarrow> huge_alloc option" where
  "split_down dbg cls 0 h = Some h"
| "split_down dbg cls (Suc d) h = do {
     h \<leftarrow> split dbg (cls + Suc d) h;
     split_down dbg cls d h
   }"

definition alloc ::
  "bool \<Rightarrow> nat \<Rightarrow> shm_os \<Rightarrow> (nat \<Rightarrow> nat \<Rightarrow> nat) \<Rightarrow> nat \<Rightarrow> huge_alloc \<Rightarrow> (hbuf \<times> huge_alloc) option" where
  "alloc dbg undef os reg sz h = do {
     dassert dbg (sz \<le> k_max_class_size);
     cls \<leftarrow> get_class dbg undef sz;
     cassert (cls < k_num_classes);
     if ha_freelist h ! cls \<noteq> [] then alloc_from_class dbg cls h
     else do {
       let next_class = find_class (ha_freelist h) (cls + 1);
       (next_class, h) \<leftarrow>
         (if next_class = k_num_classes then do {
            let h = h\<lparr>ha_prev_allocation_size := ha_prev_allocation_size h * 2\<rparr>;
            (success, h) \<leftarrow> reserve_hugepages dbg os reg (ha_prev_allocation_size h) h;
            if success then Some (Some (k_num_classes - 1), h)
            else Some (None, h\<lparr>ha_prev_allocation_size := ha_prev_allocation_size h div 2\<rparr>)
          } else Some (Some next_class, h));
       (case next_class of
          None \<Rightarrow> Some (\<lparr>hb_buf = 0, hb_class_size = 0, hb_lkey = 0\<rparr>, h)
        | Some c \<Rightarrow> do {
            dassert dbg (c < k_num_classes);
            h \<leftarrow> split_down dbg cls (c - cls) h;
            dassert dbg (ha_freelist h ! cls \<noteq> []);
            alloc_from_class dbg cls h
          })
     }
   }"

definition free_buf :: "bool \<Rightarrow> nat \<Rightarrow> hbuf \<Rightarrow> huge_alloc \<Rightarrow> huge_alloc option" where
  "free_buf dbg undef buffer h = do {
     dassert dbg (hb_buf buffer \<noteq> 0);
     cls \<leftarrow> get_class dbg undef (hb_class_size buffer);
     dassert dbg (class_max_size cls = hb_class_size buffer);
     cassert (cls < k_num_classes);
     Some (h\<lparr>ha_freelist := (ha_freelist h)[cls := ha_freelist h ! cls @ [buffer]],
              ha_user_alloc_tot := sz_sub (ha_user_alloc_tot h) (hb_class_size buffer)\<rparr>)
   }"

section \<open>Size classes\<close>

lemmas ha_consts = k_min_class_size_def k_max_class_size_def k_num_classes_def

lemma class_max_size_Suc: "class_max_size (Suc i) = class_max_size i * 2"
  by (simp add: class_max_size_def)

lemma class_max_size_pos [simp]: "0 < class_max_size i"
  by (simp add: class_max_size_def k_min_class_size_def)

lemma class_max_mono: "i \<le> j \<Longrightarrow> class_max_size i \<le> class_max_size j"
  unfolding class_max_size_def by (intro mult_left_mono power_increasing) auto

lemma class_loop_least:
  "\<exists>c. class_loop sz i (class_max_size i) = Some c \<and> i \<le> c \<and> sz \<le> class_max_size c \<and>
     (c = i \<or> class_max_size (c - 1) < sz)"
proof (induction "sz - class_max_size i" arbitrary: i rule: less_induct)
  case less
  show ?case
  proof (cases "class_max_size i < sz")
    case True
    have "sz - class_max_size (i + 1) < sz - class_max_size i"
      using True class_max_size_pos [of i] class_max_size_Suc [of i] by (simp only: Suc_eq_plus1)
    from less [OF this] obtain c where "class_loop sz (i + 1) (class_max_size (i + 1)) = Some c" "i + 1 \<le> c"
      "sz \<le> class_max_size c" "c = i + 1 \<or> class_max_size (c - 1) < sz"
      by blast
    then show ?thesis
      using True by (subst class_loop.simps) (auto simp: class_max_size_Suc)
  qed (subst class_loop.simps, simp)
qed

lemma get_class_slow_least:
  assumes "1 \<le> sz" "sz \<le> k_max_class_size"
  obtains c where "get_class_slow dbg sz = Some c" "sz \<le> class_max_size c" "c = 0 \<or> class_max_size (c - 1) < sz"
  using class_loop_least [of sz 0] assms
  by (auto simp: get_class_slow_def class_max_size_def k_min_class_size_def)

lemma get_class_eval:
  assumes "1 \<le> sz" "sz \<le> k_max_class_size"
  shows "get_class dbg undef sz = Some (if sz \<le> 64 then undef else bsr (2 * ((sz - 1) div 64)))"
proof -
  define x where "x = (sz - 1) div 64"
  have x: "x < 2 ^ 18"
    using assms by (simp add: x_def k_max_class_size_def)
  have t: "to_int32 (int x) = int x"
    using x by (intro to_int32_id) auto
  have y: "nat (2 * int x mod 2 ^ 32) = 2 * x"
    using x by simp
  have "msb_index dbg undef (int x) = Some (if x = 0 then undef else bsr (2 * x))"
    using x y by (simp add: msb_index_def Let_def)
  moreover have "get_class dbg undef sz = msb_index dbg undef (int x)"
    using assms t by (simp add: get_class_def x_def)
  moreover have "x = 0 \<longleftrightarrow> sz \<le> 64"
    using assms(1) by (auto simp: x_def div_eq_0_iff)
  ultimately show ?thesis
    by (simp add: x_def)
qed

lemma bsr_class:
  assumes "64 < sz" "sz \<le> class_max_size c" "class_max_size (c - 1) < sz"
  shows "bsr (2 * ((sz - 1) div 64)) = c"
proof (rule bsr_unique)
  have "c \<noteq> 0"
    using assms by (intro notI) (simp add: class_max_size_def k_min_class_size_def)
  then obtain d where c: "c = Suc d"
    by (cases c) auto
  have "64 * 2 ^ d \<le> sz - 1" "sz - 1 < 64 * 2 ^ c"
    using assms by (auto simp: c class_max_size_def k_min_class_size_def)
  then have "2 ^ d \<le> (sz - 1) div 64" "(sz - 1) div 64 < 2 ^ c"
    by (simp_all add: less_eq_div_iff_mult_less_eq less_mult_imp_div_less mult.commute)
  then show "2 ^ c \<le> 2 * ((sz - 1) div 64)" "2 * ((sz - 1) div 64) < 2 ^ Suc c"
    by (simp_all add: c)
qed

text \<open>(C24) The optimised \<^verbatim>\<open>get_class\<close> agrees with its reference \<^verbatim>\<open>get_class_slow\<close> on every size the
  allocator accepts, except that for sizes up to 64 bytes its result is whatever the instruction
  leaves for a zero operand.\<close>

theorem get_class_matches_reference:
  assumes "1 \<le> sz" "sz \<le> k_max_class_size"
  shows "get_class dbg undef sz = get_class_slow dbg sz \<longleftrightarrow> 64 < sz \<or> undef = 0"
proof -
  obtain c where c: "get_class_slow dbg sz = Some c" "sz \<le> class_max_size c" "c = 0 \<or> class_max_size (c - 1) < sz"
    using get_class_slow_least [OF assms] .
  show ?thesis
  proof (cases "64 < sz")
    case True
    then have "c \<noteq> 0"
      using c(2) by (intro notI) (simp add: class_max_size_def k_min_class_size_def)
    then show ?thesis
      using True c bsr_class [OF True] get_class_eval [OF assms] by simp
  next
    case False
    have "c = 0"
    proof (rule ccontr)
      assume "c \<noteq> 0"
      then have "64 * 2 ^ (c - 1) < sz"
        using c(3) by (simp add: class_max_size_def k_min_class_size_def)
      moreover have "(1::nat) \<le> 2 ^ (c - 1)"
        by simp
      ultimately show False
        using False by linarith
    qed
    then show ?thesis
      using False c(1) get_class_eval [OF assms] by auto
  qed
qed

theorem get_class_matches_reference_witness:
  "get_class True 5 1000 = get_class_slow True 1000 \<and> get_class True 5 64 \<noteq> get_class_slow True 64"
  using get_class_matches_reference [of 1000 True 5] get_class_matches_reference [of 64 True 5]
  by (simp add: k_max_class_size_def)

section \<open>No two live buffers overlap\<close>

text \<open>\<open>cov bs a\<close> counts the buffers of \<open>bs\<close> that contain the address \<open>a\<close>. Splitting and moving
  buffers between lists conserves the count of all free and live buffers; only a new region
  raises it. The invariant bounds the count by the regions that contain \<open>a\<close>, of which there is
  at most one.\<close>

definition contains :: "nat \<Rightarrow> hbuf \<Rightarrow> bool" where
  "contains a b \<longleftrightarrow> hb_buf b \<le> a \<and> a < hb_buf b + hb_class_size b"

definition cov :: "hbuf list \<Rightarrow> nat \<Rightarrow> nat" where
  "cov bs a = length (filter (contains a) bs)"

definition free_cov :: "huge_alloc \<Rightarrow> nat \<Rightarrow> nat" where
  "free_cov h a = sum_list (map (\<lambda>bs. cov bs a) (ha_freelist h))"

definition in_region :: "nat \<Rightarrow> shm_region \<Rightarrow> bool" where
  "in_region a r \<longleftrightarrow> sh_buf r \<le> a \<and> a < sh_buf r + sh_size r"

definition region_cov :: "huge_alloc \<Rightarrow> nat \<Rightarrow> nat" where
  "region_cov h a = length (filter (in_region a) (ha_shm_list h))"

definition class_ok :: "nat \<Rightarrow> hbuf \<Rightarrow> bool" where
  "class_ok c b \<longleftrightarrow> hb_buf b \<noteq> 0 \<and> (hb_class_size b = class_max_size c \<or> hb_class_size b = class_max_size (Suc c))"

definition fl_ok :: "huge_alloc \<Rightarrow> bool" where
  "fl_ok h \<longleftrightarrow> length (ha_freelist h) = k_num_classes \<and>
     (\<forall>c < k_num_classes. \<forall>b \<in> set (ha_freelist h ! c). class_ok c b)"

definition ha_inv :: "hbuf list \<Rightarrow> huge_alloc \<Rightarrow> bool" where
  "ha_inv live h \<longleftrightarrow> fl_ok h \<and> (\<forall>a. free_cov h a + cov live a \<le> region_cov h a \<and> region_cov h a \<le> 1)"

definition os_fresh :: "shm_os \<Rightarrow> huge_alloc \<Rightarrow> bool" where
  "os_fresh os h \<longleftrightarrow> (\<forall>k n b ok a. os k n = Shm_ok b ok \<longrightarrow> b \<le> a \<longrightarrow> a < b + n \<longrightarrow> region_cov h a = 0)"

lemma cov_simps [simp]:
  "cov [] a = 0" "cov (b # bs) a = (if contains a b then 1 else 0) + cov bs a"
  "cov (xs @ ys) a = cov xs a + cov ys a"
  by (simp_all add: cov_def)

lemma cov_butlast: "xs \<noteq> [] \<Longrightarrow> cov (butlast xs) a + (if contains a (last xs) then 1 else 0) = cov xs a"
  by (induction xs) auto

lemma sum_list_update:
  fixes f :: "'a \<Rightarrow> nat"
  shows "i < length xs \<Longrightarrow> sum_list (map f (xs[i := y])) + f (xs ! i) = sum_list (map f xs) + f y"
  by (induction xs arbitrary: i) (auto split: nat.split)

lemma free_cov_update:
  assumes "c < length (ha_freelist h)"
  shows "free_cov (h\<lparr>ha_freelist := (ha_freelist h)[c := bs]\<rparr>) a + cov (ha_freelist h ! c) a = free_cov h a + cov bs a"
  using sum_list_update [OF assms, of "\<lambda>bs. cov bs a" bs] by (simp add: free_cov_def)

lemma halves_contains:
  assumes "even (hb_class_size b)"
  shows "(if contains a (b\<lparr>hb_class_size := hb_class_size b div 2\<rparr>) then 1 else 0) +
    (if contains a (b\<lparr>hb_buf := hb_buf b + hb_class_size b div 2, hb_class_size := hb_class_size b div 2\<rparr>) then 1 else 0)
    = (if contains a b then 1 else (0 :: nat))"
proof -
  obtain k where k: "hb_class_size b = 2 * k"
    using assms by (elim evenE)
  show ?thesis
    by (auto simp: contains_def k)
qed

lemma fl_okD:
  assumes "fl_ok h" "c < k_num_classes" "b \<in> set (ha_freelist h ! c)"
  shows "hb_buf b \<noteq> 0" "hb_class_size b = class_max_size c \<or> hb_class_size b = class_max_size (Suc c)"
  using assms by (auto simp: fl_ok_def class_ok_def)

lemma fl_ok_update:
  assumes "fl_ok h" "c < k_num_classes" "\<forall>b \<in> set bs. class_ok c b"
  shows "fl_ok (h\<lparr>ha_freelist := (ha_freelist h)[c := bs]\<rparr>)"
  using assms by (auto simp: fl_ok_def nth_list_update)

lemma split_conserves:
  assumes "split dbg c h = Some h'" "fl_ok h"
  shows "fl_ok h'" "free_cov h' a = free_cov h a" "ha_shm_list h' = ha_shm_list h"
    "length (ha_freelist h' ! (c - 1)) = length (ha_freelist h ! (c - 1)) + 2"
proof -
  let ?fl = "ha_freelist h"
  let ?b = "last (?fl ! c)"
  let ?lo = "?b\<lparr>hb_class_size := hb_class_size ?b div 2\<rparr>"
  let ?hi = "?b\<lparr>hb_buf := hb_buf ?b + hb_class_size ?b div 2, hb_class_size := hb_class_size ?b div 2\<rparr>"
  let ?h1 = "h\<lparr>ha_freelist := ?fl[c := butlast (?fl ! c)]\<rparr>"
  have len: "length ?fl = k_num_classes"
    using assms(2) by (simp add: fl_ok_def)
  have c: "1 \<le> c" "c < k_num_classes" "?fl ! c \<noteq> []"
    and h': "h' = ?h1\<lparr>ha_freelist := (ha_freelist ?h1)[c - 1 := ha_freelist ?h1 ! (c - 1) @ [?lo, ?hi]]\<rparr>"
    using assms(1) by (auto simp: split_def Let_def dassert_def split: if_splits)
  have b: "?b \<in> set (?fl ! c)"
    using c(3) by simp
  have szb: "hb_class_size ?b = class_max_size c \<or> hb_class_size ?b = class_max_size (Suc c)" "hb_buf ?b \<noteq> 0"
    using fl_okD [OF assms(2) c(2) b] by auto
  then have ev: "even (hb_class_size ?b)"
    by (auto simp: class_max_size_def k_min_class_size_def)
  have half: "hb_class_size ?b div 2 = class_max_size (c - 1) \<or> hb_class_size ?b div 2 = class_max_size c"
    using szb(1) c(1) by (cases c) (auto simp: class_max_size_Suc)
  have other: "ha_freelist ?h1 ! (c - 1) = ?fl ! (c - 1)"
    using c(1) by simp
  have "fl_ok ?h1"
    using assms(2) c(2) by (intro fl_ok_update) (auto simp: fl_ok_def dest: in_set_butlastD)
  moreover have "class_ok (c - 1) ?lo" "class_ok (c - 1) ?hi"
    using szb(2) half c(1) by (auto simp: class_ok_def)
  moreover have "\<forall>b \<in> set (?fl ! (c - 1)). class_ok (c - 1) b"
    using assms(2) c(2) by (simp add: fl_ok_def)
  ultimately show "fl_ok h'"
    unfolding h' using c by - (rule fl_ok_update, auto)
  have "free_cov ?h1 a + cov (?fl ! c) a = free_cov h a + cov (butlast (?fl ! c)) a"
    using free_cov_update [of c h] c len by simp
  moreover have "free_cov h' a + cov (?fl ! (c - 1)) a = free_cov ?h1 a + cov (?fl ! (c - 1) @ [?lo, ?hi]) a"
    using free_cov_update [of "c - 1" ?h1 "?fl ! (c - 1) @ [?lo, ?hi]" a] c len other unfolding h' by simp
  moreover have "cov [?lo, ?hi] a = (if contains a ?b then 1 else 0)"
    using halves_contains [OF ev, of a] by simp
  ultimately show "free_cov h' a = free_cov h a"
    using cov_butlast [OF c(3), of a] by (simp only: cov_simps(3))
  show "ha_shm_list h' = ha_shm_list h" "length (ha_freelist h' ! (c - 1)) = length (?fl ! (c - 1)) + 2"
    using c len by (simp_all add: h')
qed

lemma split_down_conserves:
  assumes "fl_ok h" "c + d < k_num_classes" "ha_freelist h ! (c + d) \<noteq> []"
  shows "\<exists>h'. split_down False c d h = Some h' \<and> fl_ok h' \<and> (\<forall>a. free_cov h' a = free_cov h a) \<and>
    ha_shm_list h' = ha_shm_list h \<and> ha_freelist h' ! c \<noteq> []"
  using assms
proof (induction d arbitrary: h)
  case (Suc d)
  obtain h1 where h1: "split False (c + Suc d) h = Some h1"
    using Suc.prems by (auto simp: split_def Let_def)
  note cons = split_conserves [OF h1 Suc.prems(1)]
  have "ha_freelist h1 ! (c + d) \<noteq> []"
    using cons(4) by (intro notI) simp
  then obtain h' where "split_down False c d h1 = Some h'" "fl_ok h'" "\<forall>a. free_cov h' a = free_cov h1 a"
    "ha_shm_list h' = ha_shm_list h1" "ha_freelist h' ! c \<noteq> []"
    using Suc.IH [of h1] Suc.prems(2) cons(1) by auto
  then show ?case
    using h1 cons(2,3) by auto
qed simp

lemma alloc_from_class_conserves:
  assumes "fl_ok h" "c < k_num_classes" "ha_freelist h ! c \<noteq> []"
  shows "\<exists>b h'. alloc_from_class False c h = Some (b, h') \<and> fl_ok h' \<and> b \<in> set (ha_freelist h ! c) \<and>
    (\<forall>a. free_cov h' a + cov [b] a = free_cov h a) \<and> ha_shm_list h' = ha_shm_list h"
proof -
  let ?b = "last (ha_freelist h ! c)"
  let ?h1 = "h\<lparr>ha_freelist := (ha_freelist h)[c := butlast (ha_freelist h ! c)]\<rparr>"
  have len: "length (ha_freelist h) = k_num_classes"
    using assms(1) by (simp add: fl_ok_def)
  have "free_cov ?h1 a + cov [?b] a = free_cov h a" for a
    using free_cov_update [of c h "butlast (ha_freelist h ! c)" a] cov_butlast [OF assms(3), of a] assms(2) len by simp
  moreover have "fl_ok ?h1"
    using assms(1,2) by (intro fl_ok_update) (auto simp: fl_ok_def dest: in_set_butlastD)
  ultimately show ?thesis
    using assms(2,3) by (simp add: alloc_from_class_def Let_def fl_ok_def free_cov_def)
qed

lemma find_class_spec:
  "c \<le> k_num_classes \<Longrightarrow> c \<le> find_class fl c \<and> find_class fl c \<le> k_num_classes \<and>
    (find_class fl c < k_num_classes \<longrightarrow> fl ! find_class fl c \<noteq> [])"
proof (induction fl c rule: find_class.induct)
  case (1 fl c)
  show ?case
  proof (cases "c < k_num_classes \<and> fl ! c = []")
    case True
    then have "find_class fl c = find_class fl (c + 1)"
      by (subst find_class.simps) simp
    then show ?thesis
      using 1 True by auto
  next
    case False
    then have "find_class fl c = c"
      by (subst find_class.simps) auto
    then show ?thesis
      using False 1(2) by auto
  qed
qed

lemma cov_tiles:
  "cov (map (\<lambda>i. \<lparr>hb_buf = b + i * m, hb_class_size = m, hb_lkey = l\<rparr>) [0..<n]) a =
    (if b \<le> a \<and> a < b + n * m then 1 else 0)"
  by (induction n) (auto simp: contains_def)

definition os_serves :: "shm_os \<Rightarrow> bool" where
  "os_serves os \<longleftrightarrow> (\<forall>k n. os k n = Shm_ENOMEM \<or> (\<exists>b. os k n = Shm_ok b True \<and> b \<noteq> 0))"

lemma reserve_hugepages_spec:
  assumes inv: "ha_inv live h" and os: "os_fresh os h" "os_serves os"
    and sz: "k_max_class_size \<le> sz" "sz + 2 ^ 21 \<le> 2 ^ 64"
  shows "\<exists>ok h'. reserve_hugepages dbg os reg sz h = Some (ok, h') \<and> ha_inv live h' \<and>
    (ok \<longrightarrow> ha_freelist h' ! (k_num_classes - 1) \<noteq> []) \<and> (\<not> ok \<longrightarrow> ha_freelist h' = ha_freelist h)"
proof -
  let ?n = "unat (round_up (of_nat kHugepageSize) (of_nat sz))"
  have hp: "(of_nat kHugepageSize :: u64) = 2 ^ 21"
    by (simp add: kHugepageSize_def)
  have n: "sz \<le> ?n"
    unfolding hp using round_up_bounds(1) [of 21 sz] sz(2) by simp
  define num where "num = sz div k_max_class_size"
  have num: "1 \<le> num" "num * k_max_class_size \<le> ?n"
    using sz(1) n by (auto simp: num_def k_max_class_size_def intro: order_trans [OF div_times_less_eq_dividend])
  consider "os (ha_shm_calls h) ?n = Shm_ENOMEM" | b where "os (ha_shm_calls h) ?n = Shm_ok b True" "b \<noteq> 0"
    using os(2) by (auto simp: os_serves_def)
  then show ?thesis
  proof cases
    case 1
    then have "reserve_hugepages dbg os reg sz h = Some (False, h\<lparr>ha_shm_calls := Suc (ha_shm_calls h)\<rparr>)"
      using sz(1) by (simp add: reserve_hugepages_def alloc_raw_def Let_def shm_loop.simps)
    moreover have "ha_inv live (h\<lparr>ha_shm_calls := Suc (ha_shm_calls h)\<rparr>)"
      using inv by (simp add: ha_inv_def fl_ok_def free_cov_def region_cov_def)
    ultimately show ?thesis
      by (intro exI [of _ False]) simp
  next
    case 2
    let ?bufs = "map (\<lambda>i. \<lparr>hb_buf = b + i * k_max_class_size, hb_class_size = k_max_class_size, hb_lkey = reg b ?n\<rparr>) [0..<num]"
    let ?h1 = "h\<lparr>ha_shm_calls := Suc (ha_shm_calls h),
        ha_shm_list := ha_shm_list h @ [\<lparr>sh_buf = b, sh_size = ?n, sh_registered = True\<rparr>],
        ha_shm_reserved := ha_shm_reserved h + ?n\<rparr>"
    let ?h2 = "?h1\<lparr>ha_freelist := (ha_freelist ?h1)[k_num_classes - 1 := ha_freelist ?h1 ! (k_num_classes - 1) @ ?bufs]\<rparr>"
    have len: "length (ha_freelist h) = k_num_classes"
      using inv by (simp add: ha_inv_def fl_ok_def)
    have res: "reserve_hugepages dbg os reg sz h = Some (True, ?h2)"
      using 2 sz(1) num(1) by (simp add: reserve_hugepages_def alloc_raw_def Let_def shm_loop.simps flip: num_def)
    have "fl_ok ?h1"
      using inv by (simp add: ha_inv_def fl_ok_def)
    moreover have "\<forall>x \<in> set ?bufs. class_ok (k_num_classes - 1) x"
      using 2(2) by (simp add: class_ok_def class_max_size_def ha_consts)
    ultimately have ok: "fl_ok ?h2"
      by (intro fl_ok_update) (auto simp: fl_ok_def k_num_classes_def)
    have "free_cov ?h2 a + cov live a \<le> region_cov ?h2 a \<and> region_cov ?h2 a \<le> 1" for a
    proof -
      have "free_cov ?h2 a = free_cov h a + cov ?bufs a"
        using free_cov_update [of "k_num_classes - 1" ?h1 "ha_freelist ?h1 ! (k_num_classes - 1) @ ?bufs" a] len
        by (simp add: k_num_classes_def free_cov_def)
      moreover have "region_cov ?h2 a = region_cov h a + (if b \<le> a \<and> a < b + ?n then 1 else 0)"
        by (simp add: region_cov_def in_region_def)
      moreover have "b \<le> a \<Longrightarrow> a < b + ?n \<Longrightarrow> region_cov h a = 0"
        using os(1) 2(1) by (auto simp: os_fresh_def)
      moreover have "cov ?bufs a \<le> (if b \<le> a \<and> a < b + ?n then 1 else 0)"
        using num(2) by (simp add: cov_tiles)
      moreover have "free_cov h a + cov live a \<le> region_cov h a \<and> region_cov h a \<le> 1"
        using inv by (simp add: ha_inv_def)
      ultimately show ?thesis
        by (simp split: if_splits)
    qed
    with ok have "ha_inv live ?h2"
      by (simp add: ha_inv_def)
    moreover have "ha_freelist ?h2 ! (k_num_classes - 1) \<noteq> []"
      using len num(1) by (simp add: k_num_classes_def)
    ultimately show ?thesis
      using res by blast
  qed
qed

lemma class_below:
  assumes "sz \<le> class_max_size n" "c = 0 \<or> class_max_size (c - 1) < sz"
  shows "c \<le> n"
proof (rule ccontr)
  assume "\<not> c \<le> n"
  then have "class_max_size n \<le> class_max_size (c - 1)"
    by (intro class_max_mono) simp
  with assms \<open>\<not> c \<le> n\<close> show False
    by auto
qed

lemma get_class_cases:
  assumes "64 < sz" "sz \<le> class_max_size n" "n \<le> k_num_classes"
  obtains c where "get_class dbg undef sz = Some c" "sz \<le> class_max_size c" "c \<le> n"
    "class_max_size (c - 1) < sz"
proof -
  have "class_max_size n \<le> class_max_size k_num_classes"
    using assms(3) by (rule class_max_mono)
  then have szb: "1 \<le> sz" "sz \<le> k_max_class_size"
    using assms by (simp_all add: class_max_size_def ha_consts)
  obtain c where c: "get_class_slow dbg sz = Some c" "sz \<le> class_max_size c" "c = 0 \<or> class_max_size (c - 1) < sz"
    using get_class_slow_least [OF szb] .
  have "c \<noteq> 0"
    using c(2) assms(1) by (intro notI) (simp add: class_max_size_def k_min_class_size_def)
  then have "get_class dbg undef sz = Some c"
    using get_class_eval [OF szb] bsr_class [OF assms(1) c(2)] c(3) assms(1) by simp
  then show thesis
    using that c class_below [OF assms(2) c(3)] \<open>c \<noteq> 0\<close> by blast
qed

lemma ha_inv_move:
  assumes "ha_inv live h" "fl_ok h'" "ha_shm_list h' = ha_shm_list h"
    and "\<And>a. free_cov h' a + cov live' a = free_cov h a + cov live a"
  shows "ha_inv live' h'"
  using assms by (simp add: ha_inv_def region_cov_def)

lemma split_down_inv:
  assumes "ha_inv live h" "c + d < k_num_classes" "ha_freelist h ! (c + d) \<noteq> []"
  shows "\<exists>h'. split_down False c d h = Some h' \<and> ha_inv live h' \<and> ha_freelist h' ! c \<noteq> []"
  using split_down_conserves [OF _ assms(2,3)] assms(1) by (fastforce simp: ha_inv_def region_cov_def)

lemma alloc_from_class_serves:
  assumes "ha_inv live h" "ha_freelist h ! c \<noteq> []" "c < k_num_classes" "sz \<le> class_max_size c"
  shows "\<exists>b h'. alloc_from_class False c h = Some (b, h') \<and>
    (if hb_buf b = 0 then ha_inv live h' else sz \<le> hb_class_size b \<and> ha_inv (b # live) h')"
proof -
  have fl: "fl_ok h"
    using assms(1) by (simp add: ha_inv_def)
  obtain b h' where res: "alloc_from_class False c h = Some (b, h')" "fl_ok h'" "b \<in> set (ha_freelist h ! c)"
    and cov: "\<forall>a. free_cov h' a + cov [b] a = free_cov h a" and shm: "ha_shm_list h' = ha_shm_list h"
    using alloc_from_class_conserves [OF fl assms(3,2)] by blast
  have "hb_buf b \<noteq> 0" "class_max_size c \<le> hb_class_size b"
    using fl_okD [OF fl assms(3) res(3)] by (auto simp: class_max_size_Suc)
  moreover have "ha_inv (b # live) h'"
    by (rule ha_inv_move [OF assms(1) res(2) shm]) (use cov in \<open>simp add: add.assoc [symmetric]\<close>)
  ultimately show ?thesis
    using res(1) assms(4) by auto
qed


definition demo_os :: shm_os where
  "demo_os k n = (if k = 0 then Shm_ok 4096 True else Shm_ENOMEM)"

lemma fresh_inv [simp]: "ha_inv [] (HugeAlloc_new n)"
  by (simp add: ha_inv_def fl_ok_def HugeAlloc_new_def free_cov_def region_cov_def k_num_classes_def sum_list_replicate)

lemma fresh_os [simp]: "os_fresh os (HugeAlloc_new n)" "os_serves demo_os"
  by (auto simp: os_fresh_def os_serves_def demo_os_def HugeAlloc_new_def region_cov_def)



definition demo_live :: hbuf where
  "demo_live = \<lparr>hb_buf = 4096, hb_class_size = 1024, hb_lkey = 7\<rparr>"

definition demo_heap :: huge_alloc where
  "demo_heap = (HugeAlloc_new 0)\<lparr>ha_shm_list := [\<lparr>sh_buf = 4096, sh_size = 2097152, sh_registered = True\<rparr>]\<rparr>"


lemma fresh_find_class: "c \<le> k_num_classes \<Longrightarrow> find_class (replicate k_num_classes []) c = k_num_classes"
  using find_class_spec [of c "replicate k_num_classes []"] by (metis nth_replicate order_le_less)

lemma fresh_reserve:
  assumes "\<And>k n. os k n = Shm_ok base True" "base \<noteq> 0" "init \<le> 2 ^ 60"
    and h: "h = (HugeAlloc_new init)\<lparr>ha_prev_allocation_size := ha_prev_allocation_size (HugeAlloc_new init) * 2\<rparr>"
  obtains h' where "reserve_hugepages dbg os reg (ha_prev_allocation_size h) h = Some (True, h')"
    "ha_freelist h' ! 16 = []" "ha_freelist h' ! 17 \<noteq> []"
    "hb_class_size (last (ha_freelist h' ! 17)) = class_max_size 18"
proof -
  let ?sz = "ha_prev_allocation_size h"
  have "k_max_class_size \<le> ?sz"
    by (simp add: h HugeAlloc_new_def k_max_class_size_def)
  then have n: "k_max_class_size \<le> ?sz" "1 \<le> ?sz div k_max_class_size"
    by (simp_all add: k_max_class_size_def)
  then have "[0..<?sz div k_max_class_size] \<noteq> []"
    by simp
  moreover have "ha_freelist h = replicate k_num_classes []"
    by (simp add: h HugeAlloc_new_def)
  ultimately show thesis
    using that n assms(1,2)
    by (simp add: reserve_hugepages_def alloc_raw_def Let_def shm_loop.simps k_num_classes_def last_map
        class_max_size_def k_min_class_size_def k_max_class_size_def)
qed

text \<open>(C27) The freelist of the largest class holds buffers of 16 MB, twice the size of that class. A
  build with assertions therefore stops at the first allocation of up to 4 MB from a fresh
  allocator, and without assertions a buffer for more than 4 MB that a fresh allocator returns
  cannot be freed.\<close>

theorem largest_class_is_wrong:
  assumes os: "\<And>k n. os k n = Shm_ok base True" "base \<noteq> 0" and init: "init \<le> 2 ^ 60"
    and sz: "64 < sz" "sz \<le> class_max_size 17"
  shows "if sz \<le> class_max_size 16 then alloc True undef os reg sz (HugeAlloc_new init) = None
    else \<exists>b h'. alloc False undef os reg sz (HugeAlloc_new init) = Some (b, h') \<and> free_buf False undef b h' = None"
proof -
  let ?h = "(HugeAlloc_new init)\<lparr>ha_prev_allocation_size := ha_prev_allocation_size (HugeAlloc_new init) * 2\<rparr>"
  have fl: "ha_freelist (HugeAlloc_new init) = replicate k_num_classes []"
    by (simp add: HugeAlloc_new_def)
  have szk: "sz \<le> k_max_class_size"
    using sz(2) by (simp add: class_max_size_def ha_consts)
  moreover obtain c where "get_class True undef sz = Some c" "sz \<le> class_max_size c" "c \<le> 17" "class_max_size (c - 1) < sz"
    using get_class_cases [OF sz] by (auto simp: k_num_classes_def)
  ultimately have c: "get_class dbg undef sz = Some c" "c < k_num_classes" "sz \<le> class_max_size 16 \<longleftrightarrow> c \<le> 16" for dbg
    using get_class_eval [of sz] sz(1) class_below [of sz 16 c] class_max_mono [of c 16] by (auto simp: k_num_classes_def)
  show ?thesis
  proof (cases "c \<le> 16")
    case True
    obtain h' where h': "reserve_hugepages True os reg (ha_prev_allocation_size ?h) ?h = Some (True, h')"
      "ha_freelist h' ! 16 = []" "ha_freelist h' ! 17 \<noteq> []"
      "hb_class_size (last (ha_freelist h' ! 17)) = class_max_size 18"
      using fresh_reserve [OF os init refl] .
    obtain d where d: "17 - c = Suc d" "c + Suc d = 17"
      using True by (cases "17 - c") auto
    have "split True 17 h' = None"
      using h'(2-) by (simp add: split_def Let_def class_max_size_def k_min_class_size_def)
    then have "split_down True c (17 - c) h' = None"
      using d by simp
    then show ?thesis
      using True c h'(1) fl szk fresh_find_class [of "c + 1"]
      by (simp add: alloc_def Let_def k_num_classes_def)
  next
    case False
    obtain h' where h': "reserve_hugepages False os reg (ha_prev_allocation_size ?h) ?h = Some (True, h')"
      "ha_freelist h' ! 16 = []" "ha_freelist h' ! 17 \<noteq> []"
      "hb_class_size (last (ha_freelist h' ! 17)) = class_max_size 18"
      using fresh_reserve [OF os init refl] .
    let ?b = "last (ha_freelist h' ! 17)"
    have "c = 17"
      using False c(2) by (simp add: k_num_classes_def)
    then obtain h'' where "alloc False undef os reg sz (HugeAlloc_new init) = Some (?b, h'')"
      using c(1) h'(1,3) fl fresh_find_class [of 18]
      by (simp add: alloc_def Let_def k_num_classes_def alloc_from_class_def)
    moreover have "get_class False undef (hb_class_size ?b) = Some 18"
      using h'(4) get_class_eval [of "class_max_size 18" False undef] bsr_class [of "class_max_size 18" 18]
      by (simp add: class_max_size_def ha_consts)
    then have "free_buf False undef ?b h'' = None"
      by (simp add: free_buf_def k_num_classes_def)
    ultimately show ?thesis
      using False c(3) by auto
  qed
qed

theorem largest_class_is_wrong_witness:
  "alloc True 0 (\<lambda>k n. Shm_ok 4096 True) (\<lambda>_ _. 7) 1000 (HugeAlloc_new 0) = None \<and>
   (\<exists>b h'. alloc False 0 (\<lambda>k n. Shm_ok 4096 True) (\<lambda>_ _. 7) 5000000 (HugeAlloc_new 0) = Some (b, h') \<and>
     free_buf False 0 b h' = None)"
  using largest_class_is_wrong [of "\<lambda>k n. Shm_ok 4096 True" 4096 0 1000 0 "\<lambda>_ _. 7"]
    largest_class_is_wrong [of "\<lambda>k n. Shm_ok 4096 True" 4096 0 5000000 0 "\<lambda>_ _. 7"]
  by (simp add: class_max_size_def k_min_class_size_def)

end
