(* ===== verification/Iovec.thy ===== *)
theory Iovec
  imports Prelude
begin

section \<open>The iovec views of huibuffer\<close>

text \<open>
  Model of \<^verbatim>\<open>struct iovector_view\<close> (src/src/huibuffer/iovector.h and iovector.cpp). A view is
  a pointer into an array of \<^verbatim>\<open>iovec\<close> and a count; it does not own the array, and its
  operations write through the pointer. The record therefore carries the whole array
  (\<open>vw_arr\<close>), the index the pointer has in it (\<open>vw_iov\<close>) and the count, so that a write
  made through a view is seen by the owner of the array.

  \<open>vw_list\<close> is the list of iovecs a view shows, and \<open>iov_bytes m\<close> the byte string they
  denote in memory \<open>m\<close>. The lemmas reduce every operation to list functions on
  \<open>vw_list\<close>, and these to \<open>take\<close> and \<open>drop\<close> on the byte string.
\<close>

record iovec =
  iov_base :: nat
  iov_len :: nat

record iovector_view =
  vw_arr :: "iovec list"
  vw_iov :: nat
  vw_iovcnt :: nat

definition vw_list :: "iovector_view \<Rightarrow> iovec list" where
  "vw_list v = take (vw_iovcnt v) (drop (vw_iov v) (vw_arr v))"

definition vw_wf :: "iovector_view \<Rightarrow> bool" where
  "vw_wf v \<longleftrightarrow> vw_iov v + vw_iovcnt v \<le> length (vw_arr v)"

subsection \<open>Elements of a view\<close>

definition vw_empty :: "iovector_view \<Rightarrow> bool" where
  "vw_empty v \<longleftrightarrow> vw_iovcnt v = 0"

definition vw_front :: "iovector_view \<Rightarrow> iovec" where
  "vw_front v = vw_arr v ! vw_iov v"

definition vw_back :: "iovector_view \<Rightarrow> iovec" where
  "vw_back v = vw_arr v ! (vw_iov v + (vw_iovcnt v - 1))"

definition set_front :: "iovec \<Rightarrow> iovector_view \<Rightarrow> iovector_view" where
  "set_front e v = v\<lparr>vw_arr := (vw_arr v)[vw_iov v := e]\<rparr>"

definition set_back :: "iovec \<Rightarrow> iovector_view \<Rightarrow> iovector_view" where
  "set_back e v = v\<lparr>vw_arr := (vw_arr v)[vw_iov v + (vw_iovcnt v - 1) := e]\<rparr>"

text \<open>The assertion \<^verbatim>\<open>iovcnt > 0\<close> of \<^verbatim>\<open>pop_front\<close> and \<^verbatim>\<open>pop_back\<close> is the loop guard of each of
  their callers.\<close>

definition pop_front :: "iovector_view \<Rightarrow> iovector_view" where
  "pop_front v = v\<lparr>vw_iov := vw_iov v + 1, vw_iovcnt := vw_iovcnt v - 1\<rparr>"

definition pop_back :: "iovector_view \<Rightarrow> iovector_view" where
  "pop_back v = v\<lparr>vw_iovcnt := vw_iovcnt v - 1\<rparr>"

subsection \<open>Sum and shrinking\<close>

fun sum_loop :: "iovec list \<Rightarrow> nat \<Rightarrow> nat" where
  "sum_loop [] s = s"
| "sum_loop (e # es) s = sum_loop es (s + iov_len e)"

definition vw_sum :: "iovector_view \<Rightarrow> nat" where
  "vw_sum v = sum_loop (vw_list v) 0"

function shrink_to_loop :: "nat \<Rightarrow> nat \<Rightarrow> nat \<Rightarrow> iovector_view \<Rightarrow> nat \<times> iovector_view" where
  "shrink_to_loop sz0 i sz v =
    (if i < vw_iovcnt v then
       let e = vw_arr v ! (vw_iov v + i) in
       if sz \<le> iov_len e then
         (sz0, v\<lparr>vw_arr := (vw_arr v)[vw_iov v + i := e\<lparr>iov_len := sz\<rparr>], vw_iovcnt := i + 1\<rparr>)
       else shrink_to_loop sz0 (i + 1) (sz - iov_len e) v
     else (sz0 - sz, v))"
  by pat_completeness auto
termination by (relation "measure (\<lambda>(_, i, _, v). vw_iovcnt v - i)") auto

definition shrink_to :: "nat \<Rightarrow> iovector_view \<Rightarrow> nat \<times> iovector_view" where
  "shrink_to sz v =
    (if sz = 0 then (0, v\<lparr>vw_iovcnt := 0\<rparr>) else shrink_to_loop sz 0 sz v)"

function shrink_less_than_loop :: "nat \<Rightarrow> nat \<Rightarrow> iovector_view \<Rightarrow> nat \<times> iovector_view" where
  "shrink_less_than_loop i sz v =
    (if i < vw_iovcnt v then
       let e = vw_arr v ! (vw_iov v + i) in
       if sz \<le> iov_len e then (iov_len e - sz, v\<lparr>vw_iovcnt := i + 1\<rparr>)
       else shrink_less_than_loop (i + 1) (sz - iov_len e) v
     else (0, v))"
  by pat_completeness auto
termination by (relation "measure (\<lambda>(i, _, v). vw_iovcnt v - i)") auto

definition shrink_less_than :: "nat \<Rightarrow> iovector_view \<Rightarrow> nat \<times> iovector_view" where
  "shrink_less_than sz v =
    (if sz = 0 then
       (if vw_iovcnt v \<noteq> 0 then (iov_len (vw_front v), v\<lparr>vw_iovcnt := 0\<rparr>) else (0, v))
     else shrink_less_than_loop 0 sz v)"

declare shrink_to_loop.simps [simp del] shrink_less_than_loop.simps [simp del]

subsection \<open>Slices\<close>

text \<open>\<^verbatim>\<open>slice\<close> fills the iovec array of the view \<open>out\<close>, whose count is its capacity, and sets
  the count to the number of entries written. \<open>pos\<close> and \<open>offset\<close> are \<^verbatim>\<open>off_t\<close>.\<close>

fun slice_loop :: "iovec list \<Rightarrow> nat \<Rightarrow> int \<Rightarrow> int \<Rightarrow> nat \<Rightarrow> int \<Rightarrow> iovector_view \<Rightarrow> int \<times> iovector_view"
where
  "slice_loop [] count offset pos cnt ret out = (ret, out\<lparr>vw_iovcnt := cnt\<rparr>)"
| "slice_loop (p # ps) count offset pos cnt ret out =
    (if count \<noteq> 0 \<and> pos + int (iov_len p) > offset then
       let q0 = (if offset > pos
                 then \<lparr>iov_base = iov_base p + nat (offset - pos),
                       iov_len = iov_len p - nat (offset - pos)\<rparr>
                 else p);
           q = (if count < iov_len q0 then q0\<lparr>iov_len := count\<rparr> else q0);
           out' = out\<lparr>vw_arr := (vw_arr out)[vw_iov out + cnt := q]\<rparr>
       in if cnt + 1 = vw_iovcnt out then (ret + int (iov_len q), out'\<lparr>vw_iovcnt := cnt + 1\<rparr>)
          else slice_loop ps (count - iov_len q) offset (pos + int (iov_len p)) (cnt + 1)
                 (ret + int (iov_len q)) out'
     else slice_loop ps count offset pos cnt ret out)"

definition slice :: "nat \<Rightarrow> int \<Rightarrow> iovector_view \<Rightarrow> iovector_view option \<Rightarrow> int \<times> iovector_view option"
where
  "slice count offset v out =
    (case out of
       None \<Rightarrow> (- 1, None)
     | Some o' \<Rightarrow>
        if vw_iovcnt o' = 0 then (- 1, Some o')
        else let (r, o'') = slice_loop (vw_list v) count offset 0 0 0 o' in (r, Some o''))"

subsection \<open>Extraction\<close>

text \<open>The two extraction loops of \<^verbatim>\<open>struct ioview\<close> take a callback, which receives the base and
  the length of each piece and threads a state \<open>'s\<close>. A callback that returns a negative
  number is \<open>None\<close>, and makes the extraction return \<open>-1\<close> (first component \<open>None\<close> of
  the loop).\<close>

type_synonym 's extract_cb = "'s \<Rightarrow> nat \<Rightarrow> nat \<Rightarrow> 's option"

function extract_front_loop ::
  "'s extract_cb \<Rightarrow> nat \<Rightarrow> iovector_view \<Rightarrow> 's \<Rightarrow> nat option \<times> iovector_view \<times> 's" where
  "extract_front_loop cb bytes v s =
    (if vw_empty v then (Some bytes, v, s)
     else let e = vw_front v in
       if bytes \<le> iov_len e then
         (case cb s (iov_base e) bytes of
            None \<Rightarrow> (None, v, s)
          | Some s' \<Rightarrow>
             if iov_len e - bytes = 0
             then (Some 0, pop_front (set_front (e\<lparr>iov_len := 0\<rparr>) v), s')
             else (Some 0, set_front (e\<lparr>iov_base := iov_base e + bytes,
                                        iov_len := iov_len e - bytes\<rparr>) v, s'))
       else
         (case cb s (iov_base e) (iov_len e) of
            None \<Rightarrow> (None, v, s)
          | Some s' \<Rightarrow> extract_front_loop cb (bytes - iov_len e) (pop_front v) s'))"
  by pat_completeness auto
termination
  by (relation "measure (\<lambda>(_, _, v, _). vw_iovcnt v)") (auto simp: pop_front_def vw_empty_def)

function extract_back_loop ::
  "'s extract_cb \<Rightarrow> nat \<Rightarrow> iovector_view \<Rightarrow> 's \<Rightarrow> nat option \<times> iovector_view \<times> 's" where
  "extract_back_loop cb bytes v s =
    (if vw_empty v then (Some bytes, v, s)
     else let e = vw_back v in
       if bytes \<le> iov_len e then
         (case cb s (iov_base e + iov_len e - bytes) bytes of
            None \<Rightarrow> (None, v, s)
          | Some s' \<Rightarrow>
             let v' = set_back (e\<lparr>iov_len := iov_len e - bytes\<rparr>) v in
             if iov_len e - bytes = 0 then (Some 0, pop_back v', s') else (Some 0, v', s'))
       else
         (case cb s (iov_base e) (iov_len e) of
            None \<Rightarrow> (None, v, s)
          | Some s' \<Rightarrow> extract_back_loop cb (bytes - iov_len e) (pop_back v) s'))"
  by pat_completeness auto
termination
  by (relation "measure (\<lambda>(_, _, v, _). vw_iovcnt v)") (auto simp: pop_back_def vw_empty_def)

declare extract_front_loop.simps [simp del] extract_back_loop.simps [simp del]

definition do_extract_front ::
  "nat \<Rightarrow> 's extract_cb \<Rightarrow> iovector_view \<Rightarrow> 's \<Rightarrow> int \<times> iovector_view \<times> 's" where
  "do_extract_front bytes cb v s =
    (if bytes = 0 then (0, v, s)
     else case extract_front_loop cb bytes v s of
        (None, v', s') \<Rightarrow> (- 1, v', s')
      | (Some rest, v', s') \<Rightarrow> (int (bytes - rest), v', s'))"

definition do_extract_back ::
  "nat \<Rightarrow> 's extract_cb \<Rightarrow> iovector_view \<Rightarrow> 's \<Rightarrow> int \<times> iovector_view \<times> 's" where
  "do_extract_back bytes cb v s =
    (if bytes = 0 then (0, v, s)
     else case extract_back_loop cb bytes v s of
        (None, v', s') \<Rightarrow> (- 1, v', s')
      | (Some rest, v', s') \<Rightarrow> (int (bytes - rest), v', s'))"

definition extract_front :: "nat \<Rightarrow> iovector_view \<Rightarrow> int \<times> iovector_view" where
  "extract_front bytes v =
    (let (r, v', _) = do_extract_front bytes (\<lambda>s _ _. Some s) v () in (r, v'))"

definition extract_front_buf ::
  "nat \<Rightarrow> nat \<Rightarrow> iovector_view \<Rightarrow> mem \<Rightarrow> int \<times> iovector_view \<times> mem" where
  "extract_front_buf bytes buf v m =
    (let (r, v', m', _) =
       do_extract_front bytes (\<lambda>(m, b) ptr sz. Some (memcpy m b ptr sz, b + sz)) v (m, buf)
     in (r, v', m'))"

definition extract_front_view ::
  "nat \<Rightarrow> iovector_view \<Rightarrow> iovector_view \<Rightarrow> int \<times> iovector_view \<times> iovector_view" where
  "extract_front_view bytes out v =
    (let n = vw_iovcnt out in
     do_extract_front bytes
       (\<lambda>w ptr sz. if vw_iovcnt w = n then None
          else Some (w\<lparr>vw_arr := (vw_arr w)[vw_iov w + vw_iovcnt w := \<lparr>iov_base = ptr, iov_len = sz\<rparr>],
                       vw_iovcnt := vw_iovcnt w + 1\<rparr>))
       v (out\<lparr>vw_iovcnt := 0\<rparr>))"

definition extract_back :: "nat \<Rightarrow> iovector_view \<Rightarrow> int \<times> iovector_view" where
  "extract_back bytes v =
    (let (r, v', _) = do_extract_back bytes (\<lambda>s _ _. Some s) v () in (r, v'))"

definition extract_back_buf ::
  "nat \<Rightarrow> nat \<Rightarrow> iovector_view \<Rightarrow> mem \<Rightarrow> int \<times> iovector_view \<times> mem" where
  "extract_back_buf bytes buf v m =
    (let (r, v', m', _) =
       do_extract_back bytes (\<lambda>(m, b) ptr sz. Some (memcpy m (b - sz) ptr sz, b - sz)) v
         (m, buf + bytes)
     in (r, v', m'))"

text \<open>\<open>begin\<close> of the source is the index at which the output view starts in the end.\<close>

definition extract_back_view ::
  "nat \<Rightarrow> iovector_view \<Rightarrow> iovector_view \<Rightarrow> int \<times> iovector_view \<times> iovector_view" where
  "extract_back_view bytes out v =
    (let n = vw_iovcnt out;
         (r, v', arr, b) =
           do_extract_back bytes
             (\<lambda>(arr, b) ptr sz. if b = vw_iov out then None
                else Some (arr[b - 1 := \<lparr>iov_base = ptr, iov_len = sz\<rparr>], b - 1))
             v (vw_arr out, vw_iov out + n)
     in (r, v', \<lparr>vw_arr = arr, vw_iov = b, vw_iovcnt = vw_iov out + n - b\<rparr>))"

text \<open>The \<^verbatim>\<open>_continuous\<close> variants take the bytes from one element, and leave an element of
  length zero in place. A null pointer is \<open>None\<close>.\<close>

definition vw_extract_front_continuous :: "nat \<Rightarrow> iovector_view \<Rightarrow> nat option \<times> iovector_view" where
  "vw_extract_front_continuous bytes v =
    (if vw_empty v \<or> iov_len (vw_front v) < bytes then (None, v)
     else let f = vw_front v in
       (Some (iov_base f),
        set_front (f\<lparr>iov_base := iov_base f + bytes, iov_len := iov_len f - bytes\<rparr>) v))"

definition vw_extract_back_continuous :: "nat \<Rightarrow> iovector_view \<Rightarrow> nat option \<times> iovector_view" where
  "vw_extract_back_continuous bytes v =
    (if vw_empty v \<or> iov_len (vw_back v) < bytes then (None, v)
     else let b = vw_back v in
       (Some (iov_base b + (iov_len b - bytes)), set_back (b\<lparr>iov_len := iov_len b - bytes\<rparr>) v))"

subsection \<open>Copies\<close>

fun memcpy_to_loop :: "iovec list \<Rightarrow> nat \<Rightarrow> nat \<Rightarrow> mem \<Rightarrow> nat \<times> mem" where
  "memcpy_to_loop [] buf sz m = (buf, m)"
| "memcpy_to_loop (x # xs) buf sz m =
    (let len = (if iov_len x > sz then sz else iov_len x);
         m' = memcpy m buf (iov_base x) len
     in if sz - len = 0 then (buf + len, m')
        else memcpy_to_loop xs (buf + len) (sz - len) m')"

definition vw_memcpy_to :: "iovector_view \<Rightarrow> nat \<Rightarrow> nat \<Rightarrow> mem \<Rightarrow> nat \<times> mem" where
  "vw_memcpy_to v buf sz m =
    (let (b, m') = memcpy_to_loop (vw_list v) buf sz m in (b - buf, m'))"

fun memcpy_from_loop :: "iovec list \<Rightarrow> nat \<Rightarrow> nat \<Rightarrow> mem \<Rightarrow> nat \<times> mem" where
  "memcpy_from_loop [] buf sz m = (buf, m)"
| "memcpy_from_loop (x # xs) buf sz m =
    (let len = (if iov_len x > sz then sz else iov_len x);
         m' = memcpy m (iov_base x) buf len
     in if sz - len = 0 then (buf + len, m')
        else memcpy_from_loop xs (buf + len) (sz - len) m')"

definition vw_memcpy_from :: "iovector_view \<Rightarrow> nat \<Rightarrow> nat \<Rightarrow> mem \<Rightarrow> nat \<times> mem" where
  "vw_memcpy_from v buf sz m =
    (let (b, m') = memcpy_from_loop (vw_list v) buf sz m in (b - buf, m'))"

text \<open>The loop of \<^verbatim>\<open>memcpy_iov\<close> makes no progress when a front element has length zero, so
  it is a partial function: \<open>None\<close> is the loop that does not return.\<close>

partial_function (option) memcpy_iov_loop ::
  "nat \<Rightarrow> nat \<Rightarrow> iovector_view \<Rightarrow> iovector_view \<Rightarrow> mem
    \<Rightarrow> (nat \<times> iovector_view \<times> iovector_view \<times> mem) option" where
  "memcpy_iov_loop sz actual dest src m =
    (if sz \<noteq> 0 \<and> \<not> vw_empty dest \<and> \<not> vw_empty src then
       let step = min (iov_len (vw_front src)) (min (iov_len (vw_front dest)) sz)
       in memcpy_iov_loop (sz - step) (actual + step)
            (snd (extract_front step dest)) (snd (extract_front step src))
            (memcpy m (iov_base (vw_front dest)) (iov_base (vw_front src)) step)
     else Some (actual, dest, src, m))"

definition memcpy_iov ::
  "iovector_view \<Rightarrow> iovector_view \<Rightarrow> nat \<Rightarrow> mem
    \<Rightarrow> (nat \<times> iovector_view \<times> iovector_view \<times> mem) option" where
  "memcpy_iov dest src sz m = memcpy_iov_loop sz 0 dest src m"

section \<open>Reduction to lists and byte strings\<close>

subsection \<open>The list functions behind the loops\<close>

text \<open>\<open>take_bytes n es\<close> are the pieces that cover the first \<open>n\<close> bytes of \<open>es\<close>, and
  \<open>drop_bytes n es\<close> is what remains. \<open>take_back\<close> and \<open>drop_back\<close> are the same from the back;
  they work on the reversed list.\<close>

fun take_bytes :: "nat \<Rightarrow> iovec list \<Rightarrow> iovec list" where
  "take_bytes n [] = []"
| "take_bytes n (e # es) =
    (if n \<le> iov_len e then [e\<lparr>iov_len := n\<rparr>] else e # take_bytes (n - iov_len e) es)"

fun drop_bytes :: "nat \<Rightarrow> iovec list \<Rightarrow> iovec list" where
  "drop_bytes n [] = []"
| "drop_bytes n (e # es) =
    (if n \<le> iov_len e then
       (if iov_len e - n = 0 then es
        else e\<lparr>iov_base := iov_base e + n, iov_len := iov_len e - n\<rparr> # es)
     else drop_bytes (n - iov_len e) es)"

fun take_back :: "nat \<Rightarrow> iovec list \<Rightarrow> iovec list" where
  "take_back n [] = []"
| "take_back n (e # es) =
    (if n \<le> iov_len e then [\<lparr>iov_base = iov_base e + iov_len e - n, iov_len = n\<rparr>]
     else e # take_back (n - iov_len e) es)"

fun drop_back :: "nat \<Rightarrow> iovec list \<Rightarrow> iovec list" where
  "drop_back n [] = []"
| "drop_back n (e # es) =
    (if n \<le> iov_len e then
       (if iov_len e - n = 0 then es else e\<lparr>iov_len := iov_len e - n\<rparr> # es)
     else drop_back (n - iov_len e) es)"

definition iov_sum :: "iovec list \<Rightarrow> nat" where
  "iov_sum es = sum_list (map iov_len es)"

definition iov_bytes :: "mem \<Rightarrow> iovec list \<Rightarrow> u8 list" where
  "iov_bytes m es = concat (map (\<lambda>e. bytes_at m (iov_base e) (iov_len e)) es)"

lemma iovec_eta [simp]: "\<lparr>iov_base = iov_base e, iov_len = iov_len e\<rparr> = e"
  by simp

lemma iov_sum_simps [simp]:
  "iov_sum [] = 0" "iov_sum (e # es) = iov_len e + iov_sum es"
  "iov_sum (es @ fs) = iov_sum es + iov_sum fs" "iov_sum (rev es) = iov_sum es"
  by (simp_all add: iov_sum_def rev_map [symmetric])

lemma iov_bytes_simps [simp]:
  "iov_bytes m [] = []"
  "iov_bytes m (e # es) = bytes_at m (iov_base e) (iov_len e) @ iov_bytes m es"
  "iov_bytes m (es @ fs) = iov_bytes m es @ iov_bytes m fs"
  by (simp_all add: iov_bytes_def)

lemma length_iov_bytes [simp]: "length (iov_bytes m es) = iov_sum es"
  by (induction es) simp_all

lemma sum_loop_eq: "sum_loop es s = s + iov_sum es"
  by (induction es s rule: sum_loop.induct) simp_all

lemma vw_sum_eq [view_simps]: "vw_sum v = iov_sum (vw_list v)"
  by (simp add: vw_sum_def sum_loop_eq)

lemma iov_bytes_take_bytes [simp]: "iov_bytes m (take_bytes n es) = take n (iov_bytes m es)"
  by (induction n es rule: take_bytes.induct) (auto simp: take_bytes_at)

lemma iov_bytes_drop_bytes [simp]: "iov_bytes m (drop_bytes n es) = drop n (iov_bytes m es)"
  by (induction n es rule: drop_bytes.induct) (auto simp: drop_bytes_at)

lemma iov_sum_take_bytes [simp]: "iov_sum (take_bytes n es) = min n (iov_sum es)"
  by (induction n es rule: take_bytes.induct) auto

lemma iov_sum_drop_bytes [simp]: "iov_sum (drop_bytes n es) = iov_sum es - n"
  by (induction n es rule: drop_bytes.induct) auto

lemma iov_sum_take_back [simp]: "iov_sum (take_back n es) = min n (iov_sum es)"
  by (induction n es rule: take_back.induct) auto

lemma iov_sum_drop_back [simp]: "iov_sum (drop_back n es) = iov_sum es - n"
  by (induction n es rule: drop_back.induct) auto

lemma iov_bytes_drop_back:
  "iov_bytes m (rev (drop_back n es)) = take (iov_sum es - n) (iov_bytes m (rev es))"
  by (induction n es rule: drop_back.induct) (auto simp: take_bytes_at add.commute)

lemma iov_bytes_take_back:
  "iov_bytes m (rev (take_back n es)) = drop (iov_sum es - n) (iov_bytes m (rev es))"
  by (induction n es rule: take_back.induct) (auto simp: drop_bytes_at add.commute)

lemma length_take_bytes: "length (take_bytes n es) \<le> length es"
  by (induction n es rule: take_bytes.induct) auto

lemma length_take_back: "length (take_back n es) \<le> length es"
  by (induction n es rule: take_back.induct) auto

lemma take_bytes_nonzero:
  "\<forall>e \<in> set es. 0 < iov_len e \<Longrightarrow> 0 < n \<Longrightarrow> \<forall>e \<in> set (take_bytes n es). 0 < iov_len e"
  by (induction n es rule: take_bytes.induct) auto

lemma drop_bytes_nonzero:
  "\<forall>e \<in> set es. 0 < iov_len e \<Longrightarrow> \<forall>e \<in> set (drop_bytes n es). 0 < iov_len e"
  by (induction n es rule: drop_bytes.induct) auto

subsection \<open>The list a view shows\<close>

lemma length_vw_list [simp]: "vw_wf v \<Longrightarrow> length (vw_list v) = vw_iovcnt v"
  by (simp add: vw_list_def vw_wf_def)

lemma vw_list_empty: "vw_empty v \<Longrightarrow> vw_list v = []"
  by (simp add: vw_list_def vw_empty_def)

lemma vw_list_front:
  "vw_wf v \<Longrightarrow> \<not> vw_empty v \<Longrightarrow> vw_list v = vw_front v # vw_list (pop_front v)"
  by (simp add: vw_wf_def vw_empty_def vw_list_def vw_front_def pop_front_def take_drop_Cons)

lemma vw_list_back:
  "vw_wf v \<Longrightarrow> \<not> vw_empty v \<Longrightarrow> vw_list v = vw_list (pop_back v) @ [vw_back v]"
  by (cases "vw_iovcnt v")
     (simp_all add: vw_wf_def vw_empty_def vw_list_def vw_back_def pop_back_def take_Suc_conv_app_nth)

text \<open>\<open>vw_frame v v'\<close>: the view \<open>v'\<close> lies inside the window of \<open>v\<close>, over an array that differs
  from that of \<open>v\<close> only inside this window.\<close>

definition vw_frame :: "iovector_view \<Rightarrow> iovector_view \<Rightarrow> bool" where
  "vw_frame v v' \<longleftrightarrow>
     length (vw_arr v') = length (vw_arr v) \<and> vw_iov v \<le> vw_iov v' \<and>
     vw_iov v' + vw_iovcnt v' \<le> vw_iov v + vw_iovcnt v \<and>
     take (vw_iov v) (vw_arr v') = take (vw_iov v) (vw_arr v) \<and>
     drop (vw_iov v + vw_iovcnt v) (vw_arr v') = drop (vw_iov v + vw_iovcnt v) (vw_arr v)"

lemma vw_frame_refl [simp]: "vw_frame v v"
  by (simp add: vw_frame_def)

lemma vw_frame_wf: "vw_wf v \<Longrightarrow> vw_frame v v' \<Longrightarrow> vw_wf v'"
  by (auto simp: vw_frame_def vw_wf_def)

lemma vw_frame_trans: "vw_frame v v' \<Longrightarrow> vw_frame v' v'' \<Longrightarrow> vw_frame v v''"
  by (auto simp: vw_frame_def dest: take_eq_mono drop_eq_mono)

lemma vw_frame_ops:
  assumes "vw_wf v" "\<not> vw_empty v"
  shows "vw_frame v (pop_front v)" "vw_frame v (pop_back v)"
    "vw_frame v (set_front e v)" "vw_frame v (set_back e v)"
  using assms by (auto simp: vw_frame_def vw_wf_def vw_empty_def pop_front_def pop_back_def
      set_front_def set_back_def)

lemma vw_set_simps [simp]:
  "vw_empty (set_front e v) = vw_empty v" "vw_empty (set_back e v) = vw_empty v"
  "vw_wf (set_front e v) = vw_wf v" "vw_wf (set_back e v) = vw_wf v"
  "vw_iovcnt (set_front e v) = vw_iovcnt v" "vw_iovcnt (set_back e v) = vw_iovcnt v"
  "vw_iov (set_front e v) = vw_iov v" "vw_iov (set_back e v) = vw_iov v"
  by (auto simp: vw_empty_def vw_wf_def set_front_def set_back_def)

lemma vw_list_set_front [view_simps]:
  "vw_wf v \<Longrightarrow> \<not> vw_empty v \<Longrightarrow> vw_list (set_front e v) = e # vw_list (pop_front v)"
  by (simp add: vw_list_def set_front_def pop_front_def vw_wf_def vw_empty_def take_drop_update_hd)

lemma vw_list_set_back [view_simps]:
  assumes "vw_wf v" "\<not> vw_empty v"
  shows "vw_list (set_back e v) = vw_list (pop_back v) @ [e]"
proof -
  have "vw_back (set_back e v) = e"
    using assms by (simp add: vw_back_def set_back_def vw_wf_def vw_empty_def)
  moreover have "vw_list (pop_back (set_back e v)) = vw_list (pop_back v)"
    using assms by (simp add: vw_list_def pop_back_def set_back_def drop_update_swap)
  ultimately show ?thesis
    using vw_list_back [of "set_back e v"] assms by simp
qed

lemma vw_list_pop_front_set [view_simps]: "vw_list (pop_front (set_front e v)) = vw_list (pop_front v)"
  by (simp add: vw_list_def pop_front_def set_front_def)

lemma vw_list_pop_back_set [view_simps]:
  "\<not> vw_empty v \<Longrightarrow> vw_list (pop_back (set_back e v)) = vw_list (pop_back v)"
  by (simp add: vw_list_def pop_back_def set_back_def drop_update_swap)

subsection \<open>The extraction loops are folds over the pieces\<close>

fun cb_fold :: "'s extract_cb \<Rightarrow> iovec list \<Rightarrow> 's \<Rightarrow> 's option" where
  "cb_fold cb [] s = Some s"
| "cb_fold cb (e # es) s = cb s (iov_base e) (iov_len e) \<bind> cb_fold cb es"

lemma extract_front_loop_Some:
  assumes "vw_wf v" "cb_fold cb (take_bytes n (vw_list v)) s = Some s'"
  shows "\<exists>v'. extract_front_loop cb n v s = (Some (n - iov_sum (vw_list v)), v', s') \<and>
           vw_list v' = drop_bytes n (vw_list v) \<and> vw_frame v v' \<and>
           vw_iov v' + vw_iovcnt v' = vw_iov v + vw_iovcnt v"
  using assms
proof (induction cb n v s rule: extract_front_loop.induct)
  case (1 cb n v s)
  show ?case
  proof (cases "vw_empty v")
    case True
    with 1 show ?thesis
      by (simp add: extract_front_loop.simps vw_list_empty)
  next
    case False
    note list = vw_list_front [OF 1(2) False]
    have fin: "vw_iov (pop_front w) + vw_iovcnt (pop_front w) = vw_iov w + vw_iovcnt w"
      if "\<not> vw_empty w" for w
      using that by (simp add: pop_front_def vw_empty_def)
    have wf: "vw_wf (pop_front v)"
      using 1(2) False vw_frame_wf vw_frame_ops(1) by blast
    show ?thesis
    proof (cases "n \<le> iov_len (vw_front v)")
      case True
      then have "cb s (iov_base (vw_front v)) n = Some s'"
        using 1(3) list by (auto simp: bind_eq_Some_conv)
      then show ?thesis
        using True False list 1(2) fin [of "set_front _ v"]
          vw_frame_trans [OF vw_frame_ops(3) vw_frame_ops(1)]
        by (auto simp: extract_front_loop.simps [of cb n v s] view_simps vw_frame_ops Let_def)
    next
      case False
      then obtain s1 where s1: "cb s (iov_base (vw_front v)) (iov_len (vw_front v)) = Some s1"
        and rest: "cb_fold cb (take_bytes (n - iov_len (vw_front v)) (vw_list (pop_front v))) s1 = Some s'"
        using 1(3) list by (auto simp: bind_eq_Some_conv)
      from 1(1) [OF \<open>\<not> vw_empty v\<close> refl False s1 wf rest] obtain v' where
        "extract_front_loop cb (n - iov_len (vw_front v)) (pop_front v) s1 =
           (Some (n - iov_len (vw_front v) - iov_sum (vw_list (pop_front v))), v', s')"
        "vw_list v' = drop_bytes (n - iov_len (vw_front v)) (vw_list (pop_front v))"
        "vw_frame (pop_front v) v'"
        "vw_iov v' + vw_iovcnt v' = vw_iov (pop_front v) + vw_iovcnt (pop_front v)"
        by blast
      then show ?thesis
        using False \<open>\<not> vw_empty v\<close> s1 list 1(2) fin [of v] vw_frame_trans [OF vw_frame_ops(1)]
        by (auto simp: extract_front_loop.simps [of cb n v s])
    qed
  qed
qed

lemma extract_front_loop_None:
  assumes "vw_wf v" "cb_fold cb (take_bytes n (vw_list v)) s = None"
  shows "fst (extract_front_loop cb n v s) = None"
  using assms
proof (induction cb n v s rule: extract_front_loop.induct)
  case (1 cb n v s)
  then have ne: "\<not> vw_empty v"
    by (auto simp: vw_list_empty)
  moreover have "vw_wf (pop_front v)"
    using 1(2) ne vw_frame_wf vw_frame_ops(1) by blast
  ultimately show ?case
    using 1 vw_list_front [OF 1(2) ne]
    by (auto simp: extract_front_loop.simps [of cb n v s] Let_def bind_eq_None_conv split: option.splits if_splits)
qed

lemma extract_back_loop_Some:
  assumes "vw_wf v" "cb_fold cb (take_back n (rev (vw_list v))) s = Some s'"
  shows "\<exists>v'. extract_back_loop cb n v s = (Some (n - iov_sum (vw_list v)), v', s') \<and>
           vw_list v' = rev (drop_back n (rev (vw_list v))) \<and> vw_frame v v' \<and> vw_iov v' = vw_iov v"
  using assms
proof (induction cb n v s rule: extract_back_loop.induct)
  case (1 cb n v s)
  show ?case
  proof (cases "vw_empty v")
    case True
    with 1 show ?thesis
      by (simp add: extract_back_loop.simps vw_list_empty)
  next
    case False
    note list = vw_list_back [OF 1(2) False]
    have start: "vw_iov (pop_back w) = vw_iov w" for w
      by (simp add: pop_back_def)
    have wf: "vw_wf (pop_back v)"
      using 1(2) False vw_frame_wf vw_frame_ops(2) by blast
    show ?thesis
    proof (cases "n \<le> iov_len (vw_back v)")
      case True
      then have "cb s (iov_base (vw_back v) + iov_len (vw_back v) - n) n = Some s'"
        using 1(3) list by (auto simp: bind_eq_Some_conv)
      then show ?thesis
        using True False list 1(2) vw_frame_trans [OF vw_frame_ops(4) vw_frame_ops(2)]
        by (auto simp: extract_back_loop.simps [of cb n v s] view_simps vw_frame_ops start Let_def)
    next
      case False
      then obtain s1 where s1: "cb s (iov_base (vw_back v)) (iov_len (vw_back v)) = Some s1"
        and rest: "cb_fold cb (take_back (n - iov_len (vw_back v)) (rev (vw_list (pop_back v)))) s1 = Some s'"
        using 1(3) list by (auto simp: bind_eq_Some_conv)
      from 1(1) [OF \<open>\<not> vw_empty v\<close> refl False s1 wf rest] obtain v' where
        "extract_back_loop cb (n - iov_len (vw_back v)) (pop_back v) s1 =
           (Some (n - iov_len (vw_back v) - iov_sum (vw_list (pop_back v))), v', s')"
        "vw_list v' = rev (drop_back (n - iov_len (vw_back v)) (rev (vw_list (pop_back v))))"
        "vw_frame (pop_back v) v'" "vw_iov v' = vw_iov v"
        using start by auto
      then show ?thesis
        using False \<open>\<not> vw_empty v\<close> s1 list 1(2) vw_frame_trans [OF vw_frame_ops(2)]
        by (auto simp: extract_back_loop.simps [of cb n v s] add.commute)
    qed
  qed
qed

lemma cb_fold_total [simp]: "cb_fold (\<lambda>s _ _. Some s) es s = Some s"
  by (induction es) simp_all

subsection \<open>Copies of pieces\<close>

text \<open>\<open>iov_disj es b n\<close>: the buffers of \<open>es\<close> do not meet the range of \<open>n\<close> bytes at \<open>b\<close>.\<close>

definition iov_disj :: "iovec list \<Rightarrow> nat \<Rightarrow> nat \<Rightarrow> bool" where
  "iov_disj es b n \<longleftrightarrow> (\<forall>e \<in> set es. iov_base e + iov_len e \<le> b \<or> b + n \<le> iov_base e)"

lemma iov_disj_simps [simp]:
  "iov_disj [] b n"
  "iov_disj (e # es) b n \<longleftrightarrow> (iov_base e + iov_len e \<le> b \<or> b + n \<le> iov_base e) \<and> iov_disj es b n"
  "iov_disj (es @ fs) b n \<longleftrightarrow> iov_disj es b n \<and> iov_disj fs b n"
  "iov_disj (rev es) b n \<longleftrightarrow> iov_disj es b n"
  by (auto simp: iov_disj_def)

lemma iov_disj_take_bytes: "iov_disj es b n \<Longrightarrow> iov_disj (take_bytes k es) b n"
  by (induction k es rule: take_bytes.induct) auto

lemma iov_disj_drop_bytes: "iov_disj es b n \<Longrightarrow> iov_disj (drop_bytes k es) b n"
  by (induction k es rule: drop_bytes.induct) auto

lemma iov_disj_take_back: "iov_disj es b n \<Longrightarrow> iov_disj (take_back k es) b n"
  by (induction k es rule: take_back.induct) auto

lemma iov_disj_drop_back: "iov_disj es b n \<Longrightarrow> iov_disj (drop_back k es) b n"
  by (induction k es rule: drop_back.induct) auto

lemma iov_disj_sub: "iov_disj es b n \<Longrightarrow> b \<le> c \<Longrightarrow> c + k \<le> b + n \<Longrightarrow> iov_disj es c k"
  by (fastforce simp: iov_disj_def)

lemma iov_bytes_frame:
  assumes "iov_disj es b n" "\<And>a. a < b \<or> b + n \<le> a \<Longrightarrow> m' a = m a"
  shows "iov_bytes m' es = iov_bytes m es"
  using assms by (induction es) (auto intro!: bytes_at_cong)

abbreviation copy_cb :: "(mem \<times> nat) extract_cb" where
  "copy_cb \<equiv> \<lambda>(m, b) ptr sz. Some (memcpy m b ptr sz, b + sz)"

abbreviation copy_back_cb :: "(mem \<times> nat) extract_cb" where
  "copy_back_cb \<equiv> \<lambda>(m, b) ptr sz. Some (memcpy m (b - sz) ptr sz, b - sz)"

lemma cb_fold_copy:
  assumes "iov_disj es b (iov_sum es)"
  shows "\<exists>m'. cb_fold copy_cb es (m, b) = Some (m', b + iov_sum es) \<and>
           (\<forall>a. a < b \<or> b + iov_sum es \<le> a \<longrightarrow> m' a = m a) \<and>
           bytes_at m' b (iov_sum es) = iov_bytes m es"
  using assms
proof (induction es arbitrary: m b)
  case Nil
  then show ?case by simp
next
  case (Cons e es)
  let ?m = "memcpy m b (iov_base e) (iov_len e)"
  have disj: "iov_disj es (b + iov_len e) (iov_sum es)" "iov_disj es b (iov_len e)"
    using Cons.prems by (auto elim!: iov_disj_sub)
  from Cons.IH [OF disj(1), of ?m] obtain m' where m':
    "cb_fold copy_cb es (?m, b + iov_len e) = Some (m', b + iov_len e + iov_sum es)"
    "\<forall>a. a < b + iov_len e \<or> b + iov_len e + iov_sum es \<le> a \<longrightarrow> m' a = ?m a"
    "bytes_at m' (b + iov_len e) (iov_sum es) = iov_bytes ?m es"
    by blast
  have "bytes_at m' b (iov_len e) = bytes_at ?m b (iov_len e)"
    using m'(2) by (intro bytes_at_cong) simp
  moreover have "iov_bytes ?m es = iov_bytes m es"
    using disj(2) by (rule iov_bytes_frame) (auto simp: memcpy_def)
  moreover have "m' a = m a" if "a < b \<or> b + iov_sum (e # es) \<le> a" for a
    using that m'(2) by (auto simp: memcpy_def add.assoc)
  ultimately show ?case
    using m'(1,3) by (auto simp: bytes_at_add add.assoc)
qed

lemma cb_fold_copy_back:
  assumes "iov_disj es (b - iov_sum es) (iov_sum es)" "iov_sum es \<le> b"
  shows "\<exists>m'. cb_fold copy_back_cb es (m, b) = Some (m', b - iov_sum es) \<and>
           (\<forall>a. a < b - iov_sum es \<or> b \<le> a \<longrightarrow> m' a = m a) \<and>
           bytes_at m' (b - iov_sum es) (iov_sum es) = iov_bytes m (rev es)"
  using assms
proof (induction es arbitrary: m b)
  case Nil
  then show ?case by simp
next
  case (Cons e es)
  let ?b = "b - iov_len e"
  let ?m = "memcpy m ?b (iov_base e) (iov_len e)"
  have b: "?b + iov_len e = b" "?b - iov_sum es + iov_sum es = ?b"
    using Cons.prems(2) by simp_all
  have disj: "iov_disj es (?b - iov_sum es) (iov_sum es)" "iov_disj es ?b (iov_len e)"
    using Cons.prems by (auto elim!: iov_disj_sub)
  have "iov_sum es \<le> ?b"
    using Cons.prems(2) by simp
  from Cons.IH [OF disj(1) this, of ?m] obtain m' where m':
    "cb_fold copy_back_cb es (?m, ?b) = Some (m', ?b - iov_sum es)"
    "\<forall>a. a < ?b - iov_sum es \<or> ?b \<le> a \<longrightarrow> m' a = ?m a"
    "bytes_at m' (?b - iov_sum es) (iov_sum es) = iov_bytes ?m (rev es)"
    by blast
  have "bytes_at m' ?b (iov_len e) = bytes_at ?m ?b (iov_len e)"
    using m'(2) by (intro bytes_at_cong) simp
  moreover have "iov_bytes ?m (rev es) = iov_bytes m (rev es)"
    using disj(2) by (intro iov_bytes_frame [of _ ?b "iov_len e"]) (auto simp: memcpy_def)
  moreover have "m' a = m a" if "a < b - iov_sum (e # es) \<or> b \<le> a" for a
    using that m'(2) Cons.prems(2) by (auto simp: memcpy_def)
  moreover have "bytes_at m' (?b - iov_sum es) (iov_sum es + iov_len e) =
      bytes_at m' (?b - iov_sum es) (iov_sum es) @ bytes_at m' ?b (iov_len e)"
    using b by (simp add: bytes_at_add)
  ultimately show ?case
    using m'(1,3) by (auto simp: add.commute)
qed

end
