(* ===== verification/Iovec_Contracts.thy ===== *)
theory Iovec_Contracts
  imports Iovec
begin

section \<open>Contracts of the view operations\<close>

text \<open>
  What every operation of \<^verbatim>\<open>iovector_view\<close> does, in terms of the list of iovecs the view shows
  and of the byte string they denote: the extractions are \<open>take\<close> and \<open>drop\<close> on that string,
  from either end, with and without a copy; \<^verbatim>\<open>shrink_to\<close> is \<open>take\<close>; the copies move a prefix.
  Two operations fall short of their comments, and the theorems delimit them: \<^verbatim>\<open>slice\<close> is
  right for an offset inside the first element only, and \<^verbatim>\<open>memcpy_iov\<close> returns only when no
  element has length zero.
\<close>

subsection \<open>Extraction\<close>

definition drop_front_spec :: "nat \<Rightarrow> iovec list \<Rightarrow> iovec list" where
  "drop_front_spec n es = (if n = 0 then es else drop_bytes n es)"

definition drop_back_spec :: "nat \<Rightarrow> iovec list \<Rightarrow> iovec list" where
  "drop_back_spec n es = (if n = 0 then es else rev (drop_back n (rev es)))"

lemma iov_bytes_drop_front_spec [simp]: "iov_bytes m (drop_front_spec n es) = drop n (iov_bytes m es)"
  by (simp add: drop_front_spec_def)

lemma iov_bytes_drop_back_spec [simp]:
  "iov_bytes m (drop_back_spec n es) = take (iov_sum es - n) (iov_bytes m es)"
  by (simp add: drop_back_spec_def iov_bytes_drop_back)

lemma iov_disj_drop_front_spec: "iov_disj es b n \<Longrightarrow> iov_disj (drop_front_spec k es) b n"
  by (simp add: drop_front_spec_def iov_disj_drop_bytes)

lemma iov_disj_drop_back_spec: "iov_disj es b n \<Longrightarrow> iov_disj (drop_back_spec k es) b n"
  by (simp add: drop_back_spec_def iov_disj_drop_back)

lemma do_extract_front_Some:
  assumes "vw_wf v" "0 < n" "cb_fold cb (take_bytes n (vw_list v)) s = Some s'"
  obtains v' where "do_extract_front n cb v s = (int (min n (iov_sum (vw_list v))), v', s')"
    "vw_list v' = drop_front_spec n (vw_list v)" "vw_frame v v'"
    "vw_iov v' + vw_iovcnt v' = vw_iov v + vw_iovcnt v"
  using extract_front_loop_Some [OF assms(1,3)] assms(2)
  by (auto simp: do_extract_front_def drop_front_spec_def min_def)

lemma do_extract_back_Some:
  assumes "vw_wf v" "0 < n" "cb_fold cb (take_back n (rev (vw_list v))) s = Some s'"
  obtains v' where "do_extract_back n cb v s = (int (min n (iov_sum (vw_list v))), v', s')"
    "vw_list v' = drop_back_spec n (vw_list v)" "vw_frame v v'" "vw_iov v' = vw_iov v"
  using extract_back_loop_Some [OF assms(1,3)] assms(2)
  by (auto simp: do_extract_back_def drop_back_spec_def min_def)

lemma extract_front_spec:
  assumes "vw_wf v"
  obtains v' where "extract_front n v = (int (min n (iov_sum (vw_list v))), v')"
    "vw_list v' = drop_front_spec n (vw_list v)" "vw_frame v v'"
    "vw_iov v' + vw_iovcnt v' = vw_iov v + vw_iovcnt v"
proof (cases "n = 0")
  case True
  then show ?thesis
    using that [of v] by (simp add: extract_front_def do_extract_front_def drop_front_spec_def)
next
  case False
  then have "0 < n"
    by simp
  from do_extract_front_Some [OF assms this cb_fold_total [of _ "()"]] that show ?thesis
    unfolding extract_front_def by fastforce
qed

lemma extract_back_spec:
  assumes "vw_wf v"
  obtains v' where "extract_back n v = (int (min n (iov_sum (vw_list v))), v')"
    "vw_list v' = drop_back_spec n (vw_list v)" "vw_frame v v'" "vw_iov v' = vw_iov v"
proof (cases "n = 0")
  case True
  then show ?thesis
    using that [of v] by (simp add: extract_back_def do_extract_back_def drop_back_spec_def)
next
  case False
  then have "0 < n"
    by simp
  from do_extract_back_Some [OF assms this cb_fold_total [of _ "()"]] that show ?thesis
    unfolding extract_back_def by fastforce
qed

lemma extract_front_buf_spec:
  assumes "vw_wf v" "iov_disj (vw_list v) buf n"
  obtains v' m' where "extract_front_buf n buf v m = (int (min n (iov_sum (vw_list v))), v', m')"
    "vw_list v' = drop_front_spec n (vw_list v)" "vw_frame v v'"
    "vw_iov v' + vw_iovcnt v' = vw_iov v + vw_iovcnt v"
    "bytes_at m' buf (min n (iov_sum (vw_list v))) = take n (iov_bytes m (vw_list v))"
    "\<forall>a. a < buf \<or> buf + n \<le> a \<longrightarrow> m' a = m a"
proof (cases "n = 0")
  case True
  then show ?thesis
    using that [of v m] by (simp add: extract_front_buf_def do_extract_front_def drop_front_spec_def)
next
  case False
  let ?es = "take_bytes n (vw_list v)"
  have "iov_disj ?es buf (iov_sum ?es)"
    using assms(2) by (auto intro: iov_disj_take_bytes elim!: iov_disj_sub)
  from cb_fold_copy [OF this, of m] obtain m' where
    m': "cb_fold copy_cb ?es (m, buf) = Some (m', buf + iov_sum ?es)"
    "\<forall>a. a < buf \<or> buf + iov_sum ?es \<le> a \<longrightarrow> m' a = m a"
    "bytes_at m' buf (iov_sum ?es) = iov_bytes m ?es"
    by blast
  from do_extract_front_Some [OF assms(1) _ m'(1)] False obtain v' where
    "do_extract_front n copy_cb v (m, buf) =
       (int (min n (iov_sum (vw_list v))), v', m', buf + iov_sum ?es)"
    "vw_list v' = drop_front_spec n (vw_list v)" "vw_frame v v'"
    "vw_iov v' + vw_iovcnt v' = vw_iov v + vw_iovcnt v"
    by blast
  then show ?thesis
    using that [of v' m'] m'(2,3) by (simp add: extract_front_buf_def)
qed

lemma extract_back_buf_spec:
  assumes "vw_wf v" "iov_disj (vw_list v) buf n"
  obtains v' m' where "extract_back_buf n buf v m = (int (min n (iov_sum (vw_list v))), v', m')"
    "vw_list v' = drop_back_spec n (vw_list v)" "vw_frame v v'" "vw_iov v' = vw_iov v"
    "bytes_at m' (buf + n - min n (iov_sum (vw_list v))) (min n (iov_sum (vw_list v)))
       = drop (iov_sum (vw_list v) - n) (iov_bytes m (vw_list v))"
    "\<forall>a. a < buf \<or> buf + n \<le> a \<longrightarrow> m' a = m a"
proof (cases "n = 0")
  case True
  then show ?thesis
    using that [of v m] by (simp add: extract_back_buf_def do_extract_back_def drop_back_spec_def)
next
  case False
  let ?es = "take_back n (rev (vw_list v))"
  have "iov_disj ?es buf n"
    using assms(2) by (intro iov_disj_take_back) simp
  then have "iov_disj ?es (buf + n - iov_sum ?es) (iov_sum ?es)"
    by (auto elim!: iov_disj_sub)
  moreover have "iov_sum ?es \<le> buf + n"
    by simp
  ultimately obtain m' where
    m': "cb_fold copy_back_cb ?es (m, buf + n) = Some (m', buf + n - iov_sum ?es)"
    "\<forall>a. a < buf + n - iov_sum ?es \<or> buf + n \<le> a \<longrightarrow> m' a = m a"
    "bytes_at m' (buf + n - iov_sum ?es) (iov_sum ?es) = iov_bytes m (rev ?es)"
    using cb_fold_copy_back by blast
  from do_extract_back_Some [OF assms(1) _ m'(1)] False obtain v' where
    "do_extract_back n copy_back_cb v (m, buf + n) =
       (int (min n (iov_sum (vw_list v))), v', m', buf + n - iov_sum ?es)"
    "vw_list v' = drop_back_spec n (vw_list v)" "vw_frame v v'" "vw_iov v' = vw_iov v"
    by blast
  then show ?thesis
    using that [of v' m'] m'(2,3) by (simp add: extract_back_buf_def iov_bytes_take_back)
qed

lemma cb_fold_view:
  assumes "vw_iovcnt w \<le> n" "vw_iov w + n \<le> length (vw_arr w)"
  shows "case cb_fold (\<lambda>w ptr sz. if vw_iovcnt w = n then None
          else Some (w\<lparr>vw_arr := (vw_arr w)[vw_iov w + vw_iovcnt w := \<lparr>iov_base = ptr, iov_len = sz\<rparr>],
                       vw_iovcnt := vw_iovcnt w + 1\<rparr>)) es w of
        None \<Rightarrow> n < vw_iovcnt w + length es
      | Some w' \<Rightarrow> vw_iovcnt w + length es \<le> n \<and> vw_list w' = vw_list w @ es"
  using assms
proof (induction es arbitrary: w)
  case Nil
  then show ?case by simp
next
  case (Cons e es)
  show ?case
  proof (cases "vw_iovcnt w = n")
    case False
    let ?w = "w\<lparr>vw_arr := (vw_arr w)[vw_iov w + vw_iovcnt w := e], vw_iovcnt := vw_iovcnt w + 1\<rparr>"
    have "vw_list ?w = vw_list w @ [e]"
      using Cons.prems False
      by (simp add: vw_list_def take_Suc_conv_app_nth drop_update_swap)
    then show ?thesis
      using Cons.IH [of ?w] Cons.prems False by (simp split: option.splits)
  qed simp
qed

lemma extract_front_view_spec:
  assumes "vw_wf v" "vw_wf out" "0 < n"
    and "extract_front_view n out v = (r, v', out')"
  shows "if length (take_bytes n (vw_list v)) \<le> vw_iovcnt out
         then r = int (min n (iov_sum (vw_list v))) \<and> vw_list out' = take_bytes n (vw_list v) \<and>
              vw_list v' = drop_front_spec n (vw_list v) \<and> vw_frame v v' \<and>
              vw_iov v' + vw_iovcnt v' = vw_iov v + vw_iovcnt v
         else r = - 1"
proof -
  let ?cb = "\<lambda>w ptr sz. if vw_iovcnt w = vw_iovcnt out then None
     else Some (w\<lparr>vw_arr := (vw_arr w)[vw_iov w + vw_iovcnt w := \<lparr>iov_base = ptr, iov_len = sz\<rparr>],
                  vw_iovcnt := vw_iovcnt w + 1\<rparr>)"
  have start: "vw_list (out\<lparr>vw_iovcnt := 0\<rparr>) = []"
    by (simp add: vw_list_def)
  note fold = cb_fold_view [of "out\<lparr>vw_iovcnt := 0\<rparr>" "vw_iovcnt out" "take_bytes n (vw_list v)"]
  show ?thesis
  proof (cases "cb_fold ?cb (take_bytes n (vw_list v)) (out\<lparr>vw_iovcnt := 0\<rparr>)")
    case None
    then have "fst (extract_front_loop ?cb n v (out\<lparr>vw_iovcnt := 0\<rparr>)) = None"
      by (rule extract_front_loop_None [OF assms(1)])
    then show ?thesis
      using None fold assms(2-4)
      by (auto simp: extract_front_view_def do_extract_front_def vw_wf_def split: prod.splits)
  next
    case (Some w)
    then show ?thesis
      using fold assms(2,4) start do_extract_front_Some [OF assms(1,3) Some]
      by (fastforce simp: extract_front_view_def vw_wf_def)
  qed
qed

subsection \<open>Shrinking\<close>

lemma shrink_to_loop_spec:
  assumes "vw_wf v" "i \<le> vw_iovcnt v" "sz \<le> sz0" "shrink_to_loop sz0 i sz v = (r, v')"
  shows "r = sz0 - sz + min sz (iov_sum (drop i (vw_list v))) \<and>
         vw_list v' = take i (vw_list v) @ take_bytes sz (drop i (vw_list v)) \<and>
         vw_frame v v' \<and> vw_iov v' = vw_iov v"
  using assms
proof (induction sz0 i sz v rule: shrink_to_loop.induct)
  case (1 sz0 i sz v)
  show ?case
  proof (cases "i < vw_iovcnt v")
    case False
    then show ?thesis
      using 1 by (auto simp: shrink_to_loop.simps)
  next
    case True
    let ?e = "vw_arr v ! (vw_iov v + i)"
    have e: "drop i (vw_list v) = ?e # drop (Suc i) (vw_list v)"
      using True 1(2) by (subst Cons_nth_drop_Suc [symmetric]) (simp_all add: vw_list_def vw_wf_def)
    show ?thesis
    proof (cases "sz \<le> iov_len ?e")
      case True
      have "vw_list (v\<lparr>vw_arr := (vw_arr v)[vw_iov v + i := ?e\<lparr>iov_len := sz\<rparr>], vw_iovcnt := Suc i\<rparr>)
          = take i (vw_list v) @ [?e\<lparr>iov_len := sz\<rparr>]"
        using \<open>i < vw_iovcnt v\<close> 1(2)
        by (simp add: vw_list_def vw_wf_def take_Suc_conv_app_nth drop_update_swap)
      then show ?thesis
        using True 1 e \<open>i < vw_iovcnt v\<close>
        by (auto simp: shrink_to_loop.simps [of sz0 i sz v] vw_frame_def vw_wf_def)
    next
      case False
      then have "shrink_to_loop sz0 (i + 1) (sz - iov_len ?e) v = (r, v')"
        using 1(5) \<open>i < vw_iovcnt v\<close> by (simp add: shrink_to_loop.simps [of sz0 i sz v])
      then have "r = sz0 - (sz - iov_len ?e) + min (sz - iov_len ?e) (iov_sum (drop (Suc i) (vw_list v))) \<and>
         vw_list v' = take (Suc i) (vw_list v) @ take_bytes (sz - iov_len ?e) (drop (Suc i) (vw_list v)) \<and>
         vw_frame v v' \<and> vw_iov v' = vw_iov v"
        using 1(1) [OF \<open>i < vw_iovcnt v\<close> refl False 1(2)] 1(4) \<open>i < vw_iovcnt v\<close> by simp
      moreover have "take (Suc i) (vw_list v) = take i (vw_list v) @ [?e]"
        using \<open>i < vw_iovcnt v\<close> 1(2) by (simp add: take_Suc_conv_app_nth vw_list_def vw_wf_def)
      ultimately show ?thesis
        using e False 1(4) by simp
    qed
  qed
qed

lemma shrink_to_spec:
  assumes "vw_wf v" "shrink_to sz v = (r, v')"
  shows "r = min sz (iov_sum (vw_list v)) \<and> iov_bytes m (vw_list v') = take sz (iov_bytes m (vw_list v)) \<and>
         vw_frame v v' \<and> vw_iov v' = vw_iov v"
proof (cases "sz = 0")
  case True
  then show ?thesis
    using assms by (auto simp: shrink_to_def vw_list_def vw_frame_def vw_wf_def)
next
  case False
  then show ?thesis
    using assms shrink_to_loop_spec [of v 0 sz sz r v'] by (simp add: shrink_to_def)
qed

subsection \<open>Copies between a view and a buffer\<close>

lemma memcpy_to_loop_eq:
  "cb_fold copy_cb (take_bytes sz es) (m, buf) = Some (m', b) \<Longrightarrow>
     memcpy_to_loop es buf sz m = (b, m')"
  by (induction es buf sz m rule: memcpy_to_loop.induct) (auto simp: Let_def split: if_splits)

text \<open>\<open>iov_sep es\<close>: the buffers of \<open>es\<close> are pairwise disjoint, as destinations of a copy are.\<close>

fun iov_sep :: "iovec list \<Rightarrow> bool" where
  "iov_sep [] \<longleftrightarrow> True"
| "iov_sep (e # es) \<longleftrightarrow> iov_disj es (iov_base e) (iov_len e) \<and> iov_sep es"

definition iov_apart :: "iovec list \<Rightarrow> iovec list \<Rightarrow> bool" where
  "iov_apart ds ss \<longleftrightarrow> (\<forall>d \<in> set ds. iov_disj ss (iov_base d) (iov_len d))"

definition outside :: "iovec list \<Rightarrow> nat \<Rightarrow> bool" where
  "outside es a \<longleftrightarrow> (\<forall>e \<in> set es. a < iov_base e \<or> iov_base e + iov_len e \<le> a)"

lemma iov_sep_drop_bytes: "iov_sep es \<Longrightarrow> iov_sep (drop_bytes n es)"
  by (induction n es rule: drop_bytes.induct) (auto elim: iov_disj_sub)

lemma iov_apart_drop_bytes: "iov_apart ds ss \<Longrightarrow> iov_apart (drop_bytes n ds) (drop_bytes k ss)"
proof -
  have "iov_apart ds ss \<Longrightarrow> iov_apart (drop_bytes n ds) ss"
    by (induction n ds rule: drop_bytes.induct) (auto simp: iov_apart_def elim: iov_disj_sub)
  then show "iov_apart ds ss \<Longrightarrow> iov_apart (drop_bytes n ds) (drop_bytes k ss)"
    by (auto simp: iov_apart_def intro: iov_disj_drop_bytes)
qed

lemma outside_drop_bytes: "outside es a \<Longrightarrow> outside (drop_bytes n es) a"
  by (induction n es rule: drop_bytes.induct) (auto simp: outside_def)

lemma iov_disj_outside: "iov_disj es b n \<Longrightarrow> b \<le> a \<Longrightarrow> a < b + n \<Longrightarrow> outside es a"
  by (auto simp: iov_disj_def outside_def)

lemma memcpy_from_loop_spec:
  assumes "iov_sep es" "iov_disj es buf sz" "memcpy_from_loop es buf sz m = (b, m')"
  shows "b = buf + min sz (iov_sum es) \<and> take sz (iov_bytes m' es) = bytes_at m buf (min sz (iov_sum es)) \<and>
         (\<forall>a. outside es a \<longrightarrow> m' a = m a)"
  using assms
proof (induction es buf sz m arbitrary: b m' rule: memcpy_from_loop.induct)
  case (1 buf sz m)
  then show ?case by simp
next
  case (2 x xs buf sz m)
  show ?case
  proof (cases "iov_len x \<ge> sz")
    case True
    have "take sz (bytes_at (memcpy m (iov_base x) buf sz) (iov_base x) (iov_len x)) = bytes_at m buf sz"
      using True by (simp add: take_bytes_at)
    then show ?thesis
      using True 2(4) by (auto simp: Let_def outside_def memcpy_def split: if_splits)
  next
    case False
    let ?m = "memcpy m (iov_base x) buf (iov_len x)"
    have "memcpy_from_loop xs (buf + iov_len x) (sz - iov_len x) ?m = (b, m')"
      using 2(4) False by (simp add: Let_def)
    moreover have "iov_sep xs" "iov_disj xs (buf + iov_len x) (sz - iov_len x)"
      using 2(2,3) False by (auto elim: iov_disj_sub)
    ultimately have IH: "b = buf + iov_len x + min (sz - iov_len x) (iov_sum xs)"
      "take (sz - iov_len x) (iov_bytes m' xs) =
         bytes_at ?m (buf + iov_len x) (min (sz - iov_len x) (iov_sum xs))"
      "\<forall>a. outside xs a \<longrightarrow> m' a = ?m a"
      using 2(1) [OF refl refl] False by auto
    have "bytes_at m' (iov_base x) (iov_len x) = bytes_at ?m (iov_base x) (iov_len x)"
      using 2(2) IH(3) by (intro bytes_at_cong) (auto intro: iov_disj_outside)
    moreover have "bytes_at ?m (buf + iov_len x) (min (sz - iov_len x) (iov_sum xs)) =
        bytes_at m (buf + iov_len x) (min (sz - iov_len x) (iov_sum xs))"
      using 2(3) False by (intro bytes_at_memcpy_other) auto
    moreover have "min sz (iov_len x + iov_sum xs) = iov_len x + min (sz - iov_len x) (iov_sum xs)"
      using False by simp
    moreover have "m' a = m a" if "outside (x # xs) a" for a
      using that IH(3) by (auto simp: outside_def memcpy_def)
    ultimately show ?thesis
      using IH(1,2) False by (simp add: bytes_at_add)
  qed
qed

subsection \<open>Copies between views\<close>

lemma memcpy_iov_loop_spec:
  assumes "vw_wf dest" "vw_wf src"
    and "\<forall>e \<in> set (vw_list dest) \<union> set (vw_list src). 0 < iov_len e"
    and "iov_sep (vw_list dest)" "iov_apart (vw_list dest) (vw_list src)"
  shows "\<exists>d' s' m'. memcpy_iov_loop sz act dest src m =
            Some (act + min sz (min (iov_sum (vw_list dest)) (iov_sum (vw_list src))), d', s', m') \<and>
          take (min sz (iov_sum (vw_list src))) (iov_bytes m' (vw_list dest)) =
            take (min sz (iov_sum (vw_list dest))) (iov_bytes m (vw_list src)) \<and>
          (\<forall>a. outside (vw_list dest) a \<longrightarrow> m' a = m a)"
  using assms
proof (induction sz arbitrary: act dest src m rule: less_induct)
  case (less sz)
  show ?case
  proof (cases "sz \<noteq> 0 \<and> \<not> vw_empty dest \<and> \<not> vw_empty src")
    case False
    then show ?thesis
      by (auto simp: memcpy_iov_loop.simps vw_list_empty)
  next
    case True
    let ?d = "vw_front dest" and ?s = "vw_front src"
    define k where "k = min (iov_len ?s) (min (iov_len ?d) sz)"
    let ?m = "memcpy m (iov_base ?d) (iov_base ?s) k"
    note D = vw_list_front [OF less.prems(1)] and S = vw_list_front [OF less.prems(2)]
    have k: "0 < k" "k \<le> iov_len ?d" "k \<le> iov_len ?s" "k \<le> sz"
      using True less.prems(3) D S by (auto simp: k_def)
    obtain d1 where d1: "snd (extract_front k dest) = d1" "vw_list d1 = drop_bytes k (vw_list dest)" "vw_wf d1"
      using extract_front_spec [OF less.prems(1), of k] k(1) vw_frame_wf less.prems(1)
      by (metis drop_front_spec_def less_not_refl snd_conv)
    obtain s1 where s1: "snd (extract_front k src) = s1" "vw_list s1 = drop_bytes k (vw_list src)" "vw_wf s1"
      using extract_front_spec [OF less.prems(2), of k] k(1) vw_frame_wf less.prems(2)
      by (metis drop_front_spec_def less_not_refl snd_conv)
    have step: "memcpy_iov_loop sz act dest src m = memcpy_iov_loop (sz - k) (act + k) d1 s1 ?m"
      using True d1(1) s1(1) by (subst memcpy_iov_loop.simps) (simp add: Let_def k_def)
    have nz: "\<forall>e \<in> set (vw_list d1) \<union> set (vw_list s1). 0 < iov_len e"
      using less.prems(3) d1(2) s1(2) drop_bytes_nonzero [of "vw_list dest" k]
        drop_bytes_nonzero [of "vw_list src" k] by auto
    have lt: "sz - k < sz"
      using k by linarith
    obtain d' s' m' where IH: "memcpy_iov_loop (sz - k) (act + k) d1 s1 ?m =
          Some (act + k + min (sz - k) (min (iov_sum (vw_list d1)) (iov_sum (vw_list s1))), d', s', m')"
      "take (min (sz - k) (iov_sum (vw_list s1))) (iov_bytes m' (vw_list d1)) =
          take (min (sz - k) (iov_sum (vw_list d1))) (iov_bytes ?m (vw_list s1))"
      "\<forall>a. outside (vw_list d1) a \<longrightarrow> m' a = ?m a"
      using less.IH [OF lt d1(3) s1(3) nz, of "act + k" ?m] less.prems(4,5) d1(2) s1(2)
        iov_sep_drop_bytes iov_apart_drop_bytes by metis
    have sums: "k \<le> iov_sum (vw_list dest)" "k \<le> iov_sum (vw_list src)"
      "iov_sum (vw_list d1) = iov_sum (vw_list dest) - k"
      "iov_sum (vw_list s1) = iov_sum (vw_list src) - k"
      using D S True d1(2) s1(2) k by auto
    have "outside (vw_list d1) a" if "iov_base ?d \<le> a" "a < iov_base ?d + k" for a
      using that less.prems(4) D True k(2) iov_disj_outside [of _ "iov_base ?d" "iov_len ?d" a] d1(2)
      by (auto simp: outside_def)
    then have "bytes_at m' (iov_base ?d) k = bytes_at ?m (iov_base ?d) k"
      using IH(3) by (intro bytes_at_cong) auto
    then have head: "take k (iov_bytes m' (vw_list dest)) = take k (iov_bytes m (vw_list src))"
      using D S True k by (simp add: take_bytes_at)
    have "iov_disj (vw_list s1) (iov_base ?d) k"
      using less.prems(5) D True k(2) s1(2)
      by (auto simp: iov_apart_def intro!: iov_disj_drop_bytes elim!: iov_disj_sub)
    then have "iov_bytes ?m (vw_list s1) = iov_bytes m (vw_list s1)"
      by (rule iov_bytes_frame) (auto simp: memcpy_def)
    with IH(2) have "take (min sz (iov_sum (vw_list src)) - k) (drop k (iov_bytes m' (vw_list dest))) =
        take (min sz (iov_sum (vw_list dest)) - k) (drop k (iov_bytes m (vw_list src)))"
      using sums d1(2) s1(2) by (simp only: min_diff iov_bytes_drop_bytes)
    then have "take (k + (min sz (iov_sum (vw_list src)) - k)) (iov_bytes m' (vw_list dest)) =
        take (k + (min sz (iov_sum (vw_list dest)) - k)) (iov_bytes m (vw_list src))"
      using head by (simp only: take_add)
    then have data: "take (min sz (iov_sum (vw_list src))) (iov_bytes m' (vw_list dest)) =
        take (min sz (iov_sum (vw_list dest))) (iov_bytes m (vw_list src))"
      using sums k(4) by simp
    have "m' a = m a" if "outside (vw_list dest) a" for a
      using that IH(3) outside_drop_bytes [OF that] d1(2) D True k(2)
      by (auto simp: outside_def memcpy_def)
    moreover have "act + k + min (sz - k) (min (iov_sum (vw_list d1)) (iov_sum (vw_list s1))) =
        act + min sz (min (iov_sum (vw_list dest)) (iov_sum (vw_list src)))"
      using sums k(4) by linarith
    ultimately show ?thesis
      using step IH(1) data by auto
  qed
qed

text \<open>A front element of length zero makes the loop repeat the same state.\<close>

definition memcpy_stuck :: "nat \<Rightarrow> iovector_view \<Rightarrow> iovector_view \<Rightarrow> bool" where
  "memcpy_stuck sz dest src \<longleftrightarrow> sz \<noteq> 0 \<and> \<not> vw_empty dest \<and> \<not> vw_empty src \<and>
     (iov_len (vw_front dest) = 0 \<or> iov_len (vw_front src) = 0)"

lemma memcpy_iov_loop_stuck:
  assumes "memcpy_iov_loop sz act dest src m = Some r"
  shows "\<not> memcpy_stuck sz dest src"
proof (rule memcpy_iov_loop.raw_induct [OF _ assms])
  fix f sz act dest src m r
  assume IH: "\<And>sz act dest src m r. f sz act dest src m = Some r \<Longrightarrow> \<not> memcpy_stuck sz dest src"
    and body: "(if sz \<noteq> 0 \<and> \<not> vw_empty dest \<and> \<not> vw_empty src then
       let step = min (iov_len (vw_front src)) (min (iov_len (vw_front dest)) sz)
       in f (sz - step) (act + step) (snd (extract_front step dest)) (snd (extract_front step src))
            (memcpy m (iov_base (vw_front dest)) (iov_base (vw_front src)) step)
     else Some (act, dest, src, m)) = Some r"
  show "\<not> memcpy_stuck sz dest src"
  proof
    assume stuck: "memcpy_stuck sz dest src"
    then have "f sz act dest src m = Some r"
      using body by (auto simp: memcpy_stuck_def extract_front_def do_extract_front_def)
    with IH stuck show False
      by blast
  qed
qed

subsection \<open>Slices\<close>

lemma slice_loop_past:
  assumes "offset < pos" "cnt + length es \<le> vw_iovcnt out" "vw_wf out"
    and "slice_loop es count offset pos cnt ret out = (r, out')"
  shows "r = ret + int (min count (iov_sum es)) \<and>
         iov_bytes m (vw_list out') =
           iov_bytes m (take cnt (drop (vw_iov out) (vw_arr out))) @ take count (iov_bytes m es)"
  using assms
proof (induction es count offset pos cnt ret out rule: slice_loop.induct)
  case (1 count offset pos cnt ret out)
  then show ?case by (auto simp: vw_list_def)
next
  case (2 p ps count offset pos cnt ret out)
  show ?case
  proof (cases "count = 0")
    case True
    then show ?thesis
      using 2 by auto
  next
    case False
    define q where "q = (if count < iov_len p then p\<lparr>iov_len := count\<rparr> else p)"
    let ?out = "out\<lparr>vw_arr := (vw_arr out)[vw_iov out + cnt := q]\<rparr>"
    have q: "iov_len q = min count (iov_len p)" "iov_base q = iov_base p"
      by (simp_all add: q_def)
    have room: "vw_iov out + cnt < length (vw_arr out)"
      using 2(4,5) by (simp add: vw_wf_def)
    have pre: "take (Suc cnt) (drop (vw_iov out) ((vw_arr out)[vw_iov out + cnt := q])) =
        take cnt (drop (vw_iov out) (vw_arr out)) @ [q]"
      using room by (simp add: take_Suc_conv_app_nth drop_update_swap)
    have head: "take count (iov_bytes m (p # ps)) =
        bytes_at m (iov_base q) (iov_len q) @ take (count - iov_len q) (iov_bytes m ps)"
      by (auto simp: q take_bytes_at min_def)
    have cond: "count \<noteq> 0 \<and> pos + int (iov_len p) > offset" "\<not> offset > pos"
      using False 2(3) by auto
    show ?thesis
    proof (cases "cnt + 1 = vw_iovcnt out")
      case True
      then have "length ps = 0"
        using 2(4) unfolding list.size(4) by linarith
      moreover from True have "r = ret + int (iov_len q)" "out' = ?out\<lparr>vw_iovcnt := cnt + 1\<rparr>"
        using 2(4,6) cond by (auto simp: Let_def q_def split: if_splits)
      ultimately show ?thesis
        using pre head q by (simp add: vw_list_def)
    next
      case no: False
      have loop: "slice_loop ps (count - iov_len q) offset (pos + int (iov_len p)) (cnt + 1)
          (ret + int (iov_len q)) ?out = (r, out')"
        using 2(6) cond no by (simp add: Let_def q_def split: if_splits)
      have "r = ret + int (iov_len q) + int (min (count - iov_len q) (iov_sum ps)) \<and>
          iov_bytes m (vw_list out') =
            iov_bytes m (take (cnt + 1) (drop (vw_iov ?out) (vw_arr ?out))) @
            take (count - iov_len q) (iov_bytes m ps)"
        by (rule 2(1) [OF cond(1) refl _ refl]) (use cond no 2 loop in \<open>auto simp: q_def vw_wf_def\<close>)
      then show ?thesis
        using pre head q(1) by auto
    qed
  qed
qed

lemma slice_in_first:
  assumes "vw_wf v" "vw_wf out" "vw_list v = p # ps" "0 \<le> offset" "offset < int (iov_len p)"
    and "vw_iovcnt v \<le> vw_iovcnt out"
    and "slice count offset v (Some out) = (r, Some out')"
  shows "r = int (min count (iov_sum (vw_list v) - nat offset)) \<and>
         iov_bytes m (vw_list out') = take count (drop (nat offset) (iov_bytes m (vw_list v)))"
proof -
  have cnt: "vw_iovcnt v = Suc (length ps)"
    using assms(1,3) length_vw_list by fastforce
  define q0 where "q0 = (if offset > 0
      then \<lparr>iov_base = iov_base p + nat offset, iov_len = iov_len p - nat offset\<rparr> else p)"
  define q where "q = (if count < iov_len q0 then q0\<lparr>iov_len := count\<rparr> else q0)"
  let ?out = "out\<lparr>vw_arr := (vw_arr out)[vw_iov out := q]\<rparr>"
  have loop: "slice_loop (p # ps) count offset 0 0 0 out = (r, out')"
    using assms(3,6,7) cnt by (auto simp: slice_def split: prod.splits)
  have q0: "iov_base q0 = iov_base p + nat offset" "iov_len q0 = iov_len p - nat offset"
    using assms(4) by (auto simp: q0_def)
  have bytes: "drop (nat offset) (iov_bytes m (vw_list v)) =
      bytes_at m (iov_base q0) (iov_len q0) @ iov_bytes m ps"
    using assms(3-5) by (simp add: q0 drop_bytes_at)
  have sum: "iov_sum (vw_list v) - nat offset = iov_len q0 + iov_sum ps"
    using assms(3-5) by (auto simp: q0)
  have wf: "vw_wf ?out" and pre: "take 1 (drop (vw_iov out) (vw_arr ?out)) = [q]"
    using assms(2,6) cnt take_drop_update_hd [of "vw_iov out" "vw_arr out" 1 q] by (auto simp: vw_wf_def)
  have q: "iov_base q = iov_base q0" "iov_len q = min count (iov_len q0)"
    by (simp_all add: q_def)
  consider "count = 0" | "count \<noteq> 0" "1 = vw_iovcnt out" | "count \<noteq> 0" "1 < vw_iovcnt out"
    using assms(6) cnt by linarith
  then show ?thesis
  proof cases
    case 1
    have "slice_loop es 0 offset pos cnt ret out = (ret, out\<lparr>vw_iovcnt := cnt\<rparr>)" for es pos cnt ret
      by (induction es) simp_all
    then show ?thesis
      using 1 loop by (auto simp: vw_list_def)
  next
    case 2
    then have "length ps = 0"
      using assms(6) cnt by linarith
    moreover from 2 have "r = int (iov_len q)" "out' = ?out\<lparr>vw_iovcnt := 1\<rparr>"
      using loop assms(4-6) cnt by (auto simp: Let_def q_def q0_def split: if_splits)
    moreover from this pre have "vw_list out' = [q]"
      by (simp add: vw_list_def)
    ultimately show ?thesis
      using q by (simp add: bytes sum take_bytes_at_min)
  next
    case 3
    then have "slice_loop ps (count - iov_len q) offset (int (iov_len p)) 1 (int (iov_len q)) ?out = (r, out')"
      using loop assms(4,5) by (auto simp: Let_def q_def q0_def split: if_splits)
    then have "r = int (iov_len q) + int (min (count - iov_len q) (iov_sum ps)) \<and>
        iov_bytes m (vw_list out') = iov_bytes m [q] @ take (count - iov_len q) (iov_bytes m ps)"
      using slice_loop_past [of offset "int (iov_len p)" 1 ps ?out _ _ r out' m] assms(5,6) cnt wf pre
      by simp
    then show ?thesis
      using q unfolding bytes sum by (auto simp: take_bytes_at min_def)
  qed
qed

lemma slice_loop_none:
  "\<forall>e \<in> set es. int (iov_len e) \<le> offset \<Longrightarrow>
     slice_loop es count offset 0 0 0 out = (0, out\<lparr>vw_iovcnt := 0\<rparr>)"
  by (induction es) simp_all

section \<open>Properties\<close>

text \<open>(C1) \<^verbatim>\<open>iovector_view::extract_front(bytes, buf)\<close> moves the first \<open>min bytes sum\<close> bytes of the
  view into the buffer in order, leaves the view on exactly the remaining bytes, returns the
  number of bytes moved, and writes no byte outside of the buffer.\<close>

theorem extract_front_buf_moves_prefix:
  assumes "vw_wf v" "iov_disj (vw_list v) buf n"
    and "extract_front_buf n buf v m = (r, v', m')"
  shows "r = int (min n (iov_sum (vw_list v))) \<and>
    bytes_at m' buf (nat r) = take n (iov_bytes m (vw_list v)) \<and>
    iov_bytes m' (vw_list v') = drop n (iov_bytes m (vw_list v)) \<and>
    (\<forall>a. a < buf \<or> buf + n \<le> a \<longrightarrow> m' a = m a)"
proof -
  obtain v1 m1 where 1: "extract_front_buf n buf v m = (int (min n (iov_sum (vw_list v))), v1, m1)"
    "vw_list v1 = drop_front_spec n (vw_list v)"
    "bytes_at m1 buf (min n (iov_sum (vw_list v))) = take n (iov_bytes m (vw_list v))"
    "\<forall>a. a < buf \<or> buf + n \<le> a \<longrightarrow> m1 a = m a"
    by (rule extract_front_buf_spec [OF assms(1,2)])
  have "iov_bytes m1 (vw_list v1) = iov_bytes m (vw_list v1)"
    using iov_disj_drop_front_spec [OF assms(2)] 1(2,4) by (intro iov_bytes_frame) auto
  then show ?thesis
    using 1 assms(3) by auto
qed

theorem extract_front_buf_moves_prefix_witness:
  "let v = \<lparr>vw_arr = [\<lparr>iov_base = 100, iov_len = 3\<rparr>, \<lparr>iov_base = 200, iov_len = 4\<rparr>],
            vw_iov = 0, vw_iovcnt = 2\<rparr>;
       m = (\<lambda>a. word_of_nat a);
       (r, v', m') = extract_front_buf 5 300 v m
   in vw_wf v \<and> iov_disj (vw_list v) 300 5 \<and> r = 5 \<and>
      bytes_at m' 300 5 = [100, 101, 102, 200, 201] \<and>
      iov_bytes m' (vw_list v') = [202, 203]"
  using extract_front_buf_moves_prefix
    [of "\<lparr>vw_arr = [\<lparr>iov_base = 100, iov_len = 3\<rparr>, \<lparr>iov_base = 200, iov_len = 4\<rparr>],
            vw_iov = 0, vw_iovcnt = 2\<rparr>" 300 5 "\<lambda>a. word_of_nat a"]
  by (auto simp: vw_wf_def vw_list_def iov_bytes_def bytes_at_def upt_rec split: prod.splits)

text \<open>(C2) \<^verbatim>\<open>iovector_view::extract_back(bytes, buf)\<close> moves the last \<open>min bytes sum\<close> bytes of the
  view, in order, to the end of the buffer of \<open>bytes\<close> bytes, and leaves the view on exactly
  the bytes before them.\<close>

theorem extract_back_buf_moves_suffix:
  assumes "vw_wf v" "iov_disj (vw_list v) buf n"
    and "extract_back_buf n buf v m = (r, v', m')"
  shows "r = int (min n (iov_sum (vw_list v))) \<and>
    bytes_at m' (buf + n - nat r) (nat r) = drop (iov_sum (vw_list v) - n) (iov_bytes m (vw_list v)) \<and>
    iov_bytes m' (vw_list v') = take (iov_sum (vw_list v) - n) (iov_bytes m (vw_list v)) \<and>
    (\<forall>a. a < buf \<or> buf + n \<le> a \<longrightarrow> m' a = m a)"
proof -
  obtain v1 m1 where 1: "extract_back_buf n buf v m = (int (min n (iov_sum (vw_list v))), v1, m1)"
    "vw_list v1 = drop_back_spec n (vw_list v)"
    "bytes_at m1 (buf + n - min n (iov_sum (vw_list v))) (min n (iov_sum (vw_list v))) =
       drop (iov_sum (vw_list v) - n) (iov_bytes m (vw_list v))"
    "\<forall>a. a < buf \<or> buf + n \<le> a \<longrightarrow> m1 a = m a"
    by (rule extract_back_buf_spec [OF assms(1,2)])
  have "iov_bytes m1 (vw_list v1) = iov_bytes m (vw_list v1)"
    using iov_disj_drop_back_spec [OF assms(2)] 1(2,4) by (intro iov_bytes_frame) auto
  then show ?thesis
    using 1 assms(3) by auto
qed

theorem extract_back_buf_moves_suffix_witness:
  "let v = \<lparr>vw_arr = [\<lparr>iov_base = 100, iov_len = 3\<rparr>, \<lparr>iov_base = 200, iov_len = 4\<rparr>],
            vw_iov = 0, vw_iovcnt = 2\<rparr>;
       m = (\<lambda>a. word_of_nat a);
       (r, v', m') = extract_back_buf 5 300 v m
   in vw_wf v \<and> iov_disj (vw_list v) 300 5 \<and> r = 5 \<and>
      bytes_at m' 300 5 = [102, 200, 201, 202, 203] \<and>
      iov_bytes m' (vw_list v') = [100, 101]"
  using extract_back_buf_moves_suffix
    [of "\<lparr>vw_arr = [\<lparr>iov_base = 100, iov_len = 3\<rparr>, \<lparr>iov_base = 200, iov_len = 4\<rparr>],
            vw_iov = 0, vw_iovcnt = 2\<rparr>" 300 5 "\<lambda>a. word_of_nat a"]
  by (auto simp: vw_wf_def vw_list_def iov_bytes_def bytes_at_def upt_rec split: prod.splits)

text \<open>(C3) \<^verbatim>\<open>iovector_view::extract_front(bytes, iov)\<close> extracts without copying: when the output
  array has room for every piece, the output view shows exactly the first bytes of the
  input and the input the remaining ones; when it has not, the call returns \<open>-1\<close>.\<close>

theorem extract_front_view_zero_copy:
  assumes "vw_wf v" "vw_wf out" "0 < n"
    and "extract_front_view n out v = (r, v', out')"
  shows "if length (take_bytes n (vw_list v)) \<le> vw_iovcnt out
    then r = int (min n (iov_sum (vw_list v))) \<and>
         iov_bytes m (vw_list out') = take n (iov_bytes m (vw_list v)) \<and>
         iov_bytes m (vw_list v') = drop n (iov_bytes m (vw_list v))
    else r = - 1"
  using extract_front_view_spec [OF assms] by auto

theorem extract_front_view_zero_copy_witness:
  "let v = \<lparr>vw_arr = [\<lparr>iov_base = 100, iov_len = 3\<rparr>, \<lparr>iov_base = 200, iov_len = 4\<rparr>],
            vw_iov = 0, vw_iovcnt = 2\<rparr>;
       out = \<lparr>vw_arr = replicate 3 \<lparr>iov_base = 0, iov_len = 0\<rparr>, vw_iov = 1, vw_iovcnt = 2\<rparr>;
       (r, v', out') = extract_front_view 5 out v
   in vw_wf v \<and> vw_wf out \<and> r = 5 \<and>
      iov_bytes (\<lambda>a. word_of_nat a) (vw_list out') = [100, 101, 102, 200, 201] \<and>
      iov_bytes (\<lambda>a. word_of_nat a) (vw_list v') = [202, 203]"
  using extract_front_view_zero_copy
    [of "\<lparr>vw_arr = [\<lparr>iov_base = 100, iov_len = 3\<rparr>, \<lparr>iov_base = 200, iov_len = 4\<rparr>],
            vw_iov = 0, vw_iovcnt = 2\<rparr>"
       "\<lparr>vw_arr = replicate 3 \<lparr>iov_base = 0, iov_len = 0\<rparr>, vw_iov = 1, vw_iovcnt = 2\<rparr>" 5 _ _ _
       "\<lambda>a. word_of_nat a"]
  by (auto simp: vw_wf_def vw_list_def iov_bytes_def bytes_at_def upt_rec split: prod.splits)

text \<open>(C4) \<^verbatim>\<open>memcpy_iov\<close> returns, and copies the common prefix of the two views up to \<open>sz\<close>
  bytes, when no element is empty and the destinations overlap neither each other nor the
  sources. Bytes outside of the destination are kept.\<close>

theorem memcpy_iov_copies_prefix:
  assumes "vw_wf dest" "vw_wf src"
    and "\<forall>e \<in> set (vw_list dest) \<union> set (vw_list src). 0 < iov_len e"
    and "iov_sep (vw_list dest)" "iov_apart (vw_list dest) (vw_list src)"
  shows "\<exists>dest' src' m'.
    memcpy_iov dest src sz m =
      Some (min sz (min (iov_sum (vw_list dest)) (iov_sum (vw_list src))), dest', src', m') \<and>
    take (min sz (iov_sum (vw_list src))) (iov_bytes m' (vw_list dest)) =
      take (min sz (iov_sum (vw_list dest))) (iov_bytes m (vw_list src)) \<and>
    (\<forall>a. outside (vw_list dest) a \<longrightarrow> m' a = m a)"
  using memcpy_iov_loop_spec [OF assms, of sz 0 m] by (simp add: memcpy_iov_def)

theorem memcpy_iov_copies_prefix_witness:
  "\<exists>dest' src' m'.
    memcpy_iov
      \<lparr>vw_arr = [\<lparr>iov_base = 300, iov_len = 2\<rparr>, \<lparr>iov_base = 400, iov_len = 4\<rparr>], vw_iov = 0, vw_iovcnt = 2\<rparr>
      \<lparr>vw_arr = [\<lparr>iov_base = 100, iov_len = 3\<rparr>, \<lparr>iov_base = 200, iov_len = 1\<rparr>], vw_iov = 0, vw_iovcnt = 2\<rparr>
      9 (\<lambda>a. word_of_nat a) = Some (4, dest', src', m') \<and>
    bytes_at m' 300 2 = [100, 101] \<and> bytes_at m' 400 2 = [102, 200]"
proof -
  let ?d = "\<lparr>vw_arr = [\<lparr>iov_base = 300, iov_len = 2\<rparr>, \<lparr>iov_base = 400, iov_len = 4\<rparr>],
              vw_iov = 0, vw_iovcnt = 2\<rparr>"
  let ?s = "\<lparr>vw_arr = [\<lparr>iov_base = 100, iov_len = 3\<rparr>, \<lparr>iov_base = 200, iov_len = 1\<rparr>],
              vw_iov = 0, vw_iovcnt = 2\<rparr>"
  have "vw_wf ?d" "vw_wf ?s" "iov_sep (vw_list ?d)" "iov_apart (vw_list ?d) (vw_list ?s)"
    "\<forall>e \<in> set (vw_list ?d) \<union> set (vw_list ?s). 0 < iov_len e"
    by (simp_all add: vw_wf_def vw_list_def iov_apart_def)
  from memcpy_iov_copies_prefix [OF this(1,2,5,3,4), of 9 "\<lambda>a. word_of_nat a"] show ?thesis
    by (fastforce simp: vw_list_def bytes_at_def upt_rec)
qed

text \<open>(C5) \<^verbatim>\<open>memcpy_iov\<close> does not return when bytes are left to copy and the front element of
  either view has length zero: \<^verbatim>\<open>extract_front(0)\<close> keeps the element, so the loop repeats.\<close>

theorem memcpy_iov_diverges_on_empty_element:
  assumes "sz \<noteq> 0" "\<not> vw_empty dest" "\<not> vw_empty src"
    and "iov_len (vw_front dest) = 0 \<or> iov_len (vw_front src) = 0"
  shows "memcpy_iov dest src sz m = None"
  using memcpy_iov_loop_stuck [of sz 0 dest src m] assms
  by (cases "memcpy_iov_loop sz 0 dest src m") (auto simp: memcpy_iov_def memcpy_stuck_def)

theorem memcpy_iov_diverges_on_empty_element_witness:
  "memcpy_iov \<lparr>vw_arr = [\<lparr>iov_base = 300, iov_len = 2\<rparr>], vw_iov = 0, vw_iovcnt = 1\<rparr>
     \<lparr>vw_arr = [\<lparr>iov_base = 100, iov_len = 0\<rparr>, \<lparr>iov_base = 200, iov_len = 1\<rparr>], vw_iov = 0, vw_iovcnt = 2\<rparr>
     1 (\<lambda>_. 0) = None"
  by (rule memcpy_iov_diverges_on_empty_element) (simp_all add: vw_empty_def vw_front_def)

text \<open>(C6) \<^verbatim>\<open>slice(count, offset, iov)\<close> yields the \<open>count\<close> bytes from \<open>offset\<close> on, for an offset
  inside the first element and an output array of at least as many entries as the view.\<close>

theorem slice_correct_in_first_element:
  assumes "vw_wf v" "vw_wf out" "vw_list v = p # ps" "0 \<le> offset" "offset < int (iov_len p)"
    and "vw_iovcnt v \<le> vw_iovcnt out"
    and "slice count offset v (Some out) = (r, Some out')"
  shows "r = int (min count (iov_sum (vw_list v) - nat offset)) \<and>
         iov_bytes m (vw_list out') = take count (drop (nat offset) (iov_bytes m (vw_list v)))"
  using slice_in_first [OF assms] .

theorem slice_correct_in_first_element_witness:
  "let v = \<lparr>vw_arr = [\<lparr>iov_base = 100, iov_len = 3\<rparr>, \<lparr>iov_base = 200, iov_len = 4\<rparr>],
            vw_iov = 0, vw_iovcnt = 2\<rparr>;
       out = \<lparr>vw_arr = replicate 2 \<lparr>iov_base = 0, iov_len = 0\<rparr>, vw_iov = 0, vw_iovcnt = 2\<rparr>;
       (r, out') = slice 3 1 v (Some out)
   in r = 3 \<and> iov_bytes (\<lambda>a. word_of_nat a) (vw_list (the out')) = [101, 102, 200]"
proof -
  let ?v = "\<lparr>vw_arr = [\<lparr>iov_base = 100, iov_len = 3\<rparr>, \<lparr>iov_base = 200, iov_len = 4\<rparr>],
              vw_iov = 0, vw_iovcnt = 2\<rparr>"
  let ?o = "\<lparr>vw_arr = replicate 2 \<lparr>iov_base = 0, iov_len = 0\<rparr>, vw_iov = 0, vw_iovcnt = 2\<rparr>"
  obtain r o' where s: "slice 3 1 ?v (Some ?o) = (r, Some o')"
    by (cases "slice_loop (vw_list ?v) 3 1 0 0 0 ?o") (simp add: slice_def)
  have list: "vw_list ?v = [\<lparr>iov_base = 100, iov_len = 3\<rparr>, \<lparr>iov_base = 200, iov_len = 4\<rparr>]"
    by (simp add: vw_list_def)
  have "r = 3 \<and> iov_bytes (\<lambda>a. word_of_nat a) (vw_list o') = [101, 102, 200]"
    using slice_correct_in_first_element [OF _ _ list _ _ _ s, of "\<lambda>a. word_of_nat a"]
    unfolding list by (simp add: vw_wf_def bytes_at_def upt_rec)
  then show ?thesis
    using s by (simp only: Let_def prod.case option.sel simp_thms)
qed

text \<open>(C7) \<^verbatim>\<open>slice\<close> adds the length of an element to its position only when it takes the
  element. When every element is at most \<open>offset\<close> bytes long it therefore finds nothing,
  however many bytes the view holds after \<open>offset\<close>.\<close>

theorem slice_empty_beyond_first_element:
  assumes "\<forall>e \<in> set (vw_list v). int (iov_len e) \<le> offset" "vw_iovcnt out \<noteq> 0"
  shows "slice count offset v (Some out) = (0, Some (out\<lparr>vw_iovcnt := 0\<rparr>))"
  using slice_loop_none [OF assms(1)] assms(2) by (simp add: slice_def)

theorem slice_empty_beyond_first_element_witness:
  "let v = \<lparr>vw_arr = [\<lparr>iov_base = 100, iov_len = 2\<rparr>, \<lparr>iov_base = 200, iov_len = 2\<rparr>],
            vw_iov = 0, vw_iovcnt = 2\<rparr>
   in vw_sum v = 4 \<and> fst (slice 2 2 v (Some v)) = 0"
  using slice_empty_beyond_first_element
    [of "\<lparr>vw_arr = [\<lparr>iov_base = 100, iov_len = 2\<rparr>, \<lparr>iov_base = 200, iov_len = 2\<rparr>],
            vw_iov = 0, vw_iovcnt = 2\<rparr>" 2]
  by (simp add: vw_sum_def vw_list_def)

end
