(* ===== verification/Iovector.thy ===== *)
theory Iovector
  imports Iovec_Contracts
begin

section \<open>The owning iovector\<close>

text \<open>
  Model of \<^verbatim>\<open>class iovector\<close> and of \<^verbatim>\<open>IOVectorEntity\<close> (src/src/huibuffer/iovector.h): an array of
  iovecs that is used between \<^verbatim>\<open>iov_begin\<close> and \<^verbatim>\<open>iov_end\<close>, with free entries at both sides.
  Most operations work on a view of the used part and then move one of the two indices. The
  array is \<open>iv_iovs\<close>, whose length is the storage behind the object; \<open>iv_capacity\<close> is what
  the object believes it has. \<open>None\<close> is a failed assertion or a write out of the storage.
  Allocation is \<^verbatim>\<open>malloc\<close>, which is taken to succeed.
\<close>

record iovector =
  iv_capacity :: nat
  iv_begin :: nat
  iv_end :: nat
  iv_nbases :: nat
  iv_iovs :: "iovec list"

definition INT_MAX :: nat where
  "INT_MAX = 2147483647"

definition iv_do_assert :: "iovector \<Rightarrow> unit option" where
  "iv_do_assert v = do {
     cassert (iv_begin v \<le> iv_end v);
     cassert (iv_end v \<le> iv_capacity v);
     cassert (iv_nbases v \<le> iv_capacity v)
   }"

definition iovector_new :: "iovec list \<Rightarrow> nat \<Rightarrow> nat \<Rightarrow> iovector" where
  "iovector_new storage cap preserve =
    \<lparr>iv_capacity = cap, iv_begin = preserve, iv_end = preserve, iv_nbases = 0, iv_iovs = storage\<rparr>"

definition IOVectorEntity_of :: "iovec list \<Rightarrow> iovec list \<Rightarrow> nat \<Rightarrow> iovector option" where
  "IOVectorEntity_of storage iov preserve = do {
     let cap = length storage;
     let v = iovector_new storage cap preserve;
     cassert (length iov + preserve < cap);
     iv_do_assert v;
     Some (v\<lparr>iv_iovs := take preserve storage @ iov @ drop (preserve + length iov) storage,
             iv_end := u16_of (iv_end v + length iov)\<rparr>)
   }"

subsection \<open>Access\<close>

definition iv_iovcnt :: "iovector \<Rightarrow> nat option" where
  "iv_iovcnt v = do { iv_do_assert v; Some (iv_end v - iv_begin v) }"

definition iv_empty :: "iovector \<Rightarrow> bool option" where
  "iv_empty v = do { iv_do_assert v; Some (iv_begin v \<ge> iv_end v) }"

definition iv_view :: "iovector \<Rightarrow> iovector_view option" where
  "iv_view v = do {
     cnt \<leftarrow> iv_iovcnt v;
     Some \<lparr>vw_arr = iv_iovs v, vw_iov = iv_begin v, vw_iovcnt = cnt\<rparr>
   }"

definition iv_sum :: "iovector \<Rightarrow> nat option" where
  "iv_sum v = do { iv_do_assert v; va \<leftarrow> iv_view v; Some (vw_sum va) }"

definition iv_at :: "iovector \<Rightarrow> nat \<Rightarrow> iovec option" where
  "iv_at v i = do {
     iv_do_assert v;
     cassert (iv_begin v + i < iv_end v);
     cassert (iv_begin v + i < length (iv_iovs v));
     Some (iv_iovs v ! (iv_begin v + i))
   }"

definition back_free_iovcnt :: "iovector \<Rightarrow> (nat \<times> iovector) option" where
  "back_free_iovcnt v = do {
     iv_do_assert v;
     let v' = (if iv_capacity v = 0 then v\<lparr>iv_capacity := 2300\<rparr> else v);
     Some (iv_capacity v' - iv_end v', v')
   }"

definition iv_resize :: "nat \<Rightarrow> iovector \<Rightarrow> iovector option" where
  "iv_resize nn v = do {
     let v' = v\<lparr>iv_end := u16_of (iv_begin v + nn)\<rparr>;
     cassert (iv_end v' \<le> iv_capacity v');
     Some v'
   }"

subsection \<open>Push and pop\<close>

definition iv_push_front :: "iovec \<Rightarrow> iovector \<Rightarrow> (nat \<times> iovector) option" where
  "iv_push_front e v = do {
     iv_do_assert v;
     if iv_begin v > 0 then do {
       cassert (iv_begin v - 1 < length (iv_iovs v));
       Some (iov_len e, v\<lparr>iv_begin := iv_begin v - 1, iv_iovs := (iv_iovs v)[iv_begin v - 1 := e]\<rparr>)
     } else Some (0, v)
   }"

definition iv_push_back :: "iovec \<Rightarrow> iovector \<Rightarrow> (nat \<times> iovector) option" where
  "iv_push_back e v = do {
     iv_do_assert v;
     if iv_end v < iv_capacity v then do {
       cassert (iv_end v < length (iv_iovs v));
       Some (iov_len e, v\<lparr>iv_end := iv_end v + 1, iv_iovs := (iv_iovs v)[iv_end v := e]\<rparr>)
     } else Some (0, v)
   }"

definition iv_push_back_buf :: "nat \<Rightarrow> nat \<Rightarrow> iovector \<Rightarrow> (nat \<times> iovector) option" where
  "iv_push_back_buf buf sz v =
     iv_push_back \<lparr>iov_base = buf, iov_len = sz\<rparr> (v\<lparr>iv_capacity := 2300\<rparr>)"

definition iv_do_malloc :: "nat \<Rightarrow> iovector \<Rightarrow> heap \<Rightarrow> (nat \<times> heap) option" where
  "iv_do_malloc sz v h = do {
     iv_do_assert v;
     cassert (iv_nbases v < iv_capacity v);
     cassert (sz \<le> INT_MAX);
     Some (malloc h sz)
   }"

definition new_iovec :: "nat \<Rightarrow> iovector \<Rightarrow> heap \<Rightarrow> (iovec \<times> heap) option" where
  "new_iovec sz v h = do {
     iv_do_assert v;
     cassert (iv_nbases v < iv_capacity v);
     let s = (if sz \<le> INT_MAX then sz else INT_MAX);
     let (ptr, h') = malloc h sz;
     Some (\<lparr>iov_base = ptr, iov_len = s\<rparr>, h')
   }"

function push_front_more_loop ::
  "nat \<Rightarrow> iovector \<Rightarrow> heap \<Rightarrow> (nat \<times> iovector \<times> heap) option" where
  "push_front_more_loop bytes v h =
    (if bytes = 0 \<or> iv_begin v = 0 then Some (bytes, v, h)
     else case new_iovec bytes v h of
       None \<Rightarrow> None
     | Some (e, h') \<Rightarrow>
        if iov_len e = 0 then Some (bytes, v, h')
        else case iv_push_front e v of
          None \<Rightarrow> None
        | Some (_, v') \<Rightarrow> push_front_more_loop (bytes - iov_len e) v' h')"
  by pat_completeness auto
termination by (relation "measure (\<lambda>(bytes, _, _). bytes)") auto

function push_back_more_loop ::
  "nat \<Rightarrow> iovector \<Rightarrow> heap \<Rightarrow> (nat \<times> iovector \<times> heap) option" where
  "push_back_more_loop bytes v h =
    (if bytes = 0 then Some (bytes, v, h)
     else case new_iovec bytes v h of
       None \<Rightarrow> None
     | Some (e, h') \<Rightarrow>
        if iov_len e = 0 then Some (bytes, v, h')
        else case iv_push_back e v of
          None \<Rightarrow> None
        | Some (_, v') \<Rightarrow> push_back_more_loop (bytes - iov_len e) v' h')"
  by pat_completeness auto
termination by (relation "measure (\<lambda>(bytes, _, _). bytes)") auto

declare push_front_more_loop.simps [simp del] push_back_more_loop.simps [simp del]

definition push_front_more :: "nat \<Rightarrow> iovector \<Rightarrow> heap \<Rightarrow> (nat \<times> iovector \<times> heap) option" where
  "push_front_more bytes v h = do {
     (rest, v', h') \<leftarrow> push_front_more_loop bytes v h;
     Some (bytes - rest, v', h')
   }"

definition push_back_more :: "nat \<Rightarrow> iovector \<Rightarrow> heap \<Rightarrow> (nat \<times> iovector \<times> heap) option" where
  "push_back_more bytes v h = do {
     (rest, v', h') \<leftarrow> push_back_more_loop bytes v h;
     Some (bytes - rest, v', h')
   }"

definition iv_push_front_bytes :: "nat \<Rightarrow> iovector \<Rightarrow> heap \<Rightarrow> (nat \<times> iovector \<times> heap) option" where
  "iv_push_front_bytes bytes v h = do {
     (e, h1) \<leftarrow> new_iovec bytes v h;
     if iov_len e = 0 then Some (0, v, h1)
     else do {
       (r, v1) \<leftarrow> iv_push_front e v;
       if r = bytes then Some (bytes, v1, h1)
       else do {
         (k, v2, h2) \<leftarrow> push_front_more (bytes - iov_len e) v1 h1;
         Some (iov_len e + k, v2, h2)
       }
     }
   }"

definition iv_push_back_bytes :: "nat \<Rightarrow> iovector \<Rightarrow> heap \<Rightarrow> (nat \<times> iovector \<times> heap) option" where
  "iv_push_back_bytes bytes v h = do {
     (e, h1) \<leftarrow> new_iovec bytes v h;
     if iov_len e = 0 then Some (0, v, h1)
     else do {
       (r, v1) \<leftarrow> iv_push_back e v;
       if r = bytes then Some (bytes, v1, h1)
       else do {
         (k, v2, h2) \<leftarrow> push_back_more (bytes - iov_len e) v1 h1;
         Some (iov_len e + k, v2, h2)
       }
     }
   }"

definition iv_pop_front :: "iovector \<Rightarrow> (nat \<times> iovector) option" where
  "iv_pop_front v = do {
     iv_do_assert v;
     e \<leftarrow> iv_empty v;
     if e then Some (0, v)
     else Some (iov_len (iv_iovs v ! iv_begin v), v\<lparr>iv_begin := iv_begin v + 1\<rparr>)
   }"

definition iv_pop_back :: "iovector \<Rightarrow> (nat \<times> iovector) option" where
  "iv_pop_back v = do {
     iv_do_assert v;
     e \<leftarrow> iv_empty v;
     if e then Some (0, v)
     else Some (iov_len (iv_iovs v ! (iv_end v - 1)), v\<lparr>iv_end := iv_end v - 1\<rparr>)
   }"

definition iv_clear :: "iovector \<Rightarrow> iovector option" where
  "iv_clear v = do { iv_do_assert v; Some (v\<lparr>iv_end := iv_begin v\<rparr>) }"

subsection \<open>Shrinking and extraction\<close>

text \<open>After an operation on its view the vector keeps the entries as the view wrote them.
  Extraction from the front moves \<^verbatim>\<open>iov_begin\<close> to \<^verbatim>\<open>iov_end - va.iovcnt\<close>, extraction from the
  back moves \<^verbatim>\<open>iov_end\<close> to \<^verbatim>\<open>iov_begin + va.iovcnt\<close>.\<close>

definition iv_set_front :: "iovector_view \<Rightarrow> iovector \<Rightarrow> iovector" where
  "iv_set_front va v = v\<lparr>iv_iovs := vw_arr va, iv_begin := iv_end v - vw_iovcnt va\<rparr>"

definition iv_set_back :: "iovector_view \<Rightarrow> iovector \<Rightarrow> iovector" where
  "iv_set_back va v = v\<lparr>iv_iovs := vw_arr va, iv_end := iv_begin v + vw_iovcnt va\<rparr>"

definition iv_shrink_to :: "nat \<Rightarrow> iovector \<Rightarrow> (nat \<times> iovector) option" where
  "iv_shrink_to sz v = do {
     va \<leftarrow> iv_view v;
     let (ret, va') = shrink_to sz va;
     let v' = v\<lparr>iv_iovs := vw_arr va'\<rparr>;
     Some (ret, if ret = sz then v'\<lparr>iv_end := iv_begin v + vw_iovcnt va'\<rparr> else v')
   }"

definition iv_truncate :: "nat \<Rightarrow> iovector \<Rightarrow> heap \<Rightarrow> (nat \<times> iovector \<times> heap) option" where
  "iv_truncate sz v h = do {
     (ret, v') \<leftarrow> iv_shrink_to sz v;
     if ret = sz then Some (sz, v', h)
     else do {
       (k, v'', h') \<leftarrow> iv_push_back_bytes (sz - ret) v' h;
       Some (ret + k, v'', h')
     }
   }"

definition iv_extract_front :: "nat \<Rightarrow> iovector \<Rightarrow> (int \<times> iovector) option" where
  "iv_extract_front bytes v = do {
     va \<leftarrow> iv_view v;
     let (ret, va') = extract_front bytes va;
     Some (ret, iv_set_front va' v)
   }"

definition iv_extract_front_buf :: "nat \<Rightarrow> nat \<Rightarrow> iovector \<Rightarrow> heap \<Rightarrow> (int \<times> iovector \<times> heap) option" where
  "iv_extract_front_buf bytes buf v h = do {
     va \<leftarrow> iv_view v;
     let (ret, va', m') = extract_front_buf bytes buf va (hmem h);
     Some (ret, iv_set_front va' v, h\<lparr>hmem := m'\<rparr>)
   }"

text \<open>An output view with no entries gets an array of its own, whose contents are not
  initialised; \<open>junk\<close> stands for them.\<close>

definition out_view :: "iovec list \<Rightarrow> iovector \<Rightarrow> iovector_view \<Rightarrow> heap \<Rightarrow> (iovector_view \<times> heap) option"
where
  "out_view junk v out h =
    (if vw_iovcnt out = 0 then do {
       cnt \<leftarrow> iv_iovcnt v;
       (ptr, h') \<leftarrow> iv_do_malloc (cnt * 16) v h;
       Some (\<lparr>vw_arr = take cnt (junk @ replicate cnt \<lparr>iov_base = 0, iov_len = 0\<rparr>),
              vw_iov = 0, vw_iovcnt = cnt\<rparr>, h')
     } else Some (out, h))"

definition iv_extract_front_view ::
  "iovec list \<Rightarrow> nat \<Rightarrow> iovector_view \<Rightarrow> iovector \<Rightarrow> heap
    \<Rightarrow> (int \<times> iovector_view \<times> iovector \<times> heap) option" where
  "iv_extract_front_view junk bytes out v h =
    (if bytes = 0 then Some (0, out, v, h)
     else do {
       (out1, h1) \<leftarrow> out_view junk v out h;
       va \<leftarrow> iv_view v;
       let (ret, va', out') = extract_front_view bytes out1 va;
       Some (ret, out', iv_set_front va' v, h1)
     })"

definition iv_extract_front_iov ::
  "nat \<Rightarrow> iovector option \<Rightarrow> iovector \<Rightarrow> (int \<times> iovector option \<times> iovector) option" where
  "iv_extract_front_iov bytes iov v =
    (case iov of
       None \<Rightarrow> Some (- 1, None, v)
     | Some i \<Rightarrow>
        if bytes = 0 then Some (0, Some i, v)
        else do {
          cnt \<leftarrow> iv_iovcnt v;
          i1 \<leftarrow> iv_resize cnt i;
          vi \<leftarrow> iv_view i1;
          va \<leftarrow> iv_view v;
          let (ret, va', vi') = extract_front_view bytes vi va;
          let i2 = i1\<lparr>iv_iovs := vw_arr vi'\<rparr>;
          let i3 = (if ret \<ge> 0
                    then i2\<lparr>iv_begin := vw_iov vi', iv_end := vw_iov vi' + vw_iovcnt vi'\<rparr>
                    else i2);
          Some (ret, Some i3, iv_set_front va' v)
        })"

definition iv_extract_front_continuous ::
  "nat \<Rightarrow> iovector \<Rightarrow> heap \<Rightarrow> (nat option \<times> iovector \<times> heap) option" where
  "iv_extract_front_continuous bytes v h = do {
     va \<leftarrow> iv_view v;
     let (ptr, va') = vw_extract_front_continuous bytes va;
     let v1 = v\<lparr>iv_iovs := vw_arr va'\<rparr>;
     (case ptr of
        Some p \<Rightarrow> do {
          iv_do_assert v1;
          Some (Some p,
                if iov_len (iv_iovs v1 ! iv_begin v1) = 0 then v1\<lparr>iv_begin := iv_begin v1 + 1\<rparr> else v1,
                h)
        }
      | None \<Rightarrow> do {
          (buf, h1) \<leftarrow> iv_do_malloc bytes v1 h;
          (ret, v2, h2) \<leftarrow> iv_extract_front_buf bytes buf v1 h1;
          Some (if ret = int bytes then Some buf else None, v2, h2)
        })
   }"

definition iv_extract_back :: "nat \<Rightarrow> iovector \<Rightarrow> (int \<times> iovector) option" where
  "iv_extract_back bytes v = do {
     va \<leftarrow> iv_view v;
     let (ret, va') = extract_back bytes va;
     Some (ret, iv_set_back va' v)
   }"

definition iv_extract_back_buf :: "nat \<Rightarrow> nat \<Rightarrow> iovector \<Rightarrow> heap \<Rightarrow> (int \<times> iovector \<times> heap) option" where
  "iv_extract_back_buf bytes buf v h = do {
     va \<leftarrow> iv_view v;
     let (ret, va', m') = extract_back_buf bytes buf va (hmem h);
     Some (ret, iv_set_back va' v, h\<lparr>hmem := m'\<rparr>)
   }"

definition iv_extract_back_view ::
  "iovec list \<Rightarrow> nat \<Rightarrow> iovector_view \<Rightarrow> iovector \<Rightarrow> heap
    \<Rightarrow> (int \<times> iovector_view \<times> iovector \<times> heap) option" where
  "iv_extract_back_view junk bytes out v h =
    (if bytes = 0 then Some (0, out, v, h)
     else do {
       (out1, h1) \<leftarrow> out_view junk v out h;
       va \<leftarrow> iv_view v;
       let (ret, va', out') = extract_back_view bytes out1 va;
       Some (ret, out', iv_set_back va' v, h1)
     })"

definition iv_extract_back_iov ::
  "nat \<Rightarrow> iovector option \<Rightarrow> iovector \<Rightarrow> (int \<times> iovector option \<times> iovector) option" where
  "iv_extract_back_iov bytes iov v =
    (case iov of
       None \<Rightarrow> Some (- 1, None, v)
     | Some i \<Rightarrow>
        if bytes = 0 then Some (0, Some i, v)
        else do {
          cnt \<leftarrow> iv_iovcnt v;
          i1 \<leftarrow> iv_resize cnt i;
          vi \<leftarrow> iv_view i1;
          va \<leftarrow> iv_view v;
          let (ret, va', vi') = extract_back_view bytes vi va;
          let i2 = i1\<lparr>iv_iovs := vw_arr vi'\<rparr>;
          let i3 = (if ret \<ge> 0
                    then i2\<lparr>iv_begin := vw_iov vi', iv_end := vw_iov vi' + vw_iovcnt vi'\<rparr>
                    else i2);
          Some (ret, Some i3, iv_set_back va' v)
        })"

definition iv_extract_back_continuous ::
  "nat \<Rightarrow> iovector \<Rightarrow> heap \<Rightarrow> (nat option \<times> iovector \<times> heap) option" where
  "iv_extract_back_continuous bytes v h = do {
     va \<leftarrow> iv_view v;
     let (ptr, va') = vw_extract_back_continuous bytes va;
     let v1 = v\<lparr>iv_iovs := vw_arr va'\<rparr>;
     (case ptr of
        Some p \<Rightarrow> Some (Some p, v1, h)
      | None \<Rightarrow> do {
          (buf, h1) \<leftarrow> iv_do_malloc bytes v1 h;
          (ret, v2, h2) \<leftarrow> iv_extract_back_buf bytes buf v1 h1;
          Some (if ret = int bytes then Some buf else None, v2, h2)
        })
   }"

definition iv_slice ::
  "iovec list \<Rightarrow> nat \<Rightarrow> int \<Rightarrow> iovector_view \<Rightarrow> iovector \<Rightarrow> heap \<Rightarrow> (int \<times> iovector_view \<times> heap) option"
where
  "iv_slice junk count offset out v h =
    (if count = 0 then Some (0, out, h)
     else do {
       (out1, h1) \<leftarrow> out_view junk v out h;
       va \<leftarrow> iv_view v;
       (case slice count offset va (Some out1) of
          (r, Some out2) \<Rightarrow> Some (r, out2, h1)
        | (r, None) \<Rightarrow> Some (r, out1, h1))
     })"

section \<open>Invariant and list view\<close>

definition iv_ok :: "iovector \<Rightarrow> bool" where
  "iv_ok v \<longleftrightarrow> iv_begin v \<le> iv_end v \<and> iv_end v \<le> iv_capacity v \<and> iv_nbases v \<le> iv_capacity v \<and>
     iv_capacity v \<le> length (iv_iovs v)"

definition iv_list :: "iovector \<Rightarrow> iovec list" where
  "iv_list v = take (iv_end v - iv_begin v) (drop (iv_begin v) (iv_iovs v))"

lemma iv_do_assert_ok [simp]: "iv_ok v \<Longrightarrow> iv_do_assert v = Some ()"
  by (simp add: iv_do_assert_def iv_ok_def)

lemma iv_view_ok:
  assumes "iv_ok v"
  obtains w where "iv_view v = Some w" "vw_wf w" "vw_list w = iv_list v"
    "vw_arr w = iv_iovs v" "vw_iov w = iv_begin v" "vw_iov w + vw_iovcnt w = iv_end v"
proof
  let ?w = "\<lparr>vw_arr = iv_iovs v, vw_iov = iv_begin v, vw_iovcnt = iv_end v - iv_begin v\<rparr>"
  show "iv_view v = Some ?w"
    using assms by (simp add: iv_view_def iv_iovcnt_def)
  show "vw_wf ?w" "vw_iov ?w + vw_iovcnt ?w = iv_end v"
    using assms by (auto simp: vw_wf_def iv_ok_def)
qed (simp_all add: vw_list_def iv_list_def)

lemma length_iv_list [simp]: "iv_ok v \<Longrightarrow> length (iv_list v) = iv_end v - iv_begin v"
  by (auto simp: iv_ok_def iv_list_def)

lemma iv_list_Suc_begin: "iv_list (v\<lparr>iv_begin := iv_begin v + 1\<rparr>) = tl (iv_list v)"
  by (simp add: iv_list_def tl_take tl_drop drop_Suc)

lemma iv_set_front_spec:
  assumes "iv_ok v" "vw_wf w" "vw_arr w = iv_iovs v" "vw_iov w = iv_begin v"
    "vw_iov w + vw_iovcnt w = iv_end v"
    and "vw_frame w w'" "vw_iov w' + vw_iovcnt w' = vw_iov w + vw_iovcnt w"
  shows "iv_ok (iv_set_front w' v) \<and> iv_list (iv_set_front w' v) = vw_list w'"
proof -
  have "iv_end v - vw_iovcnt w' = vw_iov w'" "vw_iovcnt w' = iv_end v - vw_iov w'"
    using assms(5,7) by simp_all
  then show ?thesis
    using assms by (simp add: iv_ok_def iv_set_front_def iv_list_def vw_list_def vw_frame_def)
qed

lemma iv_set_back_spec:
  assumes "iv_ok v" "vw_wf w" "vw_arr w = iv_iovs v" "vw_iov w = iv_begin v"
    "vw_iov w + vw_iovcnt w = iv_end v"
    and "vw_frame w w'" "vw_iov w' = vw_iov w"
  shows "iv_ok (iv_set_back w' v) \<and> iv_list (iv_set_back w' v) = vw_list w'"
  using assms by (auto simp: iv_ok_def iv_set_back_def iv_list_def vw_list_def vw_frame_def)

lemma iv_set_fields [simp]:
  "iv_capacity (iv_set_front w v) = iv_capacity v" "iv_nbases (iv_set_front w v) = iv_nbases v"
  "iv_capacity (iv_set_back w v) = iv_capacity v" "iv_nbases (iv_set_back w v) = iv_nbases v"
  by (simp_all add: iv_set_front_def iv_set_back_def)

subsection \<open>Push and pop\<close>

lemma iv_push_front_spec:
  assumes "iv_ok v" "0 < iv_begin v"
  obtains v' where "iv_push_front e v = Some (iov_len e, v')" "iv_list v' = e # iv_list v" "iv_ok v'"
    "iv_begin v' = iv_begin v - 1" "iv_end v' = iv_end v" "iv_capacity v' = iv_capacity v"
    "iv_nbases v' = iv_nbases v" "length (iv_iovs v') = length (iv_iovs v)"
proof
  let ?v = "v\<lparr>iv_begin := iv_begin v - 1, iv_iovs := (iv_iovs v)[iv_begin v - 1 := e]\<rparr>"
  show "iv_push_front e v = Some (iov_len e, ?v)"
    using assms by (simp add: iv_push_front_def) (auto simp: iv_ok_def)
  show "iv_list ?v = e # iv_list v"
    using assms by (auto simp: iv_list_def iv_ok_def take_drop_update_hd)
  show "iv_ok ?v"
    using assms by (auto simp: iv_ok_def)
qed simp_all

lemma iv_push_back_spec:
  assumes "iv_ok v" "iv_end v < iv_capacity v"
  obtains v' where "iv_push_back e v = Some (iov_len e, v')" "iv_list v' = iv_list v @ [e]" "iv_ok v'"
    "iv_begin v' = iv_begin v" "iv_end v' = iv_end v + 1" "iv_capacity v' = iv_capacity v"
    "iv_nbases v' = iv_nbases v" "length (iv_iovs v') = length (iv_iovs v)"
proof
  let ?v = "v\<lparr>iv_end := iv_end v + 1, iv_iovs := (iv_iovs v)[iv_end v := e]\<rparr>"
  show "iv_push_back e v = Some (iov_len e, ?v)"
    using assms by (simp add: iv_push_back_def) (auto simp: iv_ok_def)
  have "Suc (iv_end v) - iv_begin v = Suc (iv_end v - iv_begin v)"
    using assms by (simp add: iv_ok_def Suc_diff_le)
  then show "iv_list ?v = iv_list v @ [e]"
    using assms by (auto simp: iv_list_def iv_ok_def take_Suc_update drop_update_swap)
  show "iv_ok ?v"
    using assms by (auto simp: iv_ok_def)
qed simp_all

lemma iv_push_full:
  assumes "iv_ok v"
  shows "iv_begin v = 0 \<Longrightarrow> iv_push_front e v = Some (0, v)"
    "iv_end v = iv_capacity v \<Longrightarrow> iv_push_back e v = Some (0, v)"
  using assms by (simp_all add: iv_push_front_def iv_push_back_def)

lemma iv_pop_spec:
  assumes "iv_ok v" "iv_begin v < iv_end v"
  shows "\<exists>v'. iv_pop_front v = Some (iov_len (hd (iv_list v)), v') \<and> iv_list v' = tl (iv_list v) \<and> iv_ok v'"
    "\<exists>v'. iv_pop_back v = Some (iov_len (last (iv_list v)), v') \<and> iv_list v' = butlast (iv_list v) \<and> iv_ok v'"
proof -
  have "iv_begin v < length (iv_iovs v)"
    using assms by (simp add: iv_ok_def)
  then have "iv_list v = iv_iovs v ! iv_begin v # take (iv_end v - iv_begin v - 1) (drop (Suc (iv_begin v)) (iv_iovs v))"
    using assms(2) by (simp add: iv_list_def take_drop_Cons)
  then show "\<exists>v'. iv_pop_front v = Some (iov_len (hd (iv_list v)), v') \<and> iv_list v' = tl (iv_list v) \<and> iv_ok v'"
    using assms by (simp add: iv_pop_front_def iv_empty_def) (simp add: iv_list_def iv_ok_def)
  have len: "length (iv_list v) = iv_end v - iv_begin v"
    using assms(1) by simp
  moreover have "iv_list v ! (iv_end v - iv_begin v - 1) = iv_iovs v ! (iv_end v - 1)"
    using assms by (simp add: iv_list_def iv_ok_def)
  ultimately have last: "last (iv_list v) = iv_iovs v ! (iv_end v - 1)"
    using assms(2) by (metis last_conv_nth length_0_conv zero_less_diff less_numeral_extra(3))
  have "butlast (iv_list v) = iv_list (v\<lparr>iv_end := iv_end v - 1\<rparr>)"
    using assms by (simp add: butlast_conv_take len) (simp add: iv_list_def min_def)
  then show "\<exists>v'. iv_pop_back v = Some (iov_len (last (iv_list v)), v') \<and> iv_list v' = butlast (iv_list v) \<and> iv_ok v'"
    using assms last by (simp add: iv_pop_back_def iv_empty_def) (auto simp: iv_ok_def)
qed

subsection \<open>Extraction of a continuous range\<close>

text \<open>\<open>iv_below h v\<close>: every buffer of \<open>v\<close> lies below the break of the heap.\<close>

definition iv_below :: "heap \<Rightarrow> iovector \<Rightarrow> bool" where
  "iv_below h v \<longleftrightarrow> (\<forall>e \<in> set (iv_list v). iov_base e + iov_len e \<le> hbrk h)"

definition iv_inv :: "iovector \<times> heap \<Rightarrow> bool" where
  "iv_inv s \<longleftrightarrow> iv_ok (fst s) \<and> iv_below (snd s) (fst s) \<and>
     iv_nbases (fst s) < iv_capacity (fst s) \<and> iv_capacity (fst s) < 65536"

definition heap_le :: "heap \<Rightarrow> heap \<Rightarrow> bool" where
  "heap_le h h' \<longleftrightarrow> hbrk h \<le> hbrk h' \<and> (\<forall>a < hbrk h. hmem h' a = hmem h a)"

lemma heap_le_refl [simp]: "heap_le h h"
  by (simp add: heap_le_def)

lemma heap_le_trans: "heap_le h h' \<Longrightarrow> heap_le h' h'' \<Longrightarrow> heap_le h h''"
  by (simp add: heap_le_def)

lemma heap_le_bytes_at: "heap_le h h' \<Longrightarrow> p + n \<le> hbrk h \<Longrightarrow> bytes_at (hmem h') p n = bytes_at (hmem h) p n"
  by (rule bytes_at_cong) (auto simp: heap_le_def)

lemma heap_le_iov_bytes:
  "heap_le h h' \<Longrightarrow> \<forall>e \<in> set es. iov_base e + iov_len e \<le> hbrk h \<Longrightarrow>
     iov_bytes (hmem h') es = iov_bytes (hmem h) es"
  by (induction es) (auto simp: heap_le_bytes_at)

lemma drop_bytes_below:
  "\<forall>e \<in> set es. iov_base e + iov_len e \<le> (b::nat) \<Longrightarrow> \<forall>e \<in> set (drop_front_spec n es). iov_base e + iov_len e \<le> b"
proof -
  have "\<forall>e \<in> set es. iov_base e + iov_len e \<le> b \<Longrightarrow> \<forall>e \<in> set (drop_bytes n es). iov_base e + iov_len e \<le> b"
    by (induction n es rule: drop_bytes.induct) auto
  then show "\<forall>e \<in> set es. iov_base e + iov_len e \<le> b \<Longrightarrow> ?thesis"
    by (simp add: drop_front_spec_def)
qed

lemma take_bytes_below:
  "\<forall>e \<in> set es. iov_base e + iov_len e \<le> (b::nat) \<Longrightarrow> \<forall>e \<in> set (take_bytes n es). iov_base e + iov_len e \<le> b"
  by (induction n es rule: take_bytes.induct) auto

lemma drop_back_below:
  "\<forall>e \<in> set es. iov_base e + iov_len e \<le> (b::nat) \<Longrightarrow> \<forall>e \<in> set (drop_back_spec n es). iov_base e + iov_len e \<le> b"
proof -
  have "\<forall>e \<in> set es. iov_base e + iov_len e \<le> b \<Longrightarrow> \<forall>e \<in> set (drop_back n es). iov_base e + iov_len e \<le> b" for es
    by (induction n es rule: drop_back.induct) auto
  from this [of "rev es"] show "\<forall>e \<in> set es. iov_base e + iov_len e \<le> b \<Longrightarrow> ?thesis"
    by (simp add: drop_back_spec_def)
qed

lemma iv_do_malloc_ok:
  "iv_ok v \<Longrightarrow> iv_nbases v < iv_capacity v \<Longrightarrow> sz \<le> INT_MAX \<Longrightarrow>
     iv_do_malloc sz v h = Some (hbrk h, h\<lparr>hbrk := hbrk h + sz\<rparr>)"
  by (simp add: iv_do_malloc_def malloc_def)

lemma iv_disj_brk: "iv_below h v \<Longrightarrow> iov_disj (iv_list v) (hbrk h) n"
  by (auto simp: iv_below_def iov_disj_def)

lemma iv_extract_front_fresh:
  assumes "iv_inv (v, h)"
  obtains v' h' where
    "iv_extract_front_buf n (hbrk h) v (h\<lparr>hbrk := hbrk h + n\<rparr>) =
       Some (int (min n (iov_sum (iv_list v))), v', h')"
    "iv_inv (v', h')" "heap_le h h'" "hbrk h' = hbrk h + n"
    "bytes_at (hmem h') (hbrk h) (min n (iov_sum (iv_list v))) = take n (iov_bytes (hmem h) (iv_list v))"
    "iov_bytes (hmem h') (iv_list v') = drop n (iov_bytes (hmem h) (iv_list v))"
proof -
  have ok: "iv_ok v" and below: "iv_below h v" and cap: "iv_nbases v < iv_capacity v" "iv_capacity v < 65536"
    using assms by (auto simp: iv_inv_def)
  obtain w where w: "iv_view v = Some w" "vw_wf w" "vw_list w = iv_list v"
    "vw_arr w = iv_iovs v" "vw_iov w = iv_begin v" "vw_iov w + vw_iovcnt w = iv_end v"
    by (rule iv_view_ok [OF ok])
  have "iov_disj (vw_list w) (hbrk h) n"
    using iv_disj_brk [OF below] w(3) by simp
  then obtain w' m' where e:
    "extract_front_buf n (hbrk h) w (hmem h) = (int (min n (iov_sum (vw_list w))), w', m')"
    "vw_list w' = drop_front_spec n (vw_list w)" "vw_frame w w'"
    "vw_iov w' + vw_iovcnt w' = vw_iov w + vw_iovcnt w"
    "bytes_at m' (hbrk h) (min n (iov_sum (vw_list w))) = take n (iov_bytes (hmem h) (vw_list w))"
    "\<forall>a. a < hbrk h \<or> hbrk h + n \<le> a \<longrightarrow> m' a = hmem h a"
    by (rule extract_front_buf_spec [OF w(2)])
  let ?v = "iv_set_front w' v" and ?h = "h\<lparr>hbrk := hbrk h + n, hmem := m'\<rparr>"
  have set: "iv_ok ?v \<and> iv_list ?v = vw_list w'"
    by (rule iv_set_front_spec [OF ok w(2,4,5,6) e(3,4)])
  have le: "heap_le h ?h"
    using e(6) by (simp add: heap_le_def)
  have bel: "\<forall>x \<in> set (vw_list w'). iov_base x + iov_len x \<le> hbrk h"
    using drop_bytes_below [of "iv_list v" "hbrk h" n] below e(2) w(3) by (simp add: iv_below_def)
  show thesis
  proof (rule that [of ?v ?h])
    show "iv_extract_front_buf n (hbrk h) v (h\<lparr>hbrk := hbrk h + n\<rparr>) =
        Some (int (min n (iov_sum (iv_list v))), ?v, ?h)"
      using w(1,3) e(1) by (simp add: iv_extract_front_buf_def)
    show "iv_inv (?v, ?h)"
      using set bel cap by (auto simp: iv_inv_def iv_below_def)
    show "iov_bytes (hmem ?h) (iv_list ?v) = drop n (iov_bytes (hmem h) (iv_list v))"
      using heap_le_iov_bytes [OF le bel] set e(2) w(3) by simp
  qed (use le e(5) w(3) in simp_all)
qed

lemma iv_extract_back_fresh:
  assumes "iv_inv (v, h)"
  obtains v' h' where
    "iv_extract_back_buf n (hbrk h) v (h\<lparr>hbrk := hbrk h + n\<rparr>) =
       Some (int (min n (iov_sum (iv_list v))), v', h')"
    "iv_inv (v', h')" "heap_le h h'" "hbrk h' = hbrk h + n"
    "bytes_at (hmem h') (hbrk h + n - min n (iov_sum (iv_list v))) (min n (iov_sum (iv_list v))) =
       drop (iov_sum (iv_list v) - n) (iov_bytes (hmem h) (iv_list v))"
    "iov_bytes (hmem h') (iv_list v') = take (iov_sum (iv_list v) - n) (iov_bytes (hmem h) (iv_list v))"
proof -
  have ok: "iv_ok v" and below: "iv_below h v" and cap: "iv_nbases v < iv_capacity v" "iv_capacity v < 65536"
    using assms by (auto simp: iv_inv_def)
  obtain w where w: "iv_view v = Some w" "vw_wf w" "vw_list w = iv_list v"
    "vw_arr w = iv_iovs v" "vw_iov w = iv_begin v" "vw_iov w + vw_iovcnt w = iv_end v"
    by (rule iv_view_ok [OF ok])
  have "iov_disj (vw_list w) (hbrk h) n"
    using iv_disj_brk [OF below] w(3) by simp
  then obtain w' m' where e:
    "extract_back_buf n (hbrk h) w (hmem h) = (int (min n (iov_sum (vw_list w))), w', m')"
    "vw_list w' = drop_back_spec n (vw_list w)" "vw_frame w w'" "vw_iov w' = vw_iov w"
    "bytes_at m' (hbrk h + n - min n (iov_sum (vw_list w))) (min n (iov_sum (vw_list w)))
       = drop (iov_sum (vw_list w) - n) (iov_bytes (hmem h) (vw_list w))"
    "\<forall>a. a < hbrk h \<or> hbrk h + n \<le> a \<longrightarrow> m' a = hmem h a"
    by (rule extract_back_buf_spec [OF w(2)])
  let ?v = "iv_set_back w' v" and ?h = "h\<lparr>hbrk := hbrk h + n, hmem := m'\<rparr>"
  have set: "iv_ok ?v \<and> iv_list ?v = vw_list w'"
    by (rule iv_set_back_spec [OF ok w(2,4,5,6) e(3,4)])
  have le: "heap_le h ?h"
    using e(6) by (simp add: heap_le_def)
  have bel: "\<forall>x \<in> set (vw_list w'). iov_base x + iov_len x \<le> hbrk h"
    using drop_back_below [of "iv_list v" "hbrk h" n] below e(2) w(3) by (simp add: iv_below_def)
  show thesis
  proof (rule that [of ?v ?h])
    show "iv_extract_back_buf n (hbrk h) v (h\<lparr>hbrk := hbrk h + n\<rparr>) =
        Some (int (min n (iov_sum (iv_list v))), ?v, ?h)"
      using w(1,3) e(1) by (simp add: iv_extract_back_buf_def)
    show "iv_inv (?v, ?h)"
      using set bel cap by (auto simp: iv_inv_def iv_below_def)
    show "iov_bytes (hmem ?h) (iv_list ?v) = take (iov_sum (iv_list v) - n) (iov_bytes (hmem h) (iv_list v))"
      using heap_le_iov_bytes [OF le bel] set e(2) w(3) by simp
  qed (use le e(5) w(3) in simp_all)
qed

lemma length_vw_arr_set [simp]:
  "length (vw_arr (set_front e w)) = length (vw_arr w)"
  "length (vw_arr (set_back e w)) = length (vw_arr w)"
  by (simp_all add: set_front_def set_back_def)

lemma iv_list_of_view:
  assumes "iv_ok v" "vw_iov w = iv_begin v" "vw_iov w + vw_iovcnt w = iv_end v"
    "length (vw_arr w) = length (iv_iovs v)"
  shows "iv_list (v\<lparr>iv_iovs := vw_arr w\<rparr>) = vw_list w \<and> iv_ok (v\<lparr>iv_iovs := vw_arr w\<rparr>)"
proof -
  have "iv_end v - iv_begin v = vw_iovcnt w"
    using assms(2,3) by simp
  then show ?thesis
    using assms by (simp add: iv_list_def vw_list_def iv_ok_def)
qed

text \<open>What a client of \<^verbatim>\<open>extract_front_continuous\<close> and \<^verbatim>\<open>extract_back_continuous\<close> gets: a pointer to
  the requested bytes whenever enough bytes are left.\<close>

definition iv_bytes :: "iovector \<times> heap \<Rightarrow> u8 list" where
  "iv_bytes s = iov_bytes (hmem (snd s)) (iv_list (fst s))"

lemma iv_front_continuous_spec:
  assumes inv: "iv_inv (v, h)" and n: "n \<le> INT_MAX"
  obtains r v' h' where "iv_extract_front_continuous n v h = Some (r, v', h')" "iv_inv (v', h')"
    "heap_le h h'" "iv_bytes (v', h') = drop n (iv_bytes (v, h))"
    "if n \<le> length (iv_bytes (v, h))
     then \<exists>p. r = Some p \<and> p + n \<le> hbrk h' \<and> bytes_at (hmem h') p n = take n (iv_bytes (v, h))
     else r = None"
proof -
  have ok: "iv_ok v" and below: "iv_below h v" and cap: "iv_nbases v < iv_capacity v" "iv_capacity v < 65536"
    using inv by (auto simp: iv_inv_def)
  obtain w where w: "iv_view v = Some w" "vw_wf w" "vw_list w = iv_list v"
    "vw_arr w = iv_iovs v" "vw_iov w = iv_begin v" "vw_iov w + vw_iovcnt w = iv_end v"
    by (rule iv_view_ok [OF ok])
  show thesis
  proof (cases "vw_empty w \<or> iov_len (vw_front w) < n")
    case True
    obtain v' h' where e: "iv_extract_front_buf n (hbrk h) v (h\<lparr>hbrk := hbrk h + n\<rparr>) =
        Some (int (min n (iov_sum (iv_list v))), v', h')" "iv_inv (v', h')" "heap_le h h'" "hbrk h' = hbrk h + n"
      "bytes_at (hmem h') (hbrk h) (min n (iov_sum (iv_list v))) = take n (iov_bytes (hmem h) (iv_list v))"
      "iov_bytes (hmem h') (iv_list v') = drop n (iov_bytes (hmem h) (iv_list v))"
      by (rule iv_extract_front_fresh [OF inv])
    have "iv_extract_front_continuous n v h =
        Some (if min n (iov_sum (iv_list v)) = n then Some (hbrk h) else None, v', h')"
      using True w(1,4) e(1) iv_do_malloc_ok [OF ok cap(1) n]
      by (simp add: iv_extract_front_continuous_def vw_extract_front_continuous_def)
    with e show thesis
      by (intro that) (auto simp: iv_bytes_def min_def)
  next
    case False
    let ?f = "vw_front w"
    define f' where "f' = ?f\<lparr>iov_base := iov_base ?f + n, iov_len := iov_len ?f - n\<rparr>"
    let ?w = "set_front f' w" and ?v = "v\<lparr>iv_iovs := vw_arr (set_front f' w)\<rparr>"
    have list: "iv_list v = ?f # vw_list (pop_front w)"
      using vw_list_front [OF w(2)] False w(3) by metis
    have v1: "iv_list ?v = f' # vw_list (pop_front w)" "iv_ok ?v"
      using iv_list_of_view [OF ok, of ?w] w False by (simp_all add: view_simps)
    have front: "iv_iovs ?v ! iv_begin ?v = f'"
      using w(2) False by (simp add: set_front_def vw_wf_def vw_empty_def flip: w(5))
    define v2 where "v2 = (if iov_len f' = 0 then ?v\<lparr>iv_begin := iv_begin ?v + 1\<rparr> else ?v)"
    have v2: "iv_list v2 = (if iov_len f' = 0 then vw_list (pop_front w) else f' # vw_list (pop_front w))"
      using v1(1) iv_list_Suc_begin [of ?v] by (simp add: v2_def)
    have ok2: "iv_ok v2"
      using v1(2) w(5,6) False by (auto simp: v2_def iv_ok_def vw_empty_def)
    have res: "iv_extract_front_continuous n v h = Some (Some (iov_base ?f), v2, h)"
      using w(1) False v1(2) front
      by (simp add: iv_extract_front_continuous_def vw_extract_front_continuous_def f'_def v2_def Let_def)
    have bel: "iv_below h v2"
      using below list False v2 by (auto simp: iv_below_def f'_def)
    have "iv_nbases v2 < iv_capacity v2" "iv_capacity v2 < 65536"
      using cap by (simp_all add: v2_def)
    with ok2 bel have inv2: "iv_inv (v2, h)"
      by (simp add: iv_inv_def)
    have len: "iov_len ?f \<ge> n"
      using False by simp
    have bytes: "iv_bytes (v, h) = bytes_at (hmem h) (iov_base ?f) (iov_len ?f) @ iov_bytes (hmem h) (vw_list (pop_front w))"
      using list by (simp add: iv_bytes_def)
    have "iv_bytes (v2, h) = drop n (iv_bytes (v, h))"
      using len v2 unfolding bytes by (auto simp: iv_bytes_def f'_def drop_bytes_at)
    moreover have "iov_base ?f + n \<le> hbrk h"
      using below list len by (auto simp: iv_below_def)
    ultimately show thesis
      using that [OF res inv2 heap_le_refl] len unfolding bytes by (auto simp: take_bytes_at)
  qed
qed

lemma iv_back_continuous_spec:
  assumes inv: "iv_inv (v, h)" and n: "n \<le> INT_MAX"
  obtains r v' h' where "iv_extract_back_continuous n v h = Some (r, v', h')" "iv_inv (v', h')"
    "heap_le h h'" "iv_bytes (v', h') = take (length (iv_bytes (v, h)) - n) (iv_bytes (v, h))"
    "if n \<le> length (iv_bytes (v, h))
     then \<exists>p. r = Some p \<and> p + n \<le> hbrk h' \<and>
            bytes_at (hmem h') p n = drop (length (iv_bytes (v, h)) - n) (iv_bytes (v, h))
     else r = None"
proof -
  have ok: "iv_ok v" and below: "iv_below h v" and cap: "iv_nbases v < iv_capacity v" "iv_capacity v < 65536"
    using inv by (auto simp: iv_inv_def)
  obtain w where w: "iv_view v = Some w" "vw_wf w" "vw_list w = iv_list v"
    "vw_arr w = iv_iovs v" "vw_iov w = iv_begin v" "vw_iov w + vw_iovcnt w = iv_end v"
    by (rule iv_view_ok [OF ok])
  show thesis
  proof (cases "vw_empty w \<or> iov_len (vw_back w) < n")
    case True
    obtain v' h' where e: "iv_extract_back_buf n (hbrk h) v (h\<lparr>hbrk := hbrk h + n\<rparr>) =
        Some (int (min n (iov_sum (iv_list v))), v', h')" "iv_inv (v', h')" "heap_le h h'" "hbrk h' = hbrk h + n"
      "bytes_at (hmem h') (hbrk h + n - min n (iov_sum (iv_list v))) (min n (iov_sum (iv_list v))) =
         drop (iov_sum (iv_list v) - n) (iov_bytes (hmem h) (iv_list v))"
      "iov_bytes (hmem h') (iv_list v') = take (iov_sum (iv_list v) - n) (iov_bytes (hmem h) (iv_list v))"
      by (rule iv_extract_back_fresh [OF inv])
    have "iv_extract_back_continuous n v h =
        Some (if min n (iov_sum (iv_list v)) = n then Some (hbrk h) else None, v', h')"
      using True w(1,4) e(1) iv_do_malloc_ok [OF ok cap(1) n]
      by (simp add: iv_extract_back_continuous_def vw_extract_back_continuous_def)
    with e show thesis
      by (intro that) (auto simp: iv_bytes_def min_def)
  next
    case False
    let ?b = "vw_back w"
    define b' where "b' = ?b\<lparr>iov_len := iov_len ?b - n\<rparr>"
    let ?w = "set_back b' w" and ?v = "v\<lparr>iv_iovs := vw_arr (set_back b' w)\<rparr>"
    have list: "iv_list v = vw_list (pop_back w) @ [?b]"
      using vw_list_back [OF w(2)] False w(3) by metis
    have v1: "iv_list ?v = vw_list (pop_back w) @ [b']" "iv_ok ?v"
      using iv_list_of_view [OF ok, of ?w] w False by (simp_all add: view_simps)
    have res: "iv_extract_back_continuous n v h = Some (Some (iov_base ?b + (iov_len ?b - n)), ?v, h)"
      using w(1) False
      by (simp add: iv_extract_back_continuous_def vw_extract_back_continuous_def b'_def Let_def)
    have "iv_below h ?v"
      using below list v1(1) by (auto simp: iv_below_def b'_def)
    with v1(2) cap have inv2: "iv_inv (?v, h)"
      by (simp add: iv_inv_def)
    have len: "iov_len ?b \<ge> n"
      using False by simp
    have bytes: "iv_bytes (v, h) = iov_bytes (hmem h) (vw_list (pop_back w)) @ bytes_at (hmem h) (iov_base ?b) (iov_len ?b)"
      using list by (simp add: iv_bytes_def)
    have "iv_bytes (?v, h) = take (length (iv_bytes (v, h)) - n) (iv_bytes (v, h))"
      using len v1(1) unfolding bytes by (auto simp: iv_bytes_def b'_def take_bytes_at)
    moreover have "iov_base ?b + iov_len ?b \<le> hbrk h"
      using below list by (simp add: iv_below_def)
    ultimately show thesis
      using that [OF res inv2 heap_le_refl] len unfolding bytes by (auto simp: drop_bytes_at)
  qed
qed

lemma out_view_empty:
  assumes "iv_inv (v, h)"
  obtains out h' where "out_view junk v \<lparr>vw_arr = [], vw_iov = 0, vw_iovcnt = 0\<rparr> h = Some (out, h')"
    "vw_wf out" "vw_iovcnt out = length (iv_list v)" "heap_le h h'" "hmem h' = hmem h"
proof -
  have ok: "iv_ok v" and cap: "iv_nbases v < iv_capacity v" "iv_capacity v < 65536"
    using assms by (auto simp: iv_inv_def)
  then have "iv_end v - iv_begin v \<le> 65535"
    by (auto simp: iv_ok_def)
  then have "(iv_end v - iv_begin v) * 16 \<le> INT_MAX"
    unfolding INT_MAX_def by linarith
  then show thesis
    using that iv_do_malloc_ok [OF ok cap(1)] ok
    by (fastforce simp: out_view_def iv_iovcnt_def heap_le_def vw_wf_def)
qed

text \<open>\<^verbatim>\<open>extract_front(bytes, &v)\<close> with an empty view: the first bytes as iovecs, without a copy.\<close>

lemma iv_front_view_spec:
  assumes inv: "iv_inv (v, h)"
    and n: "n \<le> length (iv_bytes (v, h))"
  obtains out v' h' where
    "iv_extract_front_view junk n \<lparr>vw_arr = [], vw_iov = 0, vw_iovcnt = 0\<rparr> v h = Some (int n, out, v', h')"
    "iv_inv (v', h')" "heap_le h h'" "iv_bytes (v', h') = drop n (iv_bytes (v, h))"
    "iov_bytes (hmem h') (vw_list out) = take n (iv_bytes (v, h))" "iov_sum (vw_list out) = n"
    "\<forall>e \<in> set (vw_list out). iov_base e + iov_len e \<le> hbrk h'"
proof (cases "n = 0")
  case True
  then show thesis
    using that [of "\<lparr>vw_arr = [], vw_iov = 0, vw_iovcnt = 0\<rparr>" v h] inv
    by (simp add: iv_extract_front_view_def vw_list_def)
next
  case False
  have ok: "iv_ok v" and below: "iv_below h v" and cap: "iv_nbases v < iv_capacity v" "iv_capacity v < 65536"
    using inv by (auto simp: iv_inv_def)
  obtain w where w: "iv_view v = Some w" "vw_wf w" "vw_list w = iv_list v"
    "vw_arr w = iv_iovs v" "vw_iov w = iv_begin v" "vw_iov w + vw_iovcnt w = iv_end v"
    by (rule iv_view_ok [OF ok])
  obtain out h1 where o1: "out_view junk v \<lparr>vw_arr = [], vw_iov = 0, vw_iovcnt = 0\<rparr> h = Some (out, h1)"
    "vw_wf out" "vw_iovcnt out = length (iv_list v)" "heap_le h h1" "hmem h1 = hmem h"
    by (rule out_view_empty [OF inv])
  have sum: "n \<le> iov_sum (iv_list v)"
    using n by (simp add: iv_bytes_def)
  obtain r w' out' where e: "extract_front_view n out w = (r, w', out')"
    using prod_cases3 by blast
  have fit: "length (take_bytes n (vw_list w)) \<le> vw_iovcnt out"
    using length_take_bytes o1(3) w(3) by simp
  have spec: "r = int n" "vw_list out' = take_bytes n (iv_list v)" "vw_list w' = drop_front_spec n (iv_list v)"
    "vw_frame w w'" "vw_iov w' + vw_iovcnt w' = vw_iov w + vw_iovcnt w"
    using extract_front_view_spec [OF w(2) o1(2) _ e] fit False sum w(3) by auto
  let ?v = "iv_set_front w' v"
  have set: "iv_ok ?v \<and> iv_list ?v = vw_list w'"
    by (rule iv_set_front_spec [OF ok w(2,4,5,6) spec(4,5)])
  have brk: "hbrk h \<le> hbrk h1"
    using o1(4) by (simp add: heap_le_def)
  have bel: "\<forall>x \<in> set (vw_list w'). iov_base x + iov_len x \<le> hbrk h"
    using drop_bytes_below [of "iv_list v" "hbrk h" n] below spec(3) by (simp add: iv_below_def)
  have bel': "\<forall>x \<in> set (vw_list out'). iov_base x + iov_len x \<le> hbrk h"
    using take_bytes_below [of "iv_list v" "hbrk h" n] below spec(2) by (simp add: iv_below_def)
  show thesis
  proof (rule that [of out' ?v h1])
    show "iv_extract_front_view junk n \<lparr>vw_arr = [], vw_iov = 0, vw_iovcnt = 0\<rparr> v h = Some (int n, out', ?v, h1)"
      using False o1(1) w(1) e spec(1) by (simp add: iv_extract_front_view_def)
    show "iv_inv (?v, h1)"
      using set bel brk cap by (fastforce simp: iv_inv_def iv_below_def)
    show "iv_bytes (?v, h1) = drop n (iv_bytes (v, h))"
      using set spec(3) o1(5) by (simp add: iv_bytes_def)
    show "iov_bytes (hmem h1) (vw_list out') = take n (iv_bytes (v, h))" "iov_sum (vw_list out') = n"
      using spec(2) o1(5) sum by (simp_all add: iv_bytes_def)
    show "\<forall>e \<in> set (vw_list out'). iov_base e + iov_len e \<le> hbrk h1"
      using bel' brk by fastforce
  qed (rule o1(4))
qed

text \<open>\<^verbatim>\<open>push_front(bytes)\<close> on a vector with no free entry in front allocates the buffer, drops it,
  and still reports \<open>bytes\<close> bytes as pushed.\<close>

lemma push_front_bytes_full:
  assumes "iv_ok v" "iv_nbases v < iv_capacity v" "iv_begin v = 0" "0 < n" "n \<le> INT_MAX"
  shows "\<exists>h'. iv_push_front_bytes n v h = Some (n, v, h')"
  using assms iv_push_full(1) [OF assms(1,3)]
  by (simp add: iv_push_front_bytes_def new_iovec_def malloc_def push_front_more_def push_front_more_loop.simps)

end
