(* ===== verification/Serialization.thy ===== *)
theory Serialization
  imports Iovector
begin

section \<open>Serializer and Deserializer\<close>

text \<open>
  Model of src/src/huibuffer/serialization.h. A message is a struct whose variable-size fields
  are buffers and arrays of iovecs; it is a value here (\<open>msg_field list\<close>), and the layout of
  the struct in memory, which the compiler chooses, is the parameter \<open>fields_of\<close>, which
  reads the fields from the bytes of the struct. The fields \<^verbatim>\<open>fixed_buffer\<close>, \<^verbatim>\<open>array\<close> and
  \<^verbatim>\<open>string\<close> are processed as the buffer they derive from.

  The Serializer collects the fields and then the struct itself into an iovector without
  copying; \<open>init_data_iov\<close> cuts this vector into packets. The Deserializer takes the struct
  from the back and the fields from the front of the received vector. It is written over the
  three operations it calls on the vector, and its lemmas are proved once in the locale
  \<open>byte_source\<close>, which the iovector of the code then interprets.
\<close>

record buffer =
  buf_ptr :: nat
  buf_len :: nat

record iovec_array =
  ia_iov :: "iovec list"
  ia_summed_size :: nat

datatype msg_field =
    FBuffer buffer
  | FIovecArray iovec_array
  | FAlignedIovecArray iovec_array

subsection \<open>Passes over the fields\<close>

text \<open>\<^verbatim>\<open>reduce\<close> visits the fields in order. \<^verbatim>\<open>FilterAlignedFields(obj, flag)\<close> forwards the aligned
  ones when \<open>flag\<close> is set and the others when it is not.\<close>

fun field_aligned :: "msg_field \<Rightarrow> bool" where
  "field_aligned (FAlignedIovecArray _) = True"
| "field_aligned _ = False"

fun process_fields ::
  "(msg_field \<Rightarrow> 's \<Rightarrow> (msg_field \<times> 's) option) \<Rightarrow> bool \<Rightarrow> msg_field list \<Rightarrow> 's
    \<Rightarrow> (msg_field list \<times> 's) option" where
  "process_fields obj flag [] s = Some ([], s)"
| "process_fields obj flag (x # xs) s = do {
     (x', s1) \<leftarrow> (if field_aligned x = flag then obj x s else Some (x, s));
     (xs', s2) \<leftarrow> process_fields obj flag xs s1;
     Some (x' # xs', s2)
   }"

subsection \<open>Serializer\<close>

record serializer =
  sr_iov :: iovector
  sr_total_pkg :: nat
  sr_t_iov :: iovector
  sr_data_pkg_index :: "nat list"
  sr_iovfull :: bool
  sr_is_sick :: bool
  sr_used_size :: nat
  sr_new_buff :: "nat option"

definition sr_process_buffer :: "buffer \<Rightarrow> serializer \<Rightarrow> serializer option" where
  "sr_process_buffer x s = do {
     (tmp, iov1) \<leftarrow> back_free_iovcnt (sr_iov s);
     let s1 = s\<lparr>sr_iov := iov1\<rparr>;
     if tmp > 0 then
       (if buf_len x > 0 then do {
          (_, iov2) \<leftarrow> iv_push_back_buf (buf_ptr x) (buf_len x) iov1;
          Some (s1\<lparr>sr_iov := iov2\<rparr>)
        } else Some s1)
     else Some (s1\<lparr>sr_iovfull := True\<rparr>)
   }"

fun sr_process_iovecs :: "iovec list \<Rightarrow> nat \<Rightarrow> serializer \<Rightarrow> (nat \<times> serializer) option" where
  "sr_process_iovecs [] summed s = Some (summed, s)"
| "sr_process_iovecs (v # vs) summed s = do {
     s1 \<leftarrow> sr_process_buffer \<lparr>buf_ptr = iov_base v, buf_len = iov_len v\<rparr> s;
     sr_process_iovecs vs (summed + iov_len v) s1
   }"

definition sr_process_iovec_array :: "iovec_array \<Rightarrow> serializer \<Rightarrow> (iovec_array \<times> serializer) option"
where
  "sr_process_iovec_array x s = do {
     (summed, s1) \<leftarrow> sr_process_iovecs (ia_iov x) 0 s;
     Some (x\<lparr>ia_summed_size := summed\<rparr>, s1)
   }"

fun sr_process_field :: "msg_field \<Rightarrow> serializer \<Rightarrow> (msg_field \<times> serializer) option" where
  "sr_process_field (FBuffer b) s = do { s1 \<leftarrow> sr_process_buffer b s; Some (FBuffer b, s1) }"
| "sr_process_field (FIovecArray a) s = do {
     (a', s1) \<leftarrow> sr_process_iovec_array a s; Some (FIovecArray a', s1) }"
| "sr_process_field (FAlignedIovecArray a) s = do {
     (a', s1) \<leftarrow> sr_process_iovec_array a s; Some (FAlignedIovecArray a', s1) }"

text \<open>\<open>addr\<close> and \<open>sz\<close> are the address and the size of the struct. The result carries the fields
  with the sizes the pass wrote into them.\<close>

definition serialize ::
  "msg_field list \<Rightarrow> nat \<Rightarrow> nat \<Rightarrow> serializer \<Rightarrow> (msg_field list \<times> serializer) option" where
  "serialize fs addr sz s = do {
     (fs1, s1) \<leftarrow> process_fields sr_process_field True fs s;
     (fs2, s2) \<leftarrow> process_fields sr_process_field False fs1 s1;
     s3 \<leftarrow> sr_process_buffer \<lparr>buf_ptr = addr, buf_len = sz\<rparr> s2;
     Some (fs2, s3)
   }"

definition sr_clear :: "serializer \<Rightarrow> serializer" where
  "sr_clear s = s\<lparr>sr_iov := (sr_iov s)\<lparr>iv_begin := 1, iv_end := 1\<rparr>, sr_used_size := 0,
                   sr_is_sick := False, sr_new_buff := None\<rparr>"

subsection \<open>Packets\<close>

text \<open>The inner loop of \<^verbatim>\<open>init_data_iov\<close> cuts one iovec; \<open>temp\<close> is the room left in the current
  packet. With a packet size of zero it would not end, so it is a partial function.\<close>

definition record_pkg :: "serializer \<Rightarrow> serializer option" where
  "record_pkg s = do {
     cnt \<leftarrow> iv_iovcnt (sr_iov s);
     cassert (sr_total_pkg s < length (sr_data_pkg_index s));
     Some (s\<lparr>sr_data_pkg_index := (sr_data_pkg_index s)[sr_total_pkg s := cnt],
              sr_total_pkg := sr_total_pkg s + 1\<rparr>)
   }"

partial_function (option) split_iovec ::
  "nat \<Rightarrow> iovec \<Rightarrow> nat \<Rightarrow> serializer \<Rightarrow> (iovec \<times> nat \<times> serializer) option" where
  "split_iovec mx e temp s =
    (if iov_len e > 0 then do {
       s1 \<leftarrow> (if temp = mx then record_pkg s else Some s);
       (if temp > iov_len e then do {
          (_, iov2) \<leftarrow> iv_push_back_buf (iov_base e) (iov_len e) (sr_iov s1);
          split_iovec mx (e\<lparr>iov_base := iov_base e + iov_len e, iov_len := 0\<rparr>) (temp - iov_len e)
            (s1\<lparr>sr_iov := iov2\<rparr>)
        } else if temp < iov_len e then do {
          (_, iov2) \<leftarrow> iv_push_back_buf (iov_base e) temp (sr_iov s1);
          split_iovec mx (e\<lparr>iov_base := iov_base e + temp, iov_len := iov_len e - temp\<rparr>) mx
            (s1\<lparr>sr_iov := iov2\<rparr>)
        } else do {
          (_, iov2) \<leftarrow> iv_push_back_buf (iov_base e) (iov_len e) (sr_iov s1);
          split_iovec mx (e\<lparr>iov_base := iov_base e + iov_len e, iov_len := 0\<rparr>) mx
            (s1\<lparr>sr_iov := iov2\<rparr>)
        })
     } else Some (e, temp, s))"

fun split_iovecs ::
  "nat \<Rightarrow> iovec list \<Rightarrow> nat \<Rightarrow> serializer \<Rightarrow> (iovec list \<times> nat \<times> serializer) option" where
  "split_iovecs mx [] temp s = Some ([], temp, s)"
| "split_iovecs mx (e # es) temp s = do {
     (e', temp1, s1) \<leftarrow> split_iovec mx e temp s;
     (es', temp2, s2) \<leftarrow> split_iovecs mx es temp1 s1;
     Some (e' # es', temp2, s2)
   }"

fun push_back_all :: "iovec list \<Rightarrow> iovector \<Rightarrow> iovector option" where
  "push_back_all [] v = Some v"
| "push_back_all (e # es) v = do { (_, v') \<leftarrow> iv_push_back e v; push_back_all es v' }"

definition init_data_iov :: "nat \<Rightarrow> serializer \<Rightarrow> (nat \<times> serializer) option" where
  "init_data_iov mx s = do {
     total \<leftarrow> iv_sum (sr_iov s);
     cnt \<leftarrow> iv_iovcnt (sr_iov s);
     if total \<le> mx then
       Some (1, s\<lparr>sr_total_pkg := 1, sr_data_pkg_index := (sr_data_pkg_index s)[0 := 0, 1 := cnt]\<rparr>)
     else do {
       t0 \<leftarrow> iv_clear (sr_t_iov s);
       va \<leftarrow> iv_view (sr_iov s);
       t1 \<leftarrow> push_back_all (vw_list va) t0;
       sum \<leftarrow> iv_sum t1;
       iov1 \<leftarrow> iv_clear (sr_iov s);
       let add = (if sum mod mx \<noteq> 0 then 1 else 0);
       let b = u16_of (sum div mx + add);
       let s1 = s\<lparr>sr_t_iov := t1, sr_iov := iov1\<lparr>iv_begin := b, iv_end := b\<rparr>, sr_total_pkg := 0\<rparr>;
       tv \<leftarrow> iv_view t1;
       (es, temp, s2) \<leftarrow> split_iovecs mx (vw_list tv) mx s1;
       let s3 = s2\<lparr>sr_t_iov := t1\<lparr>iv_iovs := take (iv_begin t1) (iv_iovs t1) @ es @
                                                drop (iv_end t1) (iv_iovs t1)\<rparr>\<rparr>;
       n \<leftarrow> iv_iovcnt (sr_iov s3);
       cassert (sr_total_pkg s3 < length (sr_data_pkg_index s3));
       Some (sr_total_pkg s3,
             s3\<lparr>sr_data_pkg_index := (sr_data_pkg_index s3)[sr_total_pkg s3 := n]\<rparr>)
     }
   }"

text \<open>The result of \<^verbatim>\<open>get_n_data\<close> is the index of the first iovec of packet \<open>n\<close> in the array of the
  vector, and the number of its iovecs.\<close>

definition get_n_data :: "nat \<Rightarrow> serializer \<Rightarrow> (nat \<times> nat) option" where
  "get_n_data n s = do {
     cassert (n < sr_total_pkg s);
     let len = sr_data_pkg_index s ! (n + 1) - sr_data_pkg_index s ! n;
     let i = sr_total_pkg s + sr_data_pkg_index s ! n;
     iv_at (sr_iov s) i;
     Some (iv_begin (sr_iov s) + i, len)
   }"

subsection \<open>Deserializer\<close>

text \<open>The operations on the received vector: \<open>front n\<close> is \<^verbatim>\<open>extract_front_continuous(n)\<close>, \<open>frontv n\<close>
  is \<^verbatim>\<open>extract_front(n, &v)\<close> with an empty view, and \<open>back n\<close> is \<^verbatim>\<open>extract_back_continuous(n)\<close>.
  The state of the Deserializer is the flag \<^verbatim>\<open>failed\<close> and the vector.\<close>

type_synonym 's take_op = "nat \<Rightarrow> 's \<Rightarrow> (nat option \<times> 's) option"
type_synonym 's takev_op = "nat \<Rightarrow> 's \<Rightarrow> (int \<times> iovec list \<times> 's) option"

definition ds_process_buffer :: "'s take_op \<Rightarrow> buffer \<Rightarrow> bool \<times> 's \<Rightarrow> (buffer \<times> bool \<times> 's) option" where
  "ds_process_buffer front x st =
    (if buf_len x = 0 then Some (x, st)
     else do {
       (p, s1) \<leftarrow> front (buf_len x) (snd st);
       (case p of
          None \<Rightarrow> Some (x\<lparr>buf_ptr := 0\<rparr>, True, s1)
        | Some a \<Rightarrow> Some (x\<lparr>buf_ptr := a\<rparr>, fst st, s1))
     })"

definition ds_process_iovec_array ::
  "'s takev_op \<Rightarrow> iovec_array \<Rightarrow> bool \<times> 's \<Rightarrow> (iovec_array \<times> bool \<times> 's) option" where
  "ds_process_iovec_array frontv x st = do {
     (ret, es, s1) \<leftarrow> frontv (ia_summed_size x) (snd st);
     if ret = int (ia_summed_size x)
     then Some (\<lparr>ia_iov = es, ia_summed_size = sum_list (map iov_len es)\<rparr>, fst st, s1)
     else Some (x, True, s1)
   }"

fun ds_process_field ::
  "'s take_op \<Rightarrow> 's takev_op \<Rightarrow> msg_field \<Rightarrow> bool \<times> 's \<Rightarrow> (msg_field \<times> bool \<times> 's) option" where
  "ds_process_field front frontv (FBuffer b) st = do {
     (b', st') \<leftarrow> ds_process_buffer front b st; Some (FBuffer b', st') }"
| "ds_process_field front frontv (FIovecArray a) st = do {
     (a', st') \<leftarrow> ds_process_iovec_array frontv a st; Some (FIovecArray a', st') }"
| "ds_process_field front frontv (FAlignedIovecArray a) st = do {
     (a', st') \<leftarrow> ds_process_iovec_array frontv a st; Some (FAlignedIovecArray a', st') }"

definition deserialize ::
  "'s take_op \<Rightarrow> 's takev_op \<Rightarrow> 's take_op \<Rightarrow> ('s \<Rightarrow> nat \<Rightarrow> nat \<Rightarrow> u8 list) \<Rightarrow> (u8 list \<Rightarrow> msg_field list)
    \<Rightarrow> nat \<Rightarrow> bool \<Rightarrow> 's \<Rightarrow> ((nat \<times> msg_field list) option \<times> bool \<times> 's) option" where
  "deserialize front frontv back rd fields_of sz failed s = do {
     (t, s1) \<leftarrow> back sz s;
     (case t of
        None \<Rightarrow> Some (None, True, s1)
      | Some p \<Rightarrow> do {
          (fs1, st1) \<leftarrow> process_fields (ds_process_field front frontv) True (fields_of (rd s1 p sz)) (failed, s1);
          (fs2, st2) \<leftarrow> process_fields (ds_process_field front frontv) False fs1 st1;
          Some (Some (p, fs2), st2)
        })
   }"

section \<open>What the Serializer collects\<close>

fun field_iovecs :: "msg_field \<Rightarrow> iovec list" where
  "field_iovecs (FBuffer b) = [\<lparr>iov_base = buf_ptr b, iov_len = buf_len b\<rparr>]"
| "field_iovecs (FIovecArray a) = ia_iov a"
| "field_iovecs (FAlignedIovecArray a) = ia_iov a"

fun field_size :: "msg_field \<Rightarrow> nat" where
  "field_size (FBuffer b) = buf_len b"
| "field_size (FIovecArray a) = ia_summed_size a"
| "field_size (FAlignedIovecArray a) = ia_summed_size a"

fun field_kind :: "msg_field \<Rightarrow> nat" where
  "field_kind (FBuffer b) = 0"
| "field_kind (FIovecArray a) = 1"
| "field_kind (FAlignedIovecArray a) = 2"

text \<open>The fields as the serializer leaves them: the arrays carry their total size.\<close>

fun field_summed :: "msg_field \<Rightarrow> msg_field" where
  "field_summed (FBuffer b) = FBuffer b"
| "field_summed (FIovecArray a) = FIovecArray (a\<lparr>ia_summed_size := iov_sum (ia_iov a)\<rparr>)"
| "field_summed (FAlignedIovecArray a) = FAlignedIovecArray (a\<lparr>ia_summed_size := iov_sum (ia_iov a)\<rparr>)"

definition nonempty :: "iovec list \<Rightarrow> iovec list" where
  "nonempty es = filter (\<lambda>e. iov_len e > 0) es"

definition sel :: "bool \<Rightarrow> msg_field list \<Rightarrow> msg_field list" where
  "sel flag fs = filter (\<lambda>f. field_aligned f = flag) fs"

definition sel_iovecs :: "bool \<Rightarrow> msg_field list \<Rightarrow> iovec list" where
  "sel_iovecs flag fs = concat (map field_iovecs (sel flag fs))"

lemma nonempty_simps [simp]:
  "nonempty [] = []" "nonempty (e # es) = (if iov_len e > 0 then e # nonempty es else nonempty es)"
  "nonempty (es @ fs) = nonempty es @ nonempty fs"
  by (simp_all add: nonempty_def)

lemma iov_bytes_nonempty [simp]: "iov_bytes m (nonempty es) = iov_bytes m es"
  by (induction es) auto

lemma iov_sum_nonempty [simp]: "iov_sum (nonempty es) = iov_sum es"
  by (induction es) auto

lemma sel_simps [simp]:
  "sel flag [] = []" "sel flag (f # fs) = (if field_aligned f = flag then f # sel flag fs else sel flag fs)"
  "sel_iovecs flag [] = []"
  "sel_iovecs flag (f # fs) = (if field_aligned f = flag then field_iovecs f @ sel_iovecs flag fs
                               else sel_iovecs flag fs)"
  by (simp_all add: sel_def sel_iovecs_def)

lemma field_summed_simps [simp]:
  "field_aligned (field_summed f) = field_aligned f" "field_iovecs (field_summed f) = field_iovecs f"
  "field_kind (field_summed f) = field_kind f" "field_size (field_summed f) = iov_sum (field_iovecs f)"
  by (cases f; simp)+

text \<open>The vector of a Serializer is an \<^verbatim>\<open>IOVector\<close>: 2300 entries.\<close>

definition sr_ok :: "serializer \<Rightarrow> bool" where
  "sr_ok s \<longleftrightarrow> iv_ok (sr_iov s) \<and> iv_capacity (sr_iov s) = 2300 \<and> length (iv_iovs (sr_iov s)) = 2300"

definition sr_room :: "serializer \<Rightarrow> nat" where
  "sr_room s = 2300 - iv_end (sr_iov s)"

text \<open>\<open>sr_adds s s' es\<close>: the step from \<open>s\<close> to \<open>s'\<close> appends the iovecs \<open>es\<close> and drops none.\<close>

definition sr_adds :: "serializer \<Rightarrow> serializer \<Rightarrow> iovec list \<Rightarrow> bool" where
  "sr_adds s s' es \<longleftrightarrow> sr_ok s' \<and> iv_list (sr_iov s') = iv_list (sr_iov s) @ nonempty es \<and>
     sr_iovfull s' = sr_iovfull s \<and> iv_begin (sr_iov s') = iv_begin (sr_iov s) \<and>
     iv_end (sr_iov s') = iv_end (sr_iov s) + length (nonempty es)"

lemma sr_adds_trans: "sr_adds s s' es \<Longrightarrow> sr_adds s' s'' fs \<Longrightarrow> sr_adds s s'' (es @ fs)"
  by (simp add: sr_adds_def)

lemma length_nonempty: "length (nonempty es) \<le> length es"
  by (simp add: nonempty_def)

lemma sr_adds_room: "sr_adds s s' es \<Longrightarrow> length es + k \<le> sr_room s \<Longrightarrow> k \<le> sr_room s'"
  using length_nonempty [of es] by (simp add: sr_adds_def sr_room_def)

lemma sr_process_buffer_spec:
  assumes "sr_ok s" "0 < sr_room s"
  obtains s' where "sr_process_buffer x s = Some s'"
    "sr_adds s s' [\<lparr>iov_base = buf_ptr x, iov_len = buf_len x\<rparr>]"
proof -
  have ok: "iv_ok (sr_iov s)" and cap: "iv_capacity (sr_iov s) = 2300"
    and len: "length (iv_iovs (sr_iov s)) = 2300" and room: "iv_end (sr_iov s) < iv_capacity (sr_iov s)"
    using assms by (auto simp: sr_ok_def sr_room_def)
  have cap_id: "(sr_iov s)\<lparr>iv_capacity := 2300\<rparr> = sr_iov s"
    using cap by simp
  have free: "back_free_iovcnt (sr_iov s) = Some (2300 - iv_end (sr_iov s), sr_iov s)"
    using ok cap by (simp add: back_free_iovcnt_def Let_def)
  show thesis
  proof (cases "buf_len x = 0")
    case True
    then show thesis
      using that [of s] free room cap assms(1)
      by (simp add: sr_process_buffer_def sr_adds_def)
  next
    case False
    obtain v where v: "iv_push_back \<lparr>iov_base = buf_ptr x, iov_len = buf_len x\<rparr> (sr_iov s) = Some (buf_len x, v)"
      "iv_list v = iv_list (sr_iov s) @ [\<lparr>iov_base = buf_ptr x, iov_len = buf_len x\<rparr>]" "iv_ok v"
      "iv_begin v = iv_begin (sr_iov s)" "iv_end v = iv_end (sr_iov s) + 1" "iv_capacity v = iv_capacity (sr_iov s)"
      "length (iv_iovs v) = length (iv_iovs (sr_iov s))"
      using iv_push_back_spec [OF ok room, of "\<lparr>iov_base = buf_ptr x, iov_len = buf_len x\<rparr>"] by auto
    have "iv_push_back_buf (buf_ptr x) (buf_len x) (sr_iov s) = Some (buf_len x, v)"
      unfolding iv_push_back_buf_def cap_id by (rule v(1))
    then have "sr_process_buffer x s = Some (s\<lparr>sr_iov := v\<rparr>)"
      using False free room cap by (simp add: sr_process_buffer_def)
    moreover have "sr_adds s (s\<lparr>sr_iov := v\<rparr>) [\<lparr>iov_base = buf_ptr x, iov_len = buf_len x\<rparr>]"
      using False v(2-) cap len by (simp add: sr_adds_def sr_ok_def)
    ultimately show thesis
      by (rule that)
  qed
qed

lemma sr_process_iovecs_spec:
  assumes "sr_ok s" "length es \<le> sr_room s"
  shows "\<exists>s'. sr_process_iovecs es n s = Some (n + iov_sum es, s') \<and> sr_adds s s' es"
  using assms
proof (induction es arbitrary: n s)
  case Nil
  then show ?case by (simp add: sr_adds_def)
next
  case (Cons e es)
  obtain s1 where s1: "sr_process_buffer \<lparr>buf_ptr = iov_base e, buf_len = iov_len e\<rparr> s = Some s1"
    "sr_adds s s1 [e]"
    using sr_process_buffer_spec [OF Cons.prems(1), of "\<lparr>buf_ptr = iov_base e, buf_len = iov_len e\<rparr>"]
      Cons.prems(2) by auto
  moreover have "length es \<le> sr_room s1" "sr_ok s1"
    using sr_adds_room [OF s1(2), of "length es"] Cons.prems(2) s1(2) by (simp_all add: sr_adds_def)
  ultimately show ?case
    using Cons.IH [of s1 "n + iov_len e"] sr_adds_trans [OF s1(2)] by (auto simp: add.assoc)
qed

lemma sr_process_field_spec:
  assumes "sr_ok s" "length (field_iovecs f) \<le> sr_room s"
  shows "\<exists>s'. sr_process_field f s = Some (field_summed f, s') \<and> sr_adds s s' (field_iovecs f)"
proof (cases f)
  case (FBuffer b)
  then obtain s' where "sr_process_buffer b s = Some s'"
    "sr_adds s s' [\<lparr>iov_base = buf_ptr b, iov_len = buf_len b\<rparr>]"
    using sr_process_buffer_spec [OF assms(1), of b] assms(2) by auto
  with FBuffer show ?thesis
    by simp
next
  case (FIovecArray a)
  then show ?thesis
    using sr_process_iovecs_spec [OF assms(1), of "ia_iov a" 0] assms(2)
    by (auto simp: sr_process_iovec_array_def)
next
  case (FAlignedIovecArray a)
  then show ?thesis
    using sr_process_iovecs_spec [OF assms(1), of "ia_iov a" 0] assms(2)
    by (auto simp: sr_process_iovec_array_def)
qed

lemma sr_process_fields_spec:
  assumes "sr_ok s" "length (sel_iovecs flag fs) \<le> sr_room s"
  shows "\<exists>s'. process_fields sr_process_field flag fs s =
           Some (map (\<lambda>f. if field_aligned f = flag then field_summed f else f) fs, s') \<and>
         sr_adds s s' (sel_iovecs flag fs)"
  using assms
proof (induction fs arbitrary: s)
  case Nil
  then show ?case by (simp add: sr_adds_def)
next
  case (Cons f fs)
  show ?case
  proof (cases "field_aligned f = flag")
    case True
    then obtain s1 where s1: "sr_process_field f s = Some (field_summed f, s1)" "sr_adds s s1 (field_iovecs f)"
      using sr_process_field_spec [OF Cons.prems(1), of f] Cons.prems(2) by auto
    then have "sr_ok s1" "length (sel_iovecs flag fs) \<le> sr_room s1"
      using sr_adds_room [OF s1(2), of "length (sel_iovecs flag fs)"] Cons.prems(2) True
      by (simp_all add: sr_adds_def)
    from Cons.IH [OF this] show ?thesis
      using True s1 sr_adds_trans [OF s1(2)] by auto
  next
    case False
    then show ?thesis
      using Cons.IH [OF Cons.prems(1)] Cons.prems(2) by auto
  qed
qed

text \<open>All iovecs of a message, in the order they are sent.\<close>

definition msg_iovecs :: "msg_field list \<Rightarrow> nat \<Rightarrow> nat \<Rightarrow> iovec list" where
  "msg_iovecs fs addr sz = sel_iovecs True fs @ sel_iovecs False fs @ [\<lparr>iov_base = addr, iov_len = sz\<rparr>]"

lemma sel_iovecs_summed:
  "sel_iovecs flag (map (\<lambda>f. if P f then field_summed f else f) fs) = sel_iovecs flag fs"
  by (induction fs) auto

lemma serialize_spec:
  assumes "sr_ok s" "length (msg_iovecs fs addr sz) \<le> sr_room s"
  shows "\<exists>s'. serialize fs addr sz s = Some (map field_summed fs, s') \<and>
           sr_adds s s' (msg_iovecs fs addr sz)"
proof -
  let ?fs1 = "map (\<lambda>f. if field_aligned f = True then field_summed f else f) fs"
  obtain s1 where s1: "process_fields sr_process_field True fs s = Some (?fs1, s1)"
    "sr_adds s s1 (sel_iovecs True fs)"
    using sr_process_fields_spec [OF assms(1), of True fs] assms(2) by (auto simp: msg_iovecs_def)
  have r1: "length (sel_iovecs False fs) + 1 \<le> sr_room s1" "sr_ok s1"
    using sr_adds_room [OF s1(2), of "length (sel_iovecs False fs) + 1"] s1(2) assms(2)
    by (simp_all add: msg_iovecs_def sr_adds_def)
  have fs1: "map (\<lambda>f. if field_aligned f = False then field_summed f else f) ?fs1 = map field_summed fs"
    by simp
  obtain s2 where s2: "process_fields sr_process_field False ?fs1 s1 = Some (map field_summed fs, s2)"
    "sr_adds s1 s2 (sel_iovecs False fs)"
    using sr_process_fields_spec [OF r1(2), of False ?fs1] r1(1) unfolding fs1 sel_iovecs_summed by auto
  have r2: "0 < sr_room s2" "sr_ok s2"
    using sr_adds_room [OF s2(2), of 1] r1(1) s2(2) by (simp_all add: sr_adds_def)
  obtain s3 where s3: "sr_process_buffer \<lparr>buf_ptr = addr, buf_len = sz\<rparr> s2 = Some s3"
    "sr_adds s2 s3 [\<lparr>iov_base = addr, iov_len = sz\<rparr>]"
    using sr_process_buffer_spec [OF r2(2,1), of "\<lparr>buf_ptr = addr, buf_len = sz\<rparr>"] by auto
  show ?thesis
    using s1 s2 s3 sr_adds_trans [OF s1(2) sr_adds_trans [OF s2(2) s3(2)]]
    by (simp add: serialize_def msg_iovecs_def)
qed

section \<open>What the Deserializer returns\<close>

text \<open>The interface of the Deserializer to the vector it reads. \<open>bytes s\<close> is what is left to
  read, \<open>rd s p n\<close> are the \<open>n\<close> bytes at address \<open>p\<close>, and \<open>valid s p n\<close> says that this range
  belongs to the process; no operation changes a valid range.\<close>

definition keeps :: "('s \<Rightarrow> nat \<Rightarrow> nat \<Rightarrow> bool) \<Rightarrow> ('s \<Rightarrow> nat \<Rightarrow> nat \<Rightarrow> u8 list) \<Rightarrow> 's \<Rightarrow> 's \<Rightarrow> bool" where
  "keeps valid rd s s' \<longleftrightarrow> (\<forall>p n. valid s p n \<longrightarrow> valid s' p n \<and> rd s' p n = rd s p n)"

definition rd_iovecs :: "('s \<Rightarrow> nat \<Rightarrow> nat \<Rightarrow> u8 list) \<Rightarrow> 's \<Rightarrow> iovec list \<Rightarrow> u8 list" where
  "rd_iovecs rd s es = concat (map (\<lambda>e. rd s (iov_base e) (iov_len e)) es)"

text \<open>The data of the fields whose alignment is \<open>flag\<close>, one after the other.\<close>

fun sel_data :: "bool \<Rightarrow> bool list \<Rightarrow> u8 list list \<Rightarrow> u8 list" where
  "sel_data flag (a # as) (d # ds) = (if a = flag then d @ sel_data flag as ds else sel_data flag as ds)"
| "sel_data flag _ _ = []"

locale byte_source =
  fixes front :: "'s take_op" and frontv :: "'s takev_op" and rear :: "'s take_op"
    and rd :: "'s \<Rightarrow> nat \<Rightarrow> nat \<Rightarrow> u8 list" and bytes :: "'s \<Rightarrow> u8 list"
    and inv :: "'s \<Rightarrow> bool" and valid :: "'s \<Rightarrow> nat \<Rightarrow> nat \<Rightarrow> bool"
  assumes rd_0: "rd s p 0 = []" and valid_0: "valid s p 0"
    and front_law: "inv s \<Longrightarrow> n \<le> INT_MAX \<Longrightarrow> n \<le> length (bytes s) \<Longrightarrow>
      \<exists>p s'. front n s = Some (Some p, s') \<and> inv s' \<and> keeps valid rd s s' \<and>
        bytes s' = drop n (bytes s) \<and> valid s' p n \<and> rd s' p n = take n (bytes s)"
    and frontv_law: "inv s \<Longrightarrow> n \<le> length (bytes s) \<Longrightarrow>
      \<exists>es s'. frontv n s = Some (int n, es, s') \<and> inv s' \<and> keeps valid rd s s' \<and>
        bytes s' = drop n (bytes s) \<and> (\<forall>e \<in> set es. valid s' (iov_base e) (iov_len e)) \<and>
        rd_iovecs rd s' es = take n (bytes s) \<and> iov_sum es = n"
    and rear_law: "inv s \<Longrightarrow> n \<le> INT_MAX \<Longrightarrow> n \<le> length (bytes s) \<Longrightarrow>
      \<exists>p s'. rear n s = Some (Some p, s') \<and> inv s' \<and> keeps valid rd s s' \<and>
        bytes s' = take (length (bytes s) - n) (bytes s) \<and> valid s' p n \<and>
        rd s' p n = drop (length (bytes s) - n) (bytes s)"
    and rear_short: "inv s \<Longrightarrow> n \<le> INT_MAX \<Longrightarrow> length (bytes s) < n \<Longrightarrow> \<exists>s'. rear n s = Some (None, s')"
begin

text \<open>\<open>field_ok s d f\<close>: the field \<open>f\<close> denotes the data \<open>d\<close> in \<open>s\<close>.\<close>

definition field_ok :: "'s \<Rightarrow> u8 list \<Rightarrow> msg_field \<Rightarrow> bool" where
  "field_ok s d f \<longleftrightarrow> (\<forall>e \<in> set (field_iovecs f). valid s (iov_base e) (iov_len e)) \<and>
     rd_iovecs rd s (field_iovecs f) = d"

definition same_shape :: "msg_field \<Rightarrow> msg_field \<Rightarrow> bool" where
  "same_shape f g \<longleftrightarrow> field_kind f = field_kind g \<and> field_size f = field_size g"

lemma keeps_refl: "keeps valid rd s s"
  by (simp add: keeps_def)

lemma keeps_trans: "keeps valid rd s s' \<Longrightarrow> keeps valid rd s' s'' \<Longrightarrow> keeps valid rd s s''"
  by (simp add: keeps_def)

lemma field_ok_keeps:
  assumes "keeps valid rd s s'" "field_ok s d f"
  shows "field_ok s' d f"
proof -
  have "rd_iovecs rd s' (field_iovecs f) = rd_iovecs rd s (field_iovecs f)"
    unfolding rd_iovecs_def using assms
    by (intro arg_cong [where f = concat] map_cong refl) (auto simp: keeps_def field_ok_def)
  with assms show ?thesis
    by (auto simp: keeps_def field_ok_def)
qed

lemma ds_field:
  assumes "inv s" "field_size f \<le> INT_MAX" "bytes s = d @ rest" "length d = field_size f"
  shows "\<exists>f' s'. ds_process_field front frontv f (fl, s) = Some (f', fl, s') \<and> inv s' \<and>
    keeps valid rd s s' \<and> bytes s' = rest \<and> field_ok s' d f' \<and> same_shape f' f"
proof (cases f)
  case (FBuffer b)
  show ?thesis
  proof (cases "buf_len b = 0")
    case True
    with FBuffer assms show ?thesis
      by (simp add: ds_process_buffer_def keeps_refl field_ok_def rd_iovecs_def rd_0 valid_0 same_shape_def)
  next
    case False
    from front_law [OF assms(1), of "buf_len b"] FBuffer assms(2-4) obtain p s' where
      "front (buf_len b) s = Some (Some p, s')" "inv s'" "keeps valid rd s s'" "bytes s' = rest"
      "valid s' p (buf_len b)" "rd s' p (buf_len b) = d"
      by auto
    with FBuffer False show ?thesis
      by (simp add: ds_process_buffer_def field_ok_def rd_iovecs_def same_shape_def)
  qed
next
  case (FIovecArray a)
  from frontv_law [OF assms(1), of "ia_summed_size a"] FIovecArray assms(3,4) obtain es s' where
    "frontv (ia_summed_size a) s = Some (int (ia_summed_size a), es, s')" "inv s'" "keeps valid rd s s'"
    "bytes s' = rest" "\<forall>e \<in> set es. valid s' (iov_base e) (iov_len e)"
    "rd_iovecs rd s' es = d" "iov_sum es = ia_summed_size a"
    by auto
  with FIovecArray show ?thesis
    by (simp add: ds_process_iovec_array_def field_ok_def same_shape_def iov_sum_def)
next
  case (FAlignedIovecArray a)
  from frontv_law [OF assms(1), of "ia_summed_size a"] FAlignedIovecArray assms(3,4) obtain es s' where
    "frontv (ia_summed_size a) s = Some (int (ia_summed_size a), es, s')" "inv s'" "keeps valid rd s s'"
    "bytes s' = rest" "\<forall>e \<in> set es. valid s' (iov_base e) (iov_len e)"
    "rd_iovecs rd s' es = d" "iov_sum es = ia_summed_size a"
    by auto
  with FAlignedIovecArray show ?thesis
    by (simp add: ds_process_iovec_array_def field_ok_def same_shape_def iov_sum_def)
qed

lemma same_shape_aligned: "same_shape f g \<Longrightarrow> field_aligned f = field_aligned g"
  by (cases f; cases g) (simp_all add: same_shape_def)

text \<open>One pass: the selected fields read their data, the others are as before.\<close>

definition pass_rel :: "bool \<Rightarrow> 's \<Rightarrow> msg_field \<times> u8 list \<Rightarrow> msg_field \<Rightarrow> bool" where
  "pass_rel flag s fd f' \<longleftrightarrow>
    (if field_aligned (fst fd) = flag then field_ok s (snd fd) f' \<and> same_shape f' (fst fd) else f' = fst fd)"

lemma ds_pass:
  assumes "inv s" "list_all2 (\<lambda>f d. field_size f \<le> INT_MAX \<and> length d = field_size f) fs ds"
    and "bytes s = sel_data flag (map field_aligned fs) ds @ rest"
  shows "\<exists>fs' s'. process_fields (ds_process_field front frontv) flag fs (fl, s) = Some (fs', fl, s') \<and>
    inv s' \<and> keeps valid rd s s' \<and> bytes s' = rest \<and> list_all2 (pass_rel flag s') (zip fs ds) fs'"
  using assms
proof (induction fs arbitrary: ds s)
  case Nil
  then show ?case by (simp add: keeps_refl)
next
  case (Cons f fs)
  from Cons.prems(2) obtain d ds' where ds: "ds = d # ds'" "field_size f \<le> INT_MAX" "length d = field_size f"
    "list_all2 (\<lambda>f d. field_size f \<le> INT_MAX \<and> length d = field_size f) fs ds'"
    by (cases ds) auto
  show ?case
  proof (cases "field_aligned f = flag")
    case True
    have "bytes s = d @ sel_data flag (map field_aligned fs) ds' @ rest"
      using Cons.prems(3) ds(1) True by simp
    from ds_field [OF Cons.prems(1) ds(2) this ds(3)] obtain f' s1 where
      f': "ds_process_field front frontv f (fl, s) = Some (f', fl, s1)" "inv s1" "keeps valid rd s s1"
      "bytes s1 = sel_data flag (map field_aligned fs) ds' @ rest" "field_ok s1 d f'" "same_shape f' f"
      by blast
    from Cons.IH [OF f'(2) ds(4) f'(4)] obtain fs' s' where
      rest: "process_fields (ds_process_field front frontv) flag fs (fl, s1) = Some (fs', fl, s')"
      "inv s'" "keeps valid rd s1 s'" "bytes s' = rest" "list_all2 (pass_rel flag s') (zip fs ds') fs'"
      by blast
    have "keeps valid rd s s'" "field_ok s' d f'"
      using keeps_trans [OF f'(3) rest(3)] field_ok_keeps [OF rest(3) f'(5)] by auto
    then have "keeps valid rd s s'" "pass_rel flag s' (f, d) f'"
      using True f'(6) by (simp_all add: pass_rel_def)
    then show ?thesis
      using True ds(1) f'(1) rest by (intro exI [of _ "f' # fs'"] exI [of _ s']) simp
  next
    case False
    then have no: "(field_aligned f = flag) = False"
      by simp
    have "bytes s = sel_data flag (map field_aligned fs) ds' @ rest"
      using Cons.prems(3) unfolding ds(1) by (simp only: list.map sel_data.simps no if_False)
    from Cons.IH [OF Cons.prems(1) ds(4) this] obtain fs' s' where
      "process_fields (ds_process_field front frontv) flag fs (fl, s) = Some (fs', fl, s')"
      "inv s'" "keeps valid rd s s'" "bytes s' = rest" "list_all2 (pass_rel flag s') (zip fs ds') fs'"
      by blast
    moreover have "pass_rel flag s' (f, d) f"
      by (simp only: pass_rel_def fst_conv no if_False)
    ultimately show ?thesis
      using ds(1) no by (intro exI [of _ "f # fs'"] exI [of _ s']) simp
  qed
qed

lemma pass_rel_shape: "pass_rel flag s fd f' \<Longrightarrow> same_shape f' (fst fd)"
  by (auto simp: pass_rel_def same_shape_def split: if_splits)

text \<open>The whole message: struct from the back, fields from the front.\<close>

lemma deserialize_spec:
  assumes "inv s" "sz \<le> INT_MAX"
    and sizes: "list_all2 (\<lambda>f d. field_size f \<le> INT_MAX \<and> length d = field_size f) fs ds"
    and input: "bytes s = sel_data True (map field_aligned fs) ds @
                          sel_data False (map field_aligned fs) ds @ body"
    and "length body = sz" "fields_of body = fs"
  shows "\<exists>p fs' s'. deserialize front frontv rear rd fields_of sz False s = Some (Some (p, fs'), False, s') \<and>
    rd s' p sz = body \<and> bytes s' = [] \<and> list_all2 (field_ok s') ds fs' \<and> list_all2 same_shape fs' fs"
proof -
  let ?a = "sel_data True (map field_aligned fs) ds" and ?n = "sel_data False (map field_aligned fs) ds"
  have len: "sz \<le> length (bytes s)" "take (length (bytes s) - sz) (bytes s) = ?a @ ?n"
    "drop (length (bytes s) - sz) (bytes s) = body"
    using input assms(5) by simp_all
  from rear_law [OF assms(1,2) len(1)] obtain p s1 where
    s1: "rear sz s = Some (Some p, s1)" "inv s1" "bytes s1 = ?a @ ?n" "valid s1 p sz" "rd s1 p sz = body"
    unfolding len by blast
  from ds_pass [OF s1(2) sizes s1(3), of False] obtain fs1 s2 where
    s2: "process_fields (ds_process_field front frontv) True fs (False, s1) = Some (fs1, False, s2)"
    "inv s2" "keeps valid rd s1 s2" "bytes s2 = ?n" "list_all2 (pass_rel True s2) (zip fs ds) fs1"
    by blast
  have leneq: "length ds = length fs" "length fs1 = length fs"
    using list_all2_lengthD [OF sizes] list_all2_lengthD [OF s2(5)] by auto
  have at1: "same_shape (fs1 ! i) (fs ! i)" if "i < length fs" for i
    using pass_rel_shape list_all2_nthD [OF s2(5), of i] that leneq by fastforce
  then have "map field_aligned fs1 = map field_aligned fs"
    using leneq same_shape_aligned by (simp add: list_eq_iff_nth_eq)
  then have n: "bytes s2 = sel_data False (map field_aligned fs1) ds @ []"
    using s2(4) by simp
  have sizes1: "list_all2 (\<lambda>f d. field_size f \<le> INT_MAX \<and> length d = field_size f) fs1 ds"
    using sizes at1 leneq by (simp add: list_all2_conv_all_nth same_shape_def)
  from ds_pass [OF s2(2) sizes1 n, of False] obtain fs2 s3 where
    s3: "process_fields (ds_process_field front frontv) False fs1 (False, s2) = Some (fs2, False, s3)"
    "keeps valid rd s2 s3" "bytes s3 = []" "list_all2 (pass_rel False s3) (zip fs1 ds) fs2"
    by blast
  have len2: "length fs2 = length fs"
    using list_all2_lengthD [OF s3(4)] leneq by simp
  have "field_ok s3 (ds ! i) (fs2 ! i) \<and> same_shape (fs2 ! i) (fs ! i)" if "i < length fs" for i
  proof -
    have "pass_rel True s2 (fs ! i, ds ! i) (fs1 ! i)" "pass_rel False s3 (fs1 ! i, ds ! i) (fs2 ! i)"
      using list_all2_nthD [OF s2(5), of i] list_all2_nthD [OF s3(4), of i] that leneq by auto
    then show ?thesis
      using same_shape_aligned [OF at1 [OF that]] at1 [OF that] field_ok_keeps [OF s3(2)]
      by (cases "field_aligned (fs ! i)") (auto simp: pass_rel_def same_shape_def)
  qed
  then have "list_all2 (field_ok s3) ds fs2" "list_all2 same_shape fs2 fs"
    using leneq len2 by (auto simp: list_all2_conv_all_nth)
  moreover have "rd s3 p sz = body"
    using s1(4,5) s2(3) s3(2) by (simp add: keeps_def)
  ultimately show ?thesis
    using s1(1,5) s2(1) s3(1,3) assms(6) by (simp add: deserialize_def)
qed

end

subsection \<open>The iovector as the source of bytes\<close>

definition iv_front :: "(iovector \<times> heap) take_op" where
  "iv_front n s = do { (r, v, h) \<leftarrow> iv_extract_front_continuous n (fst s) (snd s); Some (r, (v, h)) }"

definition iv_frontv :: "(iovector \<times> heap) takev_op" where
  "iv_frontv n s = do {
     (r, out, v, h) \<leftarrow> iv_extract_front_view [] n \<lparr>vw_arr = [], vw_iov = 0, vw_iovcnt = 0\<rparr> (fst s) (snd s);
     Some (r, vw_list out, (v, h))
   }"

definition iv_rear :: "(iovector \<times> heap) take_op" where
  "iv_rear n s = do { (r, v, h) \<leftarrow> iv_extract_back_continuous n (fst s) (snd s); Some (r, (v, h)) }"

definition iv_rd :: "iovector \<times> heap \<Rightarrow> nat \<Rightarrow> nat \<Rightarrow> u8 list" where
  "iv_rd s p n = bytes_at (hmem (snd s)) p n"

definition iv_valid :: "iovector \<times> heap \<Rightarrow> nat \<Rightarrow> nat \<Rightarrow> bool" where
  "iv_valid s p n \<longleftrightarrow> n = 0 \<or> p + n \<le> hbrk (snd s)"

lemma heap_le_keeps: "heap_le h h' \<Longrightarrow> keeps iv_valid iv_rd (v, h) (v', h')"
  by (auto simp: keeps_def iv_valid_def iv_rd_def heap_le_bytes_at heap_le_def)

lemma rd_iovecs_iv [simp]: "rd_iovecs iv_rd s es = iov_bytes (hmem (snd s)) es"
  by (simp add: rd_iovecs_def iov_bytes_def iv_rd_def)

interpretation ivs: byte_source iv_front iv_frontv iv_rear iv_rd iv_bytes iv_inv iv_valid
proof (unfold_locales, goal_cases)
  case (1 s p)
  then show ?case by (simp add: iv_rd_def)
next
  case (2 s p)
  then show ?case by (simp add: iv_valid_def)
next
  case (3 s n)
  obtain v h where s: "s = (v, h)"
    by (cases s)
  with 3 obtain r v' h' where r: "iv_extract_front_continuous n v h = Some (r, v', h')" "iv_inv (v', h')"
    "heap_le h h'" "iv_bytes (v', h') = drop n (iv_bytes (v, h))"
    "\<exists>p. r = Some p \<and> p + n \<le> hbrk h' \<and> bytes_at (hmem h') p n = take n (iv_bytes (v, h))"
    using iv_front_continuous_spec [of v h n] by metis
  then obtain p where "r = Some p" "p + n \<le> hbrk h'" "bytes_at (hmem h') p n = take n (iv_bytes (v, h))"
    by blast
  with r s show ?case
    using heap_le_keeps [OF r(3)] by (simp add: iv_front_def iv_valid_def iv_rd_def)
next
  case (4 s n)
  obtain v h where s: "s = (v, h)"
    by (cases s)
  with 4 obtain out v' h' where
    "iv_extract_front_view [] n \<lparr>vw_arr = [], vw_iov = 0, vw_iovcnt = 0\<rparr> v h = Some (int n, out, v', h')"
    "iv_inv (v', h')" "heap_le h h'" "iv_bytes (v', h') = drop n (iv_bytes (v, h))"
    "iov_bytes (hmem h') (vw_list out) = take n (iv_bytes (v, h))" "iov_sum (vw_list out) = n"
    "\<forall>e \<in> set (vw_list out). iov_base e + iov_len e \<le> hbrk h'"
    using iv_front_view_spec [of v h n "[]"] by metis
  with s show ?case
    using heap_le_keeps [of h h' v v'] by (simp add: iv_frontv_def iv_valid_def)
next
  case (5 s n)
  obtain v h where s: "s = (v, h)"
    by (cases s)
  with 5 obtain r v' h' where r: "iv_extract_back_continuous n v h = Some (r, v', h')" "iv_inv (v', h')"
    "heap_le h h'" "iv_bytes (v', h') = take (length (iv_bytes (v, h)) - n) (iv_bytes (v, h))"
    "\<exists>p. r = Some p \<and> p + n \<le> hbrk h' \<and>
       bytes_at (hmem h') p n = drop (length (iv_bytes (v, h)) - n) (iv_bytes (v, h))"
    using iv_back_continuous_spec [of v h n] by metis
  then obtain p where "r = Some p" "p + n \<le> hbrk h'"
    "bytes_at (hmem h') p n = drop (length (iv_bytes (v, h)) - n) (iv_bytes (v, h))"
    by blast
  with r s show ?case
    using heap_le_keeps [OF r(3)] by (simp add: iv_rear_def iv_valid_def iv_rd_def)
next
  case (6 s n)
  obtain v h where s: "s = (v, h)"
    by (cases s)
  with 6 obtain v' h' where "iv_extract_back_continuous n v h = Some (None, v', h')"
    using iv_back_continuous_spec [of v h n] by (metis not_less)
  with s show ?case
    by (simp add: iv_rear_def)
qed

section \<open>Round trip\<close>

lemma sel_data_iovecs:
  "sel_data flag (map field_aligned fs) (map (\<lambda>f. iov_bytes m (field_iovecs f)) fs) =
     iov_bytes m (sel_iovecs flag fs)"
  by (induction fs) auto

lemma iov_bytes_msg_iovecs:
  "iov_bytes m (msg_iovecs fs addr sz) =
     sel_data True (map field_aligned fs) (map (\<lambda>f. iov_bytes m (field_iovecs f)) fs) @
     sel_data False (map field_aligned fs) (map (\<lambda>f. iov_bytes m (field_iovecs f)) fs) @ bytes_at m addr sz"
  by (simp add: msg_iovecs_def sel_data_iovecs)

definition same_layout :: "msg_field list \<Rightarrow> msg_field list \<Rightarrow> bool" where
  "same_layout fs gs \<longleftrightarrow> map field_kind fs = map field_kind gs \<and> map field_size fs = map field_size gs"

lemma field_kind_aligned: "field_kind f = field_kind g \<Longrightarrow> field_aligned f = field_aligned g"
  by (cases f; cases g) simp_all

lemma kinds_aligned: "map field_kind fs = map field_kind gs \<Longrightarrow> map field_aligned fs = map field_aligned gs"
proof (induction fs arbitrary: gs)
  case (Cons f fs)
  then obtain g gs' where "gs = g # gs'" "field_kind f = field_kind g" "map field_kind fs = map field_kind gs'"
    by (cases gs) auto
  then show ?case
    using Cons.IH [of gs'] field_kind_aligned [of f g] by simp
qed simp

lemma same_layout_aligned: "same_layout fs gs \<Longrightarrow> map field_aligned fs = map field_aligned gs"
  by (rule kinds_aligned) (simp add: same_layout_def)

definition field_data :: "mem \<Rightarrow> msg_field \<Rightarrow> u8 list" where
  "field_data m f = iov_bytes m (field_iovecs f)"

lemma deserialize_iv_spec:
  assumes inv: "iv_inv (v, h)" and "sz \<le> INT_MAX" "\<forall>f \<in> set fs. iov_sum (field_iovecs f) \<le> INT_MAX"
    and input: "iv_bytes (v, h) = iov_bytes m (msg_iovecs fs addr sz)"
    and layout: "same_layout (fields_of (bytes_at m addr sz)) (map field_summed fs)"
  shows "\<exists>p fs' v' h'.
    deserialize iv_front iv_frontv iv_rear iv_rd fields_of sz False (v, h) = Some (Some (p, fs'), False, (v', h')) \<and>
    bytes_at (hmem h') p sz = bytes_at m addr sz \<and> map (field_data (hmem h')) fs' = map (field_data m) fs \<and>
    same_layout fs' (map field_summed fs) \<and> iv_bytes (v', h') = []"
proof -
  let ?fs = "fields_of (bytes_at m addr sz)" and ?ds = "map (field_data m) fs"
  have len: "length ?fs = length fs"
    using layout by (metis length_map same_layout_def)
  have al: "map field_aligned ?fs = map field_aligned fs"
    using same_layout_aligned [OF layout] by (simp add: comp_def)
  have at: "field_size (?fs ! i) = iov_sum (field_iovecs (fs ! i))" if "i < length fs" for i
    using layout that len unfolding same_layout_def by (metis (no_types, lifting) field_summed_simps(4) length_map nth_map)
  have sizes: "list_all2 (\<lambda>f d. field_size f \<le> INT_MAX \<and> length d = field_size f) ?fs ?ds"
    using at len assms(3) by (auto simp: list_all2_conv_all_nth field_data_def)
  have "iv_bytes (v, h) = sel_data True (map field_aligned ?fs) ?ds @
      sel_data False (map field_aligned ?fs) ?ds @ bytes_at m addr sz"
    unfolding input al iov_bytes_msg_iovecs field_data_def ..
  from ivs.deserialize_spec [of "(v, h)" sz ?fs ?ds "bytes_at m addr sz" fields_of, OF inv assms(2) sizes this]
  obtain p fs' v' h' where r:
    "deserialize iv_front iv_frontv iv_rear iv_rd fields_of sz False (v, h) = Some (Some (p, fs'), False, (v', h'))"
    "iv_rd (v', h') p sz = bytes_at m addr sz" "iv_bytes (v', h') = []"
    "list_all2 (ivs.field_ok (v', h')) ?ds fs'" "list_all2 ivs.same_shape fs' ?fs"
    by auto
  have "map (field_data (hmem h')) fs' = ?ds"
    using r(4) by (simp add: list_all2_conv_all_nth list_eq_iff_nth_eq ivs.field_ok_def field_data_def)
  moreover have "same_layout fs' ?fs"
    using r(5) by (simp add: list_all2_conv_all_nth list_eq_iff_nth_eq ivs.same_shape_def same_layout_def)
  ultimately show ?thesis
    using r(1-3) layout by (auto simp: iv_rd_def same_layout_def)
qed


definition demo_serializer :: serializer where
  "demo_serializer =
    \<lparr>sr_iov = iovector_new (replicate 2300 \<lparr>iov_base = 0, iov_len = 0\<rparr>) 2300 1, sr_total_pkg = 0,
     sr_t_iov = iovector_new (replicate 2300 \<lparr>iov_base = 0, iov_len = 0\<rparr>) 2300 8,
     sr_data_pkg_index = replicate 2000 0, sr_iovfull = False, sr_is_sick = False, sr_used_size = 0,
     sr_new_buff = None\<rparr>"

definition demo_received :: "iovector \<times> heap" where
  "demo_received =
    (\<lparr>iv_capacity = 3, iv_begin = 1, iv_end = 3, iv_nbases = 0,
      iv_iovs = [\<lparr>iov_base = 0, iov_len = 0\<rparr>, \<lparr>iov_base = 10, iov_len = 2\<rparr>, \<lparr>iov_base = 50, iov_len = 3\<rparr>]\<rparr>,
     \<lparr>hmem = (\<lambda>a. if a < 12 then word_of_nat (a + 90) else if a < 51 then word_of_nat (a + 52)
                    else word_of_nat (a + 149)), hbrk = 60\<rparr>)"

lemma demo_serializer_ok:
  "sr_ok demo_serializer" "iv_list (sr_iov demo_serializer) = []" "sr_room demo_serializer = 2299"
  by (simp_all add: sr_ok_def sr_room_def demo_serializer_def iovector_new_def iv_ok_def iv_list_def)


end
