(* ===== verification/Packetise.thy ===== *)
theory Packetise
  imports Serialization
begin

section \<open>Cutting a message into packets\<close>

text \<open>
  Correctness of \<^verbatim>\<open>Serializer::init_data_iov\<close>. The proof carries the packets built so far as a
  list of lists of iovecs: all of them but the last are full, \<open>temp\<close> is the room left in the
  last one, their concatenation is what the vector holds, and \<^verbatim>\<open>data_pkg_index\<close> records where
  each of them starts.
\<close>

definition pk_rel :: "nat \<Rightarrow> iovec list list \<Rightarrow> nat \<Rightarrow> bool" where
  "pk_rel mx ps temp \<longleftrightarrow> 0 < temp \<and> temp \<le> mx \<and> (\<forall>p \<in> set (butlast ps). iov_sum p = mx) \<and>
     (if temp = mx then ps = [] \<or> iov_sum (last ps) = mx
      else ps \<noteq> [] \<and> iov_sum (last ps) = mx - temp)"

definition pk_inv :: "nat \<Rightarrow> iovec list list \<Rightarrow> nat \<Rightarrow> serializer \<Rightarrow> bool" where
  "pk_inv mx ps temp s \<longleftrightarrow> sr_ok s \<and> iv_list (sr_iov s) = concat ps \<and>
     length (sr_data_pkg_index s) = 2000 \<and> sr_total_pkg s = length ps \<and>
     (\<forall>k < length ps. sr_data_pkg_index s ! k = length (concat (take k ps))) \<and> pk_rel mx ps temp"

definition pk_add :: "nat \<Rightarrow> nat \<Rightarrow> iovec list list \<Rightarrow> iovec \<Rightarrow> iovec list list" where
  "pk_add mx temp ps e = (if temp = mx then ps @ [[e]] else butlast ps @ [last ps @ [e]])"

definition closed :: "nat \<Rightarrow> nat \<Rightarrow> iovec list list \<Rightarrow> nat" where
  "closed mx temp ps = (if temp = mx then length ps else length ps - 1)"

lemma pk_rel_all_full:
  assumes "pk_rel mx ps mx" "p \<in> set ps"
  shows "iov_sum p = mx"
proof (cases ps rule: rev_cases)
  case (snoc qs q)
  with assms show ?thesis
    by (auto simp: pk_rel_def)
qed (use assms in simp)

lemma concat_pk_add:
  assumes "pk_rel mx ps temp"
  shows "concat (pk_add mx temp ps e) = concat ps @ [e]"
proof (cases ps rule: rev_cases)
  case (snoc qs q)
  then show ?thesis
    by (simp add: pk_add_def)
qed (use assms in \<open>simp add: pk_add_def pk_rel_def split: if_splits\<close>)

lemma pk_rel_add:
  assumes "pk_rel mx ps temp" "0 < iov_len e" "iov_len e \<le> temp"
  shows "pk_rel mx (pk_add mx temp ps e) (if iov_len e = temp then mx else temp - iov_len e)"
proof (cases "temp = mx")
  case True
  then have "\<forall>p \<in> set ps. iov_sum p = mx"
    using assms(1) pk_rel_all_full by blast
  then show ?thesis
    using True assms by (cases "iov_len e = mx") (simp_all add: pk_rel_def pk_add_def)
next
  case False
  have "temp \<le> mx"
    using assms(1) by (simp add: pk_rel_def)
  then have "temp - iov_len e < mx"
    using assms(2,3) by linarith
  with False show ?thesis
    using assms by (cases "iov_len e = temp") (simp_all add: pk_rel_def pk_add_def)
qed

lemma iov_sum_concat_full: "\<forall>p \<in> set ps. iov_sum p = mx \<Longrightarrow> iov_sum (concat ps) = length ps * mx"
  by (induction ps) auto

lemma pk_rel_sum:
  assumes "pk_rel mx ps temp"
  shows "iov_sum (concat ps) + (if temp = mx then 0 else temp) = length ps * mx"
proof (cases "temp = mx")
  case True
  then have "\<forall>p \<in> set ps. iov_sum p = mx"
    using assms pk_rel_all_full by blast
  then show ?thesis
    using True iov_sum_concat_full by simp
next
  case False
  then obtain qs q where "ps = qs @ [q]" "\<forall>p \<in> set qs. iov_sum p = mx" "iov_sum q = mx - temp" "temp \<le> mx"
    using assms by (cases ps rule: rev_cases) (auto simp: pk_rel_def)
  then show ?thesis
    using False iov_sum_concat_full by simp
qed

text \<open>One push into the vector, preceded by the start of a new packet when the last one is full.\<close>

lemma pk_push:
  assumes inv: "pk_inv mx ps temp s" and n: "0 < n" "n \<le> temp"
    and room: "iv_end (sr_iov s) < 2300" "length ps < 2000"
  obtains s1 v where "(if temp = mx then record_pkg s else Some s) = Some s1"
    "iv_push_back_buf b n (sr_iov s1) = Some (n, v)"
    "pk_inv mx (pk_add mx temp ps \<lparr>iov_base = b, iov_len = n\<rparr>) (if n = temp then mx else temp - n)
       (s1\<lparr>sr_iov := v\<rparr>)"
    "iv_begin v = iv_begin (sr_iov s)" "iv_end v = iv_end (sr_iov s) + 1"
proof -
  let ?e = "\<lparr>iov_base = b, iov_len = n\<rparr>"
  have ok: "sr_ok s" and list: "iv_list (sr_iov s) = concat ps" and rel: "pk_rel mx ps temp"
    and idx: "length (sr_data_pkg_index s) = 2000" "sr_total_pkg s = length ps"
      "\<forall>k < length ps. sr_data_pkg_index s ! k = length (concat (take k ps))"
    using inv by (auto simp: pk_inv_def)
  have iov: "iv_ok (sr_iov s)" "iv_capacity (sr_iov s) = 2300"
    using ok by (auto simp: sr_ok_def)
  have cap_id: "(sr_iov s)\<lparr>iv_capacity := 2300\<rparr> = sr_iov s"
    using iov(2) by simp
  have cnt: "iv_iovcnt (sr_iov s) = Some (length (concat ps))"
    using iov(1) list length_iv_list [of "sr_iov s"] by (simp add: iv_iovcnt_def)
  define s1 where "s1 = (if temp = mx then s\<lparr>sr_data_pkg_index := (sr_data_pkg_index s)[length ps := length (concat ps)],
      sr_total_pkg := length ps + 1\<rparr> else s)"
  have s1: "(if temp = mx then record_pkg s else Some s) = Some s1"
    using cnt idx room(2) by (simp add: s1_def record_pkg_def)
  have s1_iov: "sr_iov s1 = sr_iov s"
    by (simp add: s1_def)
  obtain v where v: "iv_push_back ?e (sr_iov s) = Some (n, v)" "iv_list v = iv_list (sr_iov s) @ [?e]" "iv_ok v"
    "iv_begin v = iv_begin (sr_iov s)" "iv_end v = iv_end (sr_iov s) + 1" "iv_capacity v = 2300"
    "length (iv_iovs v) = length (iv_iovs (sr_iov s))"
    using iv_push_back_spec [OF iov(1), of ?e] room(1) iov(2) by auto
  have push: "iv_push_back_buf b n (sr_iov s1) = Some (n, v)"
    unfolding iv_push_back_buf_def s1_iov cap_id by (rule v(1))
  have new_rel: "pk_rel mx (pk_add mx temp ps ?e) (if n = temp then mx else temp - n)"
    using pk_rel_add [OF rel, of ?e] n by (cases "n = temp") simp_all
  have starts: "\<forall>k < length (pk_add mx temp ps ?e). sr_data_pkg_index s1 ! k =
      length (concat (take k (pk_add mx temp ps ?e)))"
  proof (cases "temp = mx")
    case True
    then show ?thesis
      using idx room(2) by (auto simp: s1_def pk_add_def less_Suc_eq nth_list_update)
  next
    case False
    then obtain qs q where "ps = qs @ [q]"
      using rel by (cases ps rule: rev_cases) (auto simp: pk_rel_def)
    then show ?thesis
      using False idx(3) by (auto simp: s1_def pk_add_def)
  qed
  have "sr_total_pkg s1 = length (pk_add mx temp ps ?e)"
    using rel idx(2) by (auto simp: s1_def pk_add_def pk_rel_def split: if_splits)
  moreover have "length (sr_data_pkg_index s1) = 2000"
    using idx(1) by (simp add: s1_def)
  ultimately have "pk_inv mx (pk_add mx temp ps ?e) (if n = temp then mx else temp - n) (s1\<lparr>sr_iov := v\<rparr>)"
    using v(2-) ok list concat_pk_add [OF rel] new_rel starts by (simp add: pk_inv_def sr_ok_def)
  then show thesis
    using that s1 push v(4,5) by blast
qed

text \<open>The inner loop. \<open>N\<close> bounds the number of packets, \<open>f\<close> counts the iovecs that are finished.\<close>

lemma pk_rel_closed_less:
  assumes "pk_rel mx ps temp" "iov_sum (concat ps) + len \<le> N * mx" "0 < len"
  shows "closed mx temp ps < N" "length ps \<le> N" "temp = mx \<Longrightarrow> length ps < N"
proof -
  have mx: "0 < mx"
    using assms(1) by (simp add: pk_rel_def)
  have "closed mx temp ps * mx \<le> iov_sum (concat ps)"
  proof (cases "temp = mx")
    case True
    then show ?thesis
      using pk_rel_sum [OF assms(1)] by (simp add: closed_def)
  next
    case False
    then have "length ps = Suc (length ps - 1)" "temp \<le> mx"
      using assms(1) by (auto simp: pk_rel_def)
    then have "length ps * mx = (length ps - 1) * mx + mx"
      by (metis mult_Suc add.commute)
    then show ?thesis
      using pk_rel_sum [OF assms(1)] False \<open>temp \<le> mx\<close> by (simp add: closed_def)
  qed
  then have "closed mx temp ps * mx < N * mx"
    using assms(2,3) by linarith
  then show "closed mx temp ps < N"
    using mx by simp
  then show "length ps \<le> N" "temp = mx \<Longrightarrow> length ps < N"
    by (auto simp: closed_def split: if_splits)
qed

lemma closed_add:
  assumes "pk_rel mx ps temp"
  shows "closed mx (if n = temp then mx else temp - n) (pk_add mx temp ps e) =
     (if n = temp then closed mx temp ps + 1 else closed mx temp ps) \<or> n = 0"
  using assms by (auto simp: closed_def pk_add_def pk_rel_def)

lemma split_iovec_spec:
  assumes "pk_inv mx ps temp s" "iov_sum (concat ps) + iov_len e \<le> N * mx"
    and "iv_end (sr_iov s) = iv_begin (sr_iov s) + length (concat ps)"
    and "length (concat ps) \<le> f + closed mx temp ps" "f < cnt"
    and "iv_begin (sr_iov s) + cnt + N \<le> 2300" "N < 2000"
  shows "\<exists>ps' temp' s' e'. split_iovec mx e temp s = Some (e', temp', s') \<and> pk_inv mx ps' temp' s' \<and>
    iov_sum (concat ps') = iov_sum (concat ps) + iov_len e \<and>
    (\<forall>m. iov_bytes m (concat ps') = iov_bytes m (concat ps) @ bytes_at m (iov_base e) (iov_len e)) \<and>
    iv_begin (sr_iov s') = iv_begin (sr_iov s) \<and>
    iv_end (sr_iov s') = iv_begin (sr_iov s') + length (concat ps') \<and>
    length (concat ps') \<le> f + 1 + closed mx temp' ps'"
  using assms
proof (induction "iov_len e" arbitrary: e ps temp s rule: less_induct)
  case less
  show ?case
  proof (cases "iov_len e = 0")
    case True
    then show ?thesis
      using less.prems by (subst split_iovec.simps) (auto intro!: exI [of _ ps])
  next
    case False
    have rel: "pk_rel mx ps temp"
      using less.prems(1) by (simp add: pk_inv_def)
    define n where "n = min temp (iov_len e)"
    let ?p = "\<lparr>iov_base = iov_base e, iov_len = n\<rparr>" and ?t = "if n = temp then mx else temp - n"
    let ?ps = "pk_add mx temp ps ?p"
    have n: "0 < n" "n \<le> temp" "n \<le> iov_len e"
      using False rel by (auto simp: n_def pk_rel_def)
    note bound = pk_rel_closed_less [OF rel less.prems(2)] False
    have "iv_end (sr_iov s) < 2300" "length ps < 2000"
      using bound less.prems(3-7) by auto
    from pk_push [OF less.prems(1) n(1,2) this, of "iov_base e"] obtain s1 v where
      s1: "(if temp = mx then record_pkg s else Some s) = Some s1"
      "iv_push_back_buf (iov_base e) n (sr_iov s1) = Some (n, v)" "pk_inv mx ?ps ?t (s1\<lparr>sr_iov := v\<rparr>)"
      "iv_begin v = iv_begin (sr_iov s)" "iv_end v = iv_end (sr_iov s) + 1"
      by blast
    let ?e = "e\<lparr>iov_base := iov_base e + n, iov_len := iov_len e - n\<rparr>" and ?s = "s1\<lparr>sr_iov := v\<rparr>"
    have loop: "split_iovec mx e temp s = split_iovec mx ?e ?t ?s"
      using False s1(1,2) rel
      by (subst split_iovec.simps) (auto simp: n_def min_def)
    note cat = concat_pk_add [OF rel, of ?p]
    have cl: "closed mx ?t ?ps = (if n = temp then closed mx temp ps + 1 else closed mx temp ps)"
      using closed_add [OF rel, of n ?p] n(1) by auto
    have bytes: "bytes_at m (iov_base e) (iov_len e) =
        bytes_at m (iov_base e) n @ bytes_at m (iov_base e + n) (iov_len e - n)" for m
      using n(3) bytes_at_add [of m "iov_base e" n "iov_len e - n"] by simp
    have sum: "iov_sum (concat ?ps) + iov_len ?e \<le> N * mx"
      "iov_sum (concat ?ps) + iov_len ?e = iov_sum (concat ps) + iov_len e"
      using less.prems(2) cat n(3) by auto
    have ends: "iv_end (sr_iov ?s) = iv_begin (sr_iov ?s) + length (concat ?ps)"
      using s1(4,5) less.prems(3) cat by simp
    show ?thesis
    proof (cases "n = temp")
      case True
      have "length (concat ?ps) \<le> f + closed mx ?t ?ps"
        using cl True less.prems(4) cat by simp
      moreover have "iov_len ?e < iov_len e"
        using n by simp
      ultimately show ?thesis
        using less.hyps [of ?e ?ps ?t ?s] s1(3,4) sum ends less.prems(5-7) loop bytes cat by auto
    next
      case no: False
      then have e0: "iov_len ?e = 0" "n = iov_len e"
        by (auto simp: n_def min_def split: if_splits)
      then have "split_iovec mx e temp s = Some (?e, ?t, ?s)"
        unfolding loop by (subst split_iovec.simps) simp
      moreover have "length (concat ?ps) \<le> f + 1 + closed mx ?t ?ps"
        using cl no less.prems(4) cat by simp
      ultimately show ?thesis
        using s1(3,4) sum ends bytes cat e0 by auto
    qed
  qed
qed

lemma split_iovecs_spec:
  assumes "pk_inv mx ps temp s" "iov_sum (concat ps) + iov_sum es \<le> N * mx"
    and "iv_end (sr_iov s) = iv_begin (sr_iov s) + length (concat ps)"
    and "length (concat ps) \<le> f + closed mx temp ps" "f + length es \<le> cnt"
    and "iv_begin (sr_iov s) + cnt + N \<le> 2300" "N < 2000"
  shows "\<exists>ps' temp' s' es'. split_iovecs mx es temp s = Some (es', temp', s') \<and> pk_inv mx ps' temp' s' \<and>
    iov_sum (concat ps') = iov_sum (concat ps) + iov_sum es \<and>
    (\<forall>m. iov_bytes m (concat ps') = iov_bytes m (concat ps) @ iov_bytes m es) \<and>
    iv_begin (sr_iov s') = iv_begin (sr_iov s) \<and>
    iv_end (sr_iov s') = iv_begin (sr_iov s') + length (concat ps')"
  using assms
proof (induction es arbitrary: ps temp s f)
  case Nil
  then show ?case by auto
next
  case (Cons e es)
  have "iov_sum (concat ps) + iov_len e \<le> N * mx" "f < cnt"
    using Cons.prems(2,5) by auto
  from split_iovec_spec [OF Cons.prems(1) this(1) Cons.prems(3,4) this(2) Cons.prems(6,7)]
  obtain ps1 t1 s1 e1 where s1: "split_iovec mx e temp s = Some (e1, t1, s1)" "pk_inv mx ps1 t1 s1"
    "iov_sum (concat ps1) = iov_sum (concat ps) + iov_len e"
    "\<forall>m. iov_bytes m (concat ps1) = iov_bytes m (concat ps) @ bytes_at m (iov_base e) (iov_len e)"
    "iv_begin (sr_iov s1) = iv_begin (sr_iov s)"
    "iv_end (sr_iov s1) = iv_begin (sr_iov s1) + length (concat ps1)"
    "length (concat ps1) \<le> f + 1 + closed mx t1 ps1"
    by blast
  have "iov_sum (concat ps1) + iov_sum es \<le> N * mx" "f + 1 + length es \<le> cnt"
    "iv_begin (sr_iov s1) + cnt + N \<le> 2300"
    using s1(3,5) Cons.prems(2,5,6) by auto
  from Cons.IH [OF s1(2) this(1) s1(6,7) this(2,3) Cons.prems(7)] s1 show ?case
    by fastforce
qed

lemma push_back_all_spec:
  assumes "iv_ok v" "iv_end v + length es \<le> iv_capacity v"
  shows "\<exists>v'. push_back_all es v = Some v' \<and> iv_ok v' \<and> iv_list v' = iv_list v @ es"
  using assms
proof (induction es arbitrary: v)
  case (Cons e es)
  then have "iv_end v < iv_capacity v"
    by simp
  from iv_push_back_spec [OF Cons.prems(1) this, of e] obtain v1 where
    "iv_push_back e v = Some (iov_len e, v1)" "iv_list v1 = iv_list v @ [e]" "iv_ok v1"
    "iv_end v1 = iv_end v + 1" "iv_capacity v1 = iv_capacity v"
    by metis
  then show ?case
    using Cons.IH [of v1] Cons.prems(2) by auto
qed simp

lemma iv_clear_spec: "iv_ok v \<Longrightarrow> iv_clear v = Some (v\<lparr>iv_end := iv_begin v\<rparr>)"
  by (simp add: iv_clear_def)

lemma iv_sum_spec: "iv_ok v \<Longrightarrow> iv_sum v = Some (iov_sum (iv_list v))"
  by (rule iv_view_ok [of v]) (simp_all add: iv_sum_def vw_sum_eq)

text \<open>The number of packets, as \<^verbatim>\<open>data_size_to_num_pkts\<close> computes it for a non-empty message.\<close>

definition num_pkts :: "nat \<Rightarrow> nat \<Rightarrow> nat" where
  "num_pkts mx tot = (if tot \<le> mx then 1 else (tot + mx - 1) div mx)"

lemma nat_div_eqI: "a = q * b + r \<Longrightarrow> r < b \<Longrightarrow> a div b = q" for a b q r :: nat
  by simp

lemma num_pkts_eq:
  assumes "0 < mx" "mx < tot"
  shows "tot div mx + (if tot mod mx \<noteq> 0 then 1 else 0) = num_pkts mx tot"
proof (cases "tot mod mx = 0")
  case True
  then have "tot + mx - 1 = (tot div mx) * mx + (mx - 1)"
    using assms(1) mult_div_mod_eq [of mx tot] by (simp add: mult.commute)
  then have "(tot + mx - 1) div mx = tot div mx"
    by (rule nat_div_eqI) (use assms(1) in simp)
  then show ?thesis
    using True assms(2) by (simp add: num_pkts_def)
next
  case False
  have "tot = (tot div mx) * mx + tot mod mx" "(tot div mx + 1) * mx = (tot div mx) * mx + mx"
    by simp_all
  then have "tot + mx - 1 = (tot div mx + 1) * mx + (tot mod mx - 1)"
    using False by linarith
  moreover have "tot mod mx - 1 < mx"
    using assms(1) by (simp add: less_imp_diff_less)
  ultimately have "(tot + mx - 1) div mx = tot div mx + 1"
    by (rule nat_div_eqI)
  then show ?thesis
    using False assms(2) by (simp add: num_pkts_def)
qed

lemma num_pkts_bound:
  fixes mx tot :: nat
  assumes "0 < mx"
  shows "tot \<le> (tot div mx + (if tot mod mx \<noteq> 0 then 1 else 0)) * mx"
proof -
  have 1: "tot = (tot div mx) * mx + tot mod mx" "tot mod mx < mx"
    using assms by simp_all
  show ?thesis
  proof (cases "tot mod mx = 0")
    case False
    have "(tot div mx + 1) * mx = (tot div mx) * mx + mx"
      by simp
    then have "tot \<le> (tot div mx + 1) * mx"
      using 1 by linarith
    with False show ?thesis
      by simp
  qed (use 1 in simp)
qed

lemma num_pkts_unique:
  assumes "0 < mx" "mx < tot" "tot + t = n * mx" "t < mx"
  shows "n = num_pkts mx tot"
proof -
  have "tot + mx - 1 = n * mx + (mx - 1 - t)"
    using assms by linarith
  moreover have "mx - 1 - t < mx"
    using assms(1) by simp
  ultimately have "(tot + mx - 1) div mx = n"
    by (rule nat_div_eqI)
  then show ?thesis
    using assms(2) by (simp add: num_pkts_def)
qed

text \<open>\<open>packets_ok mx L n s ps\<close>: the serializer \<open>s\<close> holds the \<open>n\<close> packets \<open>ps\<close>, which carry the
  bytes of the iovecs \<open>L\<close>: all of them are full but possibly the last one, and the index
  table delimits them.\<close>

definition packets_ok :: "nat \<Rightarrow> iovec list \<Rightarrow> nat \<Rightarrow> serializer \<Rightarrow> iovec list list \<Rightarrow> bool" where
  "packets_ok mx L n s ps \<longleftrightarrow> length ps = n \<and> sr_total_pkg s = n \<and> iv_list (sr_iov s) = concat ps \<and>
     (\<forall>k \<le> n. sr_data_pkg_index s ! k = length (concat (take k ps))) \<and>
     (\<forall>k < n. iov_sum (ps ! k) = (if k + 1 < n then mx else iov_sum L - (n - 1) * mx)) \<and>
     (\<forall>m. iov_bytes m (concat ps) = iov_bytes m L)"

lemma pk_inv_packets:
  assumes "pk_inv mx ps temp s" "iov_sum (concat ps) = iov_sum L" "mx < iov_sum L"
    and "\<forall>m. iov_bytes m (concat ps) = iov_bytes m L"
  shows "length ps = num_pkts mx (iov_sum L)"
    "length ps < 2000 \<Longrightarrow> packets_ok mx L (length ps)
       (s\<lparr>sr_data_pkg_index := (sr_data_pkg_index s)[length ps := length (concat ps)]\<rparr>) ps"
proof -
  have rel: "pk_rel mx ps temp"
    using assms(1) by (simp add: pk_inv_def)
  then have mx: "0 < mx" "0 < temp" "temp \<le> mx"
    by (auto simp: pk_rel_def)
  define t where "t = (if temp = mx then 0 else temp)"
  have sum: "iov_sum L + t = length ps * mx" "t < mx"
    using pk_rel_sum [OF rel] assms(2) mx by (auto simp: t_def)
  show n: "length ps = num_pkts mx (iov_sum L)"
    using num_pkts_unique [OF mx(1) assms(3) sum] .
  have ne: "ps \<noteq> []"
    using sum assms(3) by auto
  have "length ps * mx = (length ps - 1) * mx + mx"
    using ne by (metis One_nat_def Suc_pred add.commute length_greater_0_conv mult_Suc)
  then have last: "iov_sum (last ps) = iov_sum L - (length ps - 1) * mx"
    using rel ne sum mx by (auto simp: pk_rel_def t_def split: if_splits)
  have "iov_sum (ps ! k) = mx" if "k + 1 < length ps" for k
    using rel that by (auto simp: pk_rel_def nth_butlast [symmetric] intro: nth_mem)
  moreover have "ps ! k = last ps" if "k < length ps" "\<not> k + 1 < length ps" for k
  proof -
    have "k = length ps - 1"
      using that by linarith
    with ne show ?thesis
      by (simp add: last_conv_nth)
  qed
  ultimately have "\<forall>k < length ps. iov_sum (ps ! k) =
      (if k + 1 < length ps then mx else iov_sum L - (length ps - 1) * mx)"
    using last by auto
  then show "packets_ok mx L (length ps)
      (s\<lparr>sr_data_pkg_index := (sr_data_pkg_index s)[length ps := length (concat ps)]\<rparr>) ps" if "length ps < 2000"
    using assms(1,4) that by (auto simp: packets_ok_def pk_inv_def nth_list_update le_less)
qed

lemma init_data_iov_single:
  assumes ok: "sr_ok s" and idx: "length (sr_data_pkg_index s) = 2000"
    and small: "iov_sum (iv_list (sr_iov s)) \<le> mx"
  shows "\<exists>s' ps. init_data_iov mx s = Some (1, s') \<and> packets_ok mx (iv_list (sr_iov s)) 1 s' ps \<and>
    iv_begin (sr_iov s') = iv_begin (sr_iov s)"
proof -
  let ?L = "iv_list (sr_iov s)"
  let ?s = "s\<lparr>sr_total_pkg := 1, sr_data_pkg_index := (sr_data_pkg_index s)[0 := 0, 1 := length ?L]\<rparr>"
  have iov: "iv_ok (sr_iov s)"
    using ok by (simp add: sr_ok_def)
  then have "iv_iovcnt (sr_iov s) = Some (length ?L)"
    by (simp add: iv_iovcnt_def)
  then have "init_data_iov mx s = Some (1, ?s)"
    using small iv_sum_spec [OF iov] by (simp add: init_data_iov_def)
  moreover have "packets_ok mx ?L 1 ?s [?L]"
    using idx by (auto simp: packets_ok_def le_Suc_eq nth_list_update)
  ultimately show ?thesis
    by auto
qed

lemma init_data_iov_multi:
  assumes ok: "sr_ok s" and t: "iv_ok (sr_t_iov s)" and idx: "length (sr_data_pkg_index s) = 2000"
    and fit_t: "iv_begin (sr_t_iov s) + length (iv_list (sr_iov s)) \<le> iv_capacity (sr_t_iov s)"
    and mx: "0 < mx" and large: "mx < iov_sum (iv_list (sr_iov s))"
    and fit: "length (iv_list (sr_iov s)) + 2 * num_pkts mx (iov_sum (iv_list (sr_iov s))) \<le> 2300"
  shows "\<exists>s' ps. init_data_iov mx s = Some (num_pkts mx (iov_sum (iv_list (sr_iov s))), s') \<and>
    packets_ok mx (iv_list (sr_iov s)) (num_pkts mx (iov_sum (iv_list (sr_iov s)))) s' ps \<and>
    iv_begin (sr_iov s') = num_pkts mx (iov_sum (iv_list (sr_iov s)))"
proof -
  let ?L = "iv_list (sr_iov s)"
  let ?tot = "iov_sum ?L" and ?N = "num_pkts mx (iov_sum ?L)"
  have iov: "iv_ok (sr_iov s)" "iv_capacity (sr_iov s) = 2300" "length (iv_iovs (sr_iov s)) = 2300"
    using ok by (auto simp: sr_ok_def)
  have cnt: "iv_iovcnt (sr_iov s) = Some (length ?L)"
    using iov(1) by (simp add: iv_iovcnt_def)
  obtain va where va: "iv_view (sr_iov s) = Some va" "vw_list va = ?L"
    using iv_view_ok [OF iov(1)] by metis
  have N: "?tot div mx + (if ?tot mod mx \<noteq> 0 then 1 else 0) = ?N"
    using num_pkts_eq [OF mx large] .
  let ?t0 = "(sr_t_iov s)\<lparr>iv_end := iv_begin (sr_t_iov s)\<rparr>"
  have t0: "iv_ok ?t0" "iv_list ?t0 = []"
    using t by (auto simp: iv_ok_def iv_list_def)
  obtain t1 where t1: "push_back_all ?L ?t0 = Some t1" "iv_ok t1" "iv_list t1 = ?L"
    using push_back_all_spec [OF t0(1), of ?L] fit_t t0(2) by auto
  obtain tv where tv: "iv_view t1 = Some tv" "vw_list tv = ?L"
    using iv_view_ok [OF t1(2)] t1(3) by metis
  let ?iov = "(sr_iov s)\<lparr>iv_begin := ?N, iv_end := ?N\<rparr>"
  let ?s1 = "s\<lparr>sr_t_iov := t1, sr_iov := ?iov, sr_total_pkg := 0\<rparr>"
  have inv1: "pk_inv mx [] mx ?s1"
    using iov fit idx mx by (auto simp: pk_inv_def sr_ok_def iv_ok_def iv_list_def pk_rel_def)
  have bound: "?tot \<le> ?N * mx"
    using N num_pkts_bound [OF mx, of ?tot] by simp
  obtain ps temp s2 es where s2: "split_iovecs mx ?L mx ?s1 = Some (es, temp, s2)" "pk_inv mx ps temp s2"
    "iov_sum (concat ps) = ?tot" "\<forall>m. iov_bytes m (concat ps) = iov_bytes m ?L"
    "iv_begin (sr_iov s2) = ?N" "iv_end (sr_iov s2) = ?N + length (concat ps)"
    using split_iovecs_spec [OF inv1, of ?L ?N 0 "length ?L"] bound fit by auto
  have len: "length ps = ?N"
    using pk_inv_packets(1) [OF s2(2,3) large s2(4)] .
  have small: "?N < 2000" "u16_of ?N = ?N"
    using fit by simp_all
  let ?s3 = "s2\<lparr>sr_t_iov := t1\<lparr>iv_iovs := take (iv_begin t1) (iv_iovs t1) @ es @ drop (iv_end t1) (iv_iovs t1)\<rparr>\<rparr>"
  have inv3: "pk_inv mx ps temp ?s3"
    using s2(2) by (simp add: pk_inv_def sr_ok_def)
  have cnt3: "iv_iovcnt (sr_iov s2) = Some (length (concat ps))" "sr_total_pkg s2 = length ps"
    "length (sr_data_pkg_index s2) = 2000"
    using s2(2) length_iv_list [of "sr_iov s2"] by (auto simp: pk_inv_def sr_ok_def iv_iovcnt_def)
  have "init_data_iov mx s = Some (length ps,
      ?s3\<lparr>sr_data_pkg_index := (sr_data_pkg_index ?s3)[length ps := length (concat ps)]\<rparr>)"
    using large cnt va tv t1 s2(1) cnt3 small(1) len N small(2) iv_sum_spec [OF iov(1)] iv_sum_spec [OF t1(2)]
      iv_clear_spec [OF iov(1)] iv_clear_spec [OF t]
    by (simp add: init_data_iov_def Let_def)
  moreover have "packets_ok mx ?L (length ps)
      (?s3\<lparr>sr_data_pkg_index := (sr_data_pkg_index ?s3)[length ps := length (concat ps)]\<rparr>) ps"
    using pk_inv_packets(2) [OF inv3 s2(3) large s2(4)] len small(1) by simp
  moreover have "iv_begin (sr_iov (?s3\<lparr>sr_data_pkg_index := (sr_data_pkg_index ?s3)[length ps := length (concat ps)]\<rparr>)) = ?N"
    using s2(5) by simp
  ultimately show ?thesis
    using len by metis
qed

text \<open>(C9) \<^verbatim>\<open>init_data_iov\<close> cuts a message of any size into packets. It returns the number of packets,
  \<open>ceil(size / maxDataPerPkt)\<close> and at least one; the packets carry the bytes of the message in
  order; every packet but the last is full; \<^verbatim>\<open>data_pkg_index\<close> delimits them; and the vector
  keeps one free entry per packet in front for the packet headers. The 2300 entries have to
  suffice for the headers and the pieces.\<close>

theorem init_data_iov_packetises:
  assumes "sr_ok s" "iv_ok (sr_t_iov s)" "length (sr_data_pkg_index s) = 2000"
    and "iv_begin (sr_t_iov s) + length (iv_list (sr_iov s)) \<le> iv_capacity (sr_t_iov s)"
    and "0 < mx"
    and "length (iv_list (sr_iov s)) + 2 * num_pkts mx (iov_sum (iv_list (sr_iov s))) \<le> 2300"
  shows "\<exists>s' ps. init_data_iov mx s = Some (num_pkts mx (iov_sum (iv_list (sr_iov s))), s') \<and>
    packets_ok mx (iv_list (sr_iov s)) (num_pkts mx (iov_sum (iv_list (sr_iov s)))) s' ps \<and>
    iv_begin (sr_iov s') = (if iov_sum (iv_list (sr_iov s)) \<le> mx then iv_begin (sr_iov s)
                            else num_pkts mx (iov_sum (iv_list (sr_iov s))))"
proof (cases "iov_sum (iv_list (sr_iov s)) \<le> mx")
  case True
  then show ?thesis
    using init_data_iov_single [OF assms(1,3) True] by (simp add: num_pkts_def)
next
  case False
  then show ?thesis
    using init_data_iov_multi [OF assms(1-5) _ assms(6)] by simp
qed

definition demo_message :: serializer where
  "demo_message = demo_serializer\<lparr>sr_iov :=
    \<lparr>iv_capacity = 2300, iv_begin = 1, iv_end = 3, iv_nbases = 0,
     iv_iovs = [\<lparr>iov_base = 0, iov_len = 0\<rparr>, \<lparr>iov_base = 100, iov_len = 3\<rparr>, \<lparr>iov_base = 200, iov_len = 4\<rparr>] @
               replicate 2297 \<lparr>iov_base = 0, iov_len = 0\<rparr>\<rparr>\<rparr>"

theorem init_data_iov_packetises_witness:
  "\<exists>s' ps. init_data_iov 3 demo_message = Some (3, s') \<and>
    packets_ok 3 [\<lparr>iov_base = 100, iov_len = 3\<rparr>, \<lparr>iov_base = 200, iov_len = 4\<rparr>] 3 s' ps \<and>
    iv_begin (sr_iov s') = 3"
proof -
  have list: "iv_list (sr_iov demo_message) =
      [\<lparr>iov_base = 100, iov_len = 3\<rparr>, \<lparr>iov_base = 200, iov_len = 4\<rparr>]"
    by (simp add: demo_message_def iv_list_def)
  have pre: "sr_ok demo_message" "iv_ok (sr_t_iov demo_message)"
    "length (sr_data_pkg_index demo_message) = 2000" "iv_begin (sr_t_iov demo_message) = 8"
    "iv_capacity (sr_t_iov demo_message) = 2300"
    by (simp_all add: sr_ok_def iv_ok_def demo_message_def demo_serializer_def iovector_new_def)
  show ?thesis
    using init_data_iov_packetises [of demo_message 3] pre by (simp add: list num_pkts_def)
qed

end
