(* ===== verification/Raft_Log.thy ===== *)
theory Raft_Log
  imports Prelude
begin

section \<open>The Raft log\<close>

text \<open>
  Model of the replicated log of apps/smr/willemt_raft (src/raft_log.c): a ring of entries that
  grows by doubling, with the index of the last compacted entry as its base. Entry \<open>base + 1\<close>
  is at \<^verbatim>\<open>front\<close>. The callbacks a log operation makes, and the notifications it sends to the
  server (\<^verbatim>\<open>raft_offer_log\<close>, \<^verbatim>\<open>raft_pop_log\<close>), act on the rest of the server, which is the
  type parameter \<open>'s\<close>; they are the record \<open>log_hooks\<close>, which the server theory fills in.
  Indices and terms are \<^verbatim>\<open>long\<close> and modelled by \<open>int\<close>; conversions to \<^verbatim>\<open>int\<close> truncate.

  \<open>log_list\<close> is the list of entries a log holds. The lemmas show that every operation is the
  expected list operation on it, and the locale \<open>indexed_log\<close> is the interface by which the
  server uses the log.
\<close>

type_synonym raft_index_t = int
type_synonym raft_term_t = int
type_synonym raft_node_id_t = int

definition RAFT_ERR_NOT_LEADER :: int where "RAFT_ERR_NOT_LEADER = - 2"
definition RAFT_ERR_ONE_VOTING_CHANGE_ONLY :: int where "RAFT_ERR_ONE_VOTING_CHANGE_ONLY = - 3"
definition RAFT_ERR_SHUTDOWN :: int where "RAFT_ERR_SHUTDOWN = - 4"
definition RAFT_ERR_NOMEM :: int where "RAFT_ERR_NOMEM = - 5"
definition RAFT_ERR_NEEDS_SNAPSHOT :: int where "RAFT_ERR_NEEDS_SNAPSHOT = - 6"
definition RAFT_ERR_SNAPSHOT_IN_PROGRESS :: int where "RAFT_ERR_SNAPSHOT_IN_PROGRESS = - 7"
definition RAFT_ERR_SNAPSHOT_ALREADY_LOADED :: int where "RAFT_ERR_SNAPSHOT_ALREADY_LOADED = - 8"

record raft_entry =
  ety_term :: raft_term_t
  ety_id :: int
  ety_type :: int
  ety_buf :: nat
  ety_len :: nat

definition zero_entry :: raft_entry where
  "zero_entry = \<lparr>ety_term = 0, ety_id = 0, ety_type = 0, ety_buf = 0, ety_len = 0\<rparr>"

record raft_log =
  lg_size :: raft_index_t
  lg_count :: raft_index_t
  lg_front :: raft_index_t
  lg_back :: raft_index_t
  lg_base :: raft_index_t
  lg_entries :: "raft_entry list"

text \<open>A callback that is not installed is \<open>None\<close>. \<^verbatim>\<open>log_offer\<close> gets a pointer to the stored entry
  and may rewrite it, usually its data. \<open>lh_alloc\<close> says whether an allocation succeeds.\<close>

record 's log_hooks =
  lh_offer :: "(raft_entry \<Rightarrow> raft_index_t \<Rightarrow> 's \<Rightarrow> int \<times> raft_entry \<times> 's) option"
  lh_raft_offer :: "raft_entry \<Rightarrow> raft_index_t \<Rightarrow> 's \<Rightarrow> 's option"
  lh_pop :: "(raft_entry \<Rightarrow> raft_index_t \<Rightarrow> 's \<Rightarrow> int \<times> 's) option"
  lh_raft_pop :: "raft_entry \<Rightarrow> raft_index_t \<Rightarrow> 's \<Rightarrow> 's option"
  lh_poll :: "(raft_entry \<Rightarrow> raft_index_t \<Rightarrow> 's \<Rightarrow> int \<times> 's) option"
  lh_clear :: "(raft_entry \<Rightarrow> raft_index_t \<Rightarrow> 's \<Rightarrow> int \<times> 's) option"
  lh_alloc :: "'s \<Rightarrow> bool \<times> 's"

subsection \<open>Operations\<close>

definition log_mod :: "raft_index_t \<Rightarrow> raft_index_t \<Rightarrow> int" where
  "log_mod a b = (let r = to_int32 (c_rem a b) in if r < 0 then to_int32 (r + b) else r)"

fun copy_entries :: "nat \<Rightarrow> raft_index_t \<Rightarrow> raft_log \<Rightarrow> raft_entry list" where
  "copy_entries 0 j me = []"
| "copy_entries (Suc n) j me =
    (let j' = (if j = lg_size me then 0 else j)
     in lg_entries me ! nat j' # copy_entries n (j' + 1) me)"

definition ensurecapacity :: "'s log_hooks \<Rightarrow> raft_log \<Rightarrow> 's \<Rightarrow> int \<times> raft_log \<times> 's" where
  "ensurecapacity lh me s =
    (if lg_count me < lg_size me then (0, me, s)
     else case lh_alloc lh s of
       (False, s1) \<Rightarrow> (RAFT_ERR_NOMEM, me, s1)
     | (True, s1) \<Rightarrow>
        (0, me\<lparr>lg_size := lg_size me * 2,
               lg_entries := copy_entries (nat (lg_count me)) (lg_front me) me @
                             replicate (nat (lg_size me * 2 - lg_count me)) zero_entry,
               lg_front := 0, lg_back := lg_count me\<rparr>, s1))"

definition log_clear :: "raft_log \<Rightarrow> raft_log" where
  "log_clear me = me\<lparr>lg_count := 0, lg_back := 0, lg_front := 0, lg_base := 0\<rparr>"

definition log_alloc :: "'s log_hooks \<Rightarrow> raft_index_t \<Rightarrow> 's \<Rightarrow> raft_log option \<times> 's" where
  "log_alloc lh initial_size s =
    (case lh_alloc lh s of
       (False, s1) \<Rightarrow> (None, s1)
     | (True, s1) \<Rightarrow>
        (case lh_alloc lh s1 of
           (False, s2) \<Rightarrow> (None, s2)
         | (True, s2) \<Rightarrow>
            (Some \<lparr>lg_size = initial_size, lg_count = 0, lg_front = 0, lg_back = 0, lg_base = 0,
                   lg_entries = replicate (nat initial_size) zero_entry\<rparr>, s2)))"

definition INITIAL_CAPACITY :: raft_index_t where
  "INITIAL_CAPACITY = 10"

definition log_new :: "'s log_hooks \<Rightarrow> 's \<Rightarrow> raft_log option \<times> 's" where
  "log_new lh s = log_alloc lh INITIAL_CAPACITY s"

function clear_entries_loop ::
  "(raft_entry \<Rightarrow> raft_index_t \<Rightarrow> 's \<Rightarrow> int \<times> 's) \<Rightarrow> raft_index_t \<Rightarrow> raft_log \<Rightarrow> 's \<Rightarrow> 's" where
  "clear_entries_loop f i me s =
    (if i \<le> lg_base me + lg_count me then
       clear_entries_loop f (i + 1) me
         (snd (f (lg_entries me ! nat (c_rem (lg_front me + i - lg_base me) (lg_size me))) i s))
     else s)"
  by pat_completeness auto
termination by (relation "measure (\<lambda>(_, i, me, _). nat (lg_base me + lg_count me + 1 - i))") auto

declare clear_entries_loop.simps [simp del]

definition log_clear_entries :: "'s log_hooks \<Rightarrow> raft_log \<Rightarrow> 's \<Rightarrow> 's" where
  "log_clear_entries lh me s =
    (if lg_count me = 0 then s
     else case lh_clear lh of None \<Rightarrow> s | Some f \<Rightarrow> clear_entries_loop f (lg_base me) me s)"

definition log_load_from_snapshot :: "'s log_hooks \<Rightarrow> raft_index_t \<Rightarrow> raft_log \<Rightarrow> 's \<Rightarrow> raft_log \<times> 's" where
  "log_load_from_snapshot lh idx me s =
    ((log_clear me)\<lparr>lg_base := idx\<rparr>, log_clear_entries lh me s)"

definition log_append_entry ::
  "'s log_hooks \<Rightarrow> raft_entry \<Rightarrow> raft_log \<Rightarrow> 's \<Rightarrow> (int \<times> raft_log \<times> 's) option" where
  "log_append_entry lh ety me s = (
     let idx = lg_base me + lg_count me + 1;
         (e, me1, s1) = ensurecapacity lh me s
     in if e \<noteq> 0 then Some (e, me1, s1)
        else do {
          cassert (0 \<le> lg_back me1 \<and> nat (lg_back me1) < length (lg_entries me1));
          let me2 = me1\<lparr>lg_entries := (lg_entries me1)[nat (lg_back me1) := ety]\<rparr>;
          let fin = (\<lambda>me. me\<lparr>lg_count := lg_count me + 1, lg_back := c_rem (lg_back me + 1) (lg_size me)\<rparr>);
          (case lh_offer lh of
             None \<Rightarrow> Some (0, fin me2, s1)
           | Some f \<Rightarrow>
              let (e, ety', s2) = f ety idx s1;
                  me3 = me2\<lparr>lg_entries := (lg_entries me2)[nat (lg_back me1) := ety']\<rparr>
              in if e \<noteq> 0 then Some (e, me3, s2)
                 else do {
                   s3 \<leftarrow> lh_raft_offer lh ety' idx s2;
                   Some (0, fin me3, s3)
                 })
        })"

text \<open>A null result of \<^verbatim>\<open>log_get_from_idx\<close> is the empty list; otherwise the list has the
  \<^verbatim>\<open>n_etys\<close> entries that start at the returned pointer.\<close>

definition log_get_from_idx :: "raft_index_t \<Rightarrow> raft_log \<Rightarrow> raft_entry list option" where
  "log_get_from_idx idx me = do {
     cassert (0 \<le> idx - 1);
     if lg_base me + lg_count me < idx \<or> idx \<le> lg_base me then Some []
     else
       let i = c_rem (lg_front me + (idx - 1) - lg_base me) (lg_size me);
           n = to_int32 (if i < lg_back me then lg_back me - i else lg_size me - i)
       in Some (take (nat n) (drop (nat i) (lg_entries me)))
   }"

definition log_get_at_idx :: "raft_index_t \<Rightarrow> raft_log \<Rightarrow> raft_entry option" where
  "log_get_at_idx idx me =
    (if idx = 0 then None
     else if lg_base me + lg_count me < idx \<or> idx \<le> lg_base me then None
     else Some (lg_entries me ! nat (c_rem (lg_front me + (idx - 1) - lg_base me) (lg_size me))))"

function log_delete_loop ::
  "'s log_hooks \<Rightarrow> raft_index_t \<Rightarrow> raft_log \<Rightarrow> 's \<Rightarrow> (int \<times> raft_log \<times> 's) option" where
  "log_delete_loop lh idx me s =
    (if idx \<le> lg_base me + lg_count me \<and> lg_count me \<noteq> 0 then
       let idx_tmp = lg_base me + lg_count me;
           bk = log_mod (lg_back me - 1) (lg_size me);
           ety = lg_entries me ! nat bk;
           (e, s1) = (case lh_pop lh of None \<Rightarrow> (0, s) | Some f \<Rightarrow> f ety idx_tmp s)
       in if e \<noteq> 0 then Some (e, me, s1)
          else case lh_raft_pop lh ety idx_tmp s1 of
            None \<Rightarrow> None
          | Some s2 \<Rightarrow>
             log_delete_loop lh idx (me\<lparr>lg_back := bk, lg_count := lg_count me - 1\<rparr>) s2
     else Some (0, me, s))"
  by pat_completeness auto
termination by (relation "measure (\<lambda>(_, idx, me, _). nat (lg_base me + lg_count me + 1 - idx))") auto

declare log_delete_loop.simps [simp del]

definition log_delete ::
  "'s log_hooks \<Rightarrow> raft_index_t \<Rightarrow> raft_log \<Rightarrow> 's \<Rightarrow> (int \<times> raft_log \<times> 's) option" where
  "log_delete lh idx me s =
    (if idx = 0 then Some (- 1, me, s)
     else log_delete_loop lh (if idx < lg_base me then lg_base me else idx) me s)"

definition log_poll ::
  "'s log_hooks \<Rightarrow> raft_log \<Rightarrow> 's \<Rightarrow> int \<times> raft_entry option \<times> raft_log \<times> 's" where
  "log_poll lh me s =
    (if lg_count me = 0 then (- 1, None, me, s)
     else
       let elem = lg_entries me ! nat (lg_front me);
           (e, s1) = (case lh_poll lh of None \<Rightarrow> (0, s) | Some f \<Rightarrow> f elem (lg_base me + 1) s)
       in if e \<noteq> 0 then (e, None, me, s1)
          else (0, Some elem,
                me\<lparr>lg_front := c_rem (lg_front me + 1) (lg_size me), lg_count := lg_count me - 1,
                   lg_base := lg_base me + 1\<rparr>, s1))"

definition log_peektail :: "raft_log \<Rightarrow> raft_entry option" where
  "log_peektail me =
    (if lg_count me = 0 then None
     else if lg_back me = 0 then Some (lg_entries me ! nat (lg_size me - 1))
     else Some (lg_entries me ! nat (lg_back me - 1)))"

definition log_empty :: "raft_log \<Rightarrow> raft_log" where
  "log_empty me = me\<lparr>lg_front := 0, lg_back := 0, lg_count := 0\<rparr>"

definition log_get_current_idx :: "raft_log \<Rightarrow> raft_index_t" where
  "log_get_current_idx me = lg_count me + lg_base me"

section \<open>The log as a list\<close>

definition log_inv :: "raft_log \<Rightarrow> bool" where
  "log_inv me \<longleftrightarrow> 0 < lg_size me \<and> length (lg_entries me) = nat (lg_size me) \<and>
     0 \<le> lg_count me \<and> lg_count me \<le> lg_size me \<and> 0 \<le> lg_front me \<and> lg_front me < lg_size me \<and>
     lg_back me = (lg_front me + lg_count me) mod lg_size me \<and> 0 \<le> lg_base me"

definition log_at :: "raft_log \<Rightarrow> nat \<Rightarrow> raft_entry" where
  "log_at me k = lg_entries me ! nat ((lg_front me + int k) mod lg_size me)"

definition log_list :: "raft_log \<Rightarrow> raft_entry list" where
  "log_list me = map (log_at me) [0..<nat (lg_count me)]"

lemma length_log_list [simp]: "length (log_list me) = nat (lg_count me)"
  by (simp add: log_list_def)

lemma nth_log_list: "k < nat (lg_count me) \<Longrightarrow> log_list me ! k = log_at me k"
  by (simp add: log_list_def)

lemma ring_mod:
  fixes a k n :: int
  assumes "0 \<le> a" "a < n" "0 \<le> k" "k \<le> n"
  shows "(a + k) mod n = (if a + k < n then a + k else a + k - n)"
proof (cases "a + k < n")
  case False
  then have "(a + k) mod n = (a + k - n) mod n"
    by simp
  also have "\<dots> = a + k - n"
    using assms False by (intro mod_pos_pos_trivial) auto
  finally show ?thesis
    using False by simp
qed (use assms in simp)

lemma ring_bounds: "0 < n \<Longrightarrow> 0 \<le> a mod n \<and> a mod n < n" for a n :: int
  by simp

lemma log_inv_facts:
  assumes "log_inv me"
  shows "0 \<le> lg_back me" "lg_back me < lg_size me" "nat (lg_back me) < length (lg_entries me)"
    "0 < lg_size me" "0 \<le> lg_count me"
  using assms by (auto simp: log_inv_def)

subsection \<open>Growing\<close>

lemma copy_entries_eq:
  assumes "0 \<le> j" "j \<le> lg_size me" "0 < lg_size me"
  shows "copy_entries n j me = map (\<lambda>k. lg_entries me ! nat ((j + int k) mod lg_size me)) [0..<n]"
  using assms
proof (induction n arbitrary: j)
  case (Suc n)
  define j' where "j' = (if j = lg_size me then 0 else j)"
  have j': "0 \<le> j'" "j' < lg_size me" "j mod lg_size me = j'"
    using Suc.prems by (auto simp: j'_def)
  have "copy_entries (Suc n) j me = lg_entries me ! nat j' # copy_entries n (j' + 1) me"
    by (simp add: j'_def Let_def)
  also have "copy_entries n (j' + 1) me = map (\<lambda>k. lg_entries me ! nat ((j' + 1 + int k) mod lg_size me)) [0..<n]"
    using Suc.IH [of "j' + 1"] j' Suc.prems(3) by simp
  also have "\<dots> = map (\<lambda>k. lg_entries me ! nat ((j + int (Suc k)) mod lg_size me)) [0..<n]"
  proof (rule map_cong [OF refl])
    fix k
    have "(j' + 1 + int k) mod lg_size me = (j mod lg_size me + (1 + int k)) mod lg_size me"
      using j'(3) by (simp add: add.assoc)
    also have "\<dots> = (j + int (Suc k)) mod lg_size me"
      by (simp add: mod_add_left_eq)
    finally show "lg_entries me ! nat ((j' + 1 + int k) mod lg_size me) =
        lg_entries me ! nat ((j + int (Suc k)) mod lg_size me)"
      by simp
  qed
  finally show ?case
    using j'(3) by (simp add: upt_conv_Cons map_Suc_upt [symmetric] del: upt_Suc)
qed simp

lemma ensurecapacity_spec:
  assumes "log_inv me" "ensurecapacity lh me s = (e, me', s')"
  shows "log_inv me' \<and> log_list me' = log_list me \<and> lg_base me' = lg_base me \<and> lg_count me' = lg_count me \<and>
    (e = 0 \<or> e = RAFT_ERR_NOMEM) \<and> (e = 0 \<longrightarrow> lg_count me' < lg_size me')"
proof (cases "lg_count me < lg_size me")
  case True
  then show ?thesis
    using assms by (simp add: ensurecapacity_def)
next
  case False
  obtain ok s1 where al: "lh_alloc lh s = (ok, s1)"
    by fastforce
  show ?thesis
  proof (cases ok)
    case False
    with al assms \<open>\<not> lg_count me < lg_size me\<close> show ?thesis
      by (auto simp: ensurecapacity_def RAFT_ERR_NOMEM_def)
  next
    case True
    have full: "lg_count me = lg_size me" and inv: "0 < lg_size me" "0 \<le> lg_front me" "lg_front me < lg_size me" "0 \<le> lg_base me"
      using assms(1) False by (auto simp: log_inv_def)
    let ?es = "map (log_at me) [0..<nat (lg_size me)]"
    have copy: "copy_entries (nat (lg_count me)) (lg_front me) me = ?es"
      using copy_entries_eq [of "lg_front me" me] inv full by (simp add: log_at_def [abs_def])
    have me': "e = 0" "me' = me\<lparr>lg_size := lg_size me * 2, lg_entries := ?es @ replicate (nat (lg_size me)) zero_entry,
        lg_front := 0, lg_back := lg_size me\<rparr>"
      using assms(2) al True full copy by (auto simp: ensurecapacity_def)
    have "log_inv me'"
      using inv full me'(2) by (auto simp: log_inv_def nat_mult_distrib)
    moreover have "log_list me' = log_list me"
      using inv full me'(2) by (auto simp: log_list_def log_at_def nth_append nat_less_iff zmod_trivial_iff)
    ultimately show ?thesis
      using me' full inv by simp
  qed
qed

subsection \<open>Lookup\<close>

lemma log_get_at_idx_eq:
  assumes "log_inv me"
  shows "log_get_at_idx idx me =
    (if lg_base me < idx \<and> idx \<le> lg_base me + lg_count me
     then Some (log_list me ! nat (idx - 1 - lg_base me)) else None)"
proof (cases "lg_base me < idx \<and> idx \<le> lg_base me + lg_count me")
  case True
  then have "nat (idx - 1 - lg_base me) < nat (lg_count me)"
    using assms by (auto simp: log_inv_def)
  moreover have "c_rem (lg_front me + (idx - 1) - lg_base me) (lg_size me) =
      (lg_front me + int (nat (idx - 1 - lg_base me))) mod lg_size me"
    using True assms by (simp add: log_inv_def algebra_simps)
  ultimately show ?thesis
    using True assms by (auto simp: log_get_at_idx_def nth_log_list log_at_def log_inv_def)
next
  case False
  then show ?thesis
    using assms by (auto simp: log_get_at_idx_def log_inv_def)
qed

lemma log_peektail_eq:
  assumes "log_inv me"
  shows "log_peektail me = (if log_list me = [] then None else Some (last (log_list me)))"
proof (cases "lg_count me = 0")
  case True
  then have "log_list me = []"
    by (simp add: log_list_def)
  with True show ?thesis
    by (simp add: log_peektail_def)
next
  case False
  let ?k = "nat (lg_count me) - 1"
  have inv: "0 < lg_count me" "lg_count me \<le> lg_size me" "0 \<le> lg_front me" "lg_front me < lg_size me"
    "lg_back me = (lg_front me + lg_count me) mod lg_size me"
    using assms False by (auto simp: log_inv_def)
  have ne: "log_list me \<noteq> []"
    using inv(1) by (simp add: log_list_def)
  have last: "last (log_list me) = log_at me ?k"
    using ne inv(1) by (simp add: last_conv_nth nth_log_list)
  have k: "int ?k = lg_count me - 1"
    using inv(1) by simp
  have "nat ((lg_front me + int ?k) mod lg_size me) = (if lg_back me = 0 then nat (lg_size me - 1) else nat (lg_back me - 1))"
    unfolding k using inv ring_mod [of "lg_front me" "lg_size me" "lg_count me"]
      ring_mod [of "lg_front me" "lg_size me" "lg_count me - 1"] by (auto split: if_splits)
  then show ?thesis
    using False ne last by (simp add: log_peektail_def log_at_def)
qed

lemma log_get_from_idx_eq:
  assumes "log_inv me" "lg_size me \<le> 2147483647" "1 \<le> idx"
  shows "\<exists>n. log_get_from_idx idx me =
      Some (if lg_base me < idx \<and> idx \<le> lg_base me + lg_count me
            then take n (drop (nat (idx - 1 - lg_base me)) (log_list me)) else []) \<and> 0 < n"
proof (cases "lg_base me < idx \<and> idx \<le> lg_base me + lg_count me")
  case False
  then show ?thesis
    using assms by (auto simp: log_get_from_idx_def)
next
  case True
  define d where "d = idx - 1 - lg_base me"
  define i where "i = (lg_front me + d) mod lg_size me"
  define n where "n = (if i < lg_back me then lg_back me - i else lg_size me - i)"
  have inv: "0 < lg_size me" "length (lg_entries me) = nat (lg_size me)" "lg_count me \<le> lg_size me"
    "0 \<le> lg_front me" "lg_front me < lg_size me" "lg_back me = (lg_front me + lg_count me) mod lg_size me"
    using assms(1) by (auto simp: log_inv_def)
  have d: "0 \<le> d" "d < lg_count me"
    using True by (auto simp: d_def)
  have i: "0 \<le> i" "i < lg_size me" "i = (if lg_front me + d < lg_size me then lg_front me + d else lg_front me + d - lg_size me)"
    using inv d ring_mod [of "lg_front me" "lg_size me" d] by (auto simp: i_def)
  have bk: "lg_back me = (if lg_front me + lg_count me < lg_size me then lg_front me + lg_count me
      else lg_front me + lg_count me - lg_size me)"
    using inv d ring_mod [of "lg_front me" "lg_size me" "lg_count me"] by auto
  have n: "0 < n" "n \<le> lg_count me - d" "i + n \<le> lg_size me" "n \<le> 2147483647"
    using i bk inv d assms(2) unfolding n_def by (auto split: if_splits)
  have "c_rem (lg_front me + (idx - 1) - lg_base me) (lg_size me) = i"
    using inv d by (simp add: i_def d_def algebra_simps)
  then have res: "log_get_from_idx idx me = Some (take (nat n) (drop (nat i) (lg_entries me)))"
    using True assms(3) n(1,4) by (simp add: log_get_from_idx_def n_def Let_def)
  have "take (nat n) (drop (nat i) (lg_entries me)) = take (nat n) (drop (nat d) (log_list me))"
  proof (rule nth_equalityI)
    show "length (take (nat n) (drop (nat i) (lg_entries me))) = length (take (nat n) (drop (nat d) (log_list me)))"
    proof -
      have "nat n \<le> nat (lg_size me) - nat i" "nat n \<le> nat (lg_count me) - nat d"
        using n i(1) d by linarith+
      then show ?thesis
        using inv(2) by simp
    qed
  next
    fix k assume "k < length (take (nat n) (drop (nat i) (lg_entries me)))"
    then have k: "int k < n"
      by (simp add: zless_nat_eq_int_zless)
    have "(lg_front me + int (nat d + k)) mod lg_size me = (i + int k) mod lg_size me"
      using d by (simp add: i_def mod_add_left_eq add.assoc)
    also have "\<dots> = i + int k"
      using k n(3) i(1) by (intro mod_pos_pos_trivial) auto
    finally have "log_at me (nat d + k) = lg_entries me ! (nat i + k)"
      using i(1) by (simp add: log_at_def nat_add_distrib)
    moreover have "nat d + k < nat (lg_count me)"
      using k n(2) d by linarith
    ultimately show "take (nat n) (drop (nat i) (lg_entries me)) ! k = take (nat n) (drop (nat d) (log_list me)) ! k"
      using k n i(1) inv(2) d by (simp add: nth_log_list)
  qed
  then show ?thesis
    using res True n(1) by (intro exI [of _ "nat n"]) (simp add: d_def)
qed

subsection \<open>Appending\<close>

lemma ring_neq:
  fixes f :: int
  assumes "0 \<le> f" "f < n" "k < m" "int m < n"
  shows "nat ((f + int k) mod n) \<noteq> nat ((f + int m) mod n)"
  using assms ring_mod [of f n "int k"] ring_mod [of f n "int m"] by (auto split: if_splits)

lemma log_push:
  fixes x :: raft_entry
  assumes "log_inv me" "lg_count me < lg_size me"
  defines "me' \<equiv> me\<lparr>lg_entries := (lg_entries me)[nat (lg_back me) := x],
      lg_count := lg_count me + 1, lg_back := c_rem (lg_back me + 1) (lg_size me)\<rparr>"
  shows "log_inv me'" "log_list me' = log_list me @ [x]"
proof -
  have inv: "0 < lg_size me" "length (lg_entries me) = nat (lg_size me)" "0 \<le> lg_count me"
    "0 \<le> lg_front me" "lg_front me < lg_size me" "lg_back me = (lg_front me + lg_count me) mod lg_size me"
    using assms(1) by (auto simp: log_inv_def)
  have bk: "0 \<le> lg_back me" "lg_back me < lg_size me"
    using inv(1,6) by auto
  have "(lg_back me + 1) mod lg_size me = (lg_front me + (lg_count me + 1)) mod lg_size me"
    unfolding inv(6) by (simp add: mod_add_left_eq add.assoc)
  then show "log_inv me'"
    using assms(1,2) bk by (simp add: log_inv_def me'_def)
  have old: "log_at me' k = log_at me k" if "k < nat (lg_count me)" for k
    using that inv assms(2) ring_neq [of "lg_front me" "lg_size me" k "nat (lg_count me)"]
    by (simp add: log_at_def me'_def)
  have new: "log_at me' (nat (lg_count me)) = x"
    using inv bk by (simp add: log_at_def me'_def nat_less_iff)
  have "nat (lg_count me + 1) = Suc (nat (lg_count me))"
    using inv(3) by simp
  then have "log_list me' = map (log_at me') [0..<Suc (nat (lg_count me))]"
    by (simp add: log_list_def me'_def)
  then show "log_list me' = log_list me @ [x]"
    using old new by (simp add: log_list_def)
qed

lemma log_append_entry_spec:
  assumes "log_inv me" "log_append_entry lh ety me s = Some (e, me', s')"
  shows "log_inv me' \<and> lg_base me' = lg_base me \<and>
    (e \<noteq> 0 \<longrightarrow> log_list me' = log_list me) \<and>
    (e = 0 \<longrightarrow> (\<exists>x. log_list me' = log_list me @ [x] \<and>
       (case lh_offer lh of None \<Rightarrow> x = ety
        | Some f \<Rightarrow> \<exists>s1 s2. f ety (lg_base me + lg_count me + 1) s1 = (0, x, s2) \<and>
            lh_raft_offer lh x (lg_base me + lg_count me + 1) s2 = Some s')))"
proof -
  obtain e1 me1 s1 where en: "ensurecapacity lh me s = (e1, me1, s1)"
    using prod_cases3 by blast
  note cap = ensurecapacity_spec [OF assms(1) en]
  show ?thesis
  proof (cases "e1 = 0")
    case False
    then show ?thesis
      using assms(2) en cap by (auto simp: log_append_entry_def)
  next
    case True
    then have room: "lg_count me1 < lg_size me1" and inv1: "log_inv me1"
      using cap by auto
    note bk = log_inv_facts [OF inv1]
    show ?thesis
    proof (cases "lh_offer lh")
      case None
      then show ?thesis
        using assms(2) en True bk cap log_push [OF inv1 room, of ety]
        by (auto simp: log_append_entry_def Let_def)
    next
      case (Some f)
      obtain e2 x s2 where f: "f ety (lg_base me + lg_count me + 1) s1 = (e2, x, s2)"
        using prod_cases3 by blast
      let ?me3 = "me1\<lparr>lg_entries := (lg_entries me1)[nat (lg_back me1) := x]\<rparr>"
      show ?thesis
      proof (cases "e2 = 0")
        case False
        then have r: "e = e2" "me' = ?me3"
          using assms(2) en True bk Some f by (auto simp: log_append_entry_def Let_def)
        have "log_at ?me3 k = log_at me1 k" if "k < nat (lg_count me1)" for k
          using that inv1 room ring_neq [of "lg_front me1" "lg_size me1" k "nat (lg_count me1)"]
          by (simp add: log_at_def log_inv_def)
        then have "log_list ?me3 = log_list me1"
          by (simp add: log_list_def)
        then show ?thesis
          using r cap False inv1 by (simp add: log_inv_def)
      next
        case e2: True
        then obtain s3 where "lh_raft_offer lh x (lg_base me + lg_count me + 1) s2 = Some s3" "s' = s3" "e = 0"
          "me' = ?me3\<lparr>lg_count := lg_count me1 + 1, lg_back := c_rem (lg_back me1 + 1) (lg_size me1)\<rparr>"
          using assms(2) en True bk Some f by (auto simp: log_append_entry_def Let_def bind_eq_Some_conv)
        then show ?thesis
          using Some f e2 cap log_push [OF inv1 room, of x] by auto
      qed
    qed
  qed
qed

subsection \<open>Deleting and polling\<close>

lemma log_mod_pred:
  assumes "0 \<le> b" "b < n" "n \<le> 2147483647"
  shows "log_mod (b - 1) n = (b - 1) mod n"
proof (cases "b = 0")
  case True
  show ?thesis
  proof (cases "n = 1")
    case False
    then have "c_rem (- 1) n = - 1" "(- 1) mod n = n - 1"
      using assms by (simp_all add: c_rem_def zmod_minus1)
    then show ?thesis
      using True assms by (simp add: log_mod_def)
  qed (simp add: True log_mod_def c_rem_def)
next
  case False
  then show ?thesis
    using assms by (simp add: log_mod_def)
qed

lemma log_pop_last:
  assumes "log_inv me" "0 < lg_count me" "lg_size me \<le> 2147483647"
  defines "me' \<equiv> me\<lparr>lg_back := log_mod (lg_back me - 1) (lg_size me), lg_count := lg_count me - 1\<rparr>"
  shows "log_inv me'" "log_list me' = butlast (log_list me)"
    "lg_entries me ! nat (log_mod (lg_back me - 1) (lg_size me)) = last (log_list me)"
proof -
  have inv: "0 < lg_size me" "lg_back me = (lg_front me + lg_count me) mod lg_size me"
    using assms(1) by (auto simp: log_inv_def)
  have bk: "log_mod (lg_back me - 1) (lg_size me) = (lg_front me + (lg_count me - 1)) mod lg_size me"
  proof -
    have "log_mod (lg_back me - 1) (lg_size me) = (lg_back me - 1) mod lg_size me"
      using log_mod_pred log_inv_facts(1,2) [OF assms(1)] assms(3) by simp
    also have "\<dots> = (lg_front me + lg_count me - 1) mod lg_size me"
      unfolding inv(2) by (simp add: mod_diff_left_eq)
    finally show ?thesis
      by (simp add: algebra_simps)
  qed
  then show "log_inv me'"
    using assms(1,2) by (auto simp: log_inv_def me'_def)
  have c: "nat (lg_count me) = Suc (nat (lg_count me - 1))"
    using assms(2) by simp
  have "log_list me' = map (log_at me) [0..<nat (lg_count me - 1)]"
    by (simp add: log_list_def me'_def log_at_def [abs_def])
  moreover have list: "log_list me = map (log_at me) [0..<nat (lg_count me - 1)] @ [log_at me (nat (lg_count me - 1))]"
    by (simp add: log_list_def c)
  ultimately show "log_list me' = butlast (log_list me)"
    by simp
  show "lg_entries me ! nat (log_mod (lg_back me - 1) (lg_size me)) = last (log_list me)"
    using bk list assms(2) by (simp add: log_at_def)
qed

lemma log_delete_loop_spec:
  assumes "log_inv me" "lg_size me \<le> 2147483647" "log_delete_loop lh idx me s = Some (e, me', s')"
  shows "log_inv me' \<and> lg_base me' = lg_base me \<and> lg_size me' = lg_size me \<and>
    (\<exists>k. log_list me' = take k (log_list me) \<and> nat (idx - 1 - lg_base me) \<le> k) \<and>
    (e = 0 \<longrightarrow> log_list me' = take (nat (idx - 1 - lg_base me)) (log_list me))"
  using assms
proof (induction lh idx me s rule: log_delete_loop.induct)
  case (1 lh idx me s)
  let ?n = "nat (idx - 1 - lg_base me)"
  have len: "length (log_list me) = nat (lg_count me)" "0 \<le> lg_count me"
    using 1(2) by (auto simp: log_inv_def)
  show ?case
  proof (cases "idx \<le> lg_base me + lg_count me \<and> lg_count me \<noteq> 0")
    case False
    then have "me' = me" "e = 0"
      using 1(4) by (auto simp: log_delete_loop.simps [of lh idx me s])
    moreover have "log_list me = take ?n (log_list me)"
      using False len by auto
    ultimately show ?thesis
      using 1(2) by (auto intro!: exI [of _ ?n])
  next
    case True
    define bk where "bk = log_mod (lg_back me - 1) (lg_size me)"
    let ?idx = "lg_base me + lg_count me"
    obtain e1 s1 where p: "(case lh_pop lh of None \<Rightarrow> (0, s) | Some f \<Rightarrow> f (lg_entries me ! nat bk) ?idx s) = (e1, s1)"
      by fastforce
    have unf: "log_delete_loop lh idx me s = (if e1 \<noteq> 0 then Some (e1, me, s1)
        else case lh_raft_pop lh (lg_entries me ! nat bk) ?idx s1 of None \<Rightarrow> None
             | Some s2 \<Rightarrow> log_delete_loop lh idx (me\<lparr>lg_back := bk, lg_count := lg_count me - 1\<rparr>) s2)"
      using True p by (subst log_delete_loop.simps) (simp add: Let_def flip: bk_def)
    show ?thesis
    proof (cases "e1 = 0")
      case False
      then have "me' = me" "e = e1"
        using 1(4) unf by auto
      then show ?thesis
        using 1(2) False True len by (auto intro!: exI [of _ "nat (lg_count me)"])
    next
      case e1: True
      then obtain s2 where s2: "lh_raft_pop lh (lg_entries me ! nat bk) ?idx s1 = Some s2"
        "log_delete_loop lh idx (me\<lparr>lg_back := bk, lg_count := lg_count me - 1\<rparr>) s2 = Some (e, me', s')"
        using 1(4) unf by (auto split: option.splits)
      have pop: "log_inv (me\<lparr>lg_back := bk, lg_count := lg_count me - 1\<rparr>)"
        "log_list (me\<lparr>lg_back := bk, lg_count := lg_count me - 1\<rparr>) = butlast (log_list me)"
        using log_pop_last [OF 1(2) _ 1(3)] True len(2) by (auto simp: bk_def)
      have IH: "log_inv me' \<and> lg_base me' = lg_base me \<and> lg_size me' = lg_size me \<and>
          (\<exists>k. log_list me' = take k (butlast (log_list me)) \<and> ?n \<le> k) \<and>
          (e = 0 \<longrightarrow> log_list me' = take ?n (butlast (log_list me)))"
        using 1(1) [OF True refl bk_def refl p [symmetric] refl] e1 s2 pop 1(3) by simp
      have tk: "take k (butlast (log_list me)) = take (min k (nat (lg_count me) - 1)) (log_list me)" for k
        using len(1) by (simp add: butlast_conv_take min.commute)
      have n: "?n \<le> nat (lg_count me) - 1"
        using True len(2) by linarith
      then have "take ?n (butlast (log_list me)) = take ?n (log_list me)"
        unfolding tk by (simp add: min_def)
      moreover obtain k where k: "log_list me' = take k (butlast (log_list me))" "?n \<le> k"
        using IH by blast
      ultimately show ?thesis
        using IH n unfolding k(1) tk by (metis min.bounded_iff)
    qed
  qed
qed

lemma log_poll_spec:
  assumes "log_inv me" "log_poll lh me s = (e, r, me', s')"
  shows "log_inv me' \<and> (if e = 0
      then log_list me \<noteq> [] \<and> r = Some (hd (log_list me)) \<and> log_list me' = tl (log_list me) \<and> lg_base me' = lg_base me + 1
      else log_list me' = log_list me \<and> lg_base me' = lg_base me)"
proof (cases "lg_count me = 0")
  case True
  then show ?thesis
    using assms by (auto simp: log_poll_def)
next
  case False
  have inv: "0 < lg_size me" "0 < lg_count me" "0 \<le> lg_front me" "lg_front me < lg_size me"
    using assms(1) False by (auto simp: log_inv_def)
  obtain e1 s1 where p: "(case lh_poll lh of None \<Rightarrow> (0, s)
      | Some f \<Rightarrow> f (lg_entries me ! nat (lg_front me)) (lg_base me + 1) s) = (e1, s1)"
    by fastforce
  define me1 where "me1 = me\<lparr>lg_front := c_rem (lg_front me + 1) (lg_size me), lg_count := lg_count me - 1,
      lg_base := lg_base me + 1\<rparr>"
  have res: "(e, r, me', s') = (if e1 \<noteq> 0 then (e1, None, me, s1)
      else (0, Some (lg_entries me ! nat (lg_front me)), me1, s1))"
    using assms(2) False p by (cases "e1 = 0") (simp_all add: log_poll_def Let_def me1_def)
  have fr: "((lg_front me + 1) mod lg_size me + k) mod lg_size me = (lg_front me + (k + 1)) mod lg_size me" for k
    by (subst mod_add_left_eq) (simp add: algebra_simps)
  have "log_inv me1"
    using assms(1) inv fr [of "lg_count me - 1"] by (simp add: log_inv_def me1_def)
  moreover have c: "nat (lg_count me) = Suc (nat (lg_count me - 1))"
    using inv(2) by simp
  have list: "log_list me = lg_entries me ! nat (lg_front me) # map (\<lambda>k. log_at me (Suc k)) [0..<nat (lg_count me - 1)]"
    unfolding log_list_def c using inv by (simp add: upt_conv_Cons map_Suc_upt [symmetric] log_at_def del: upt_Suc)
  moreover have "log_list me1 = map (\<lambda>k. log_at me (Suc k)) [0..<nat (lg_count me - 1)]"
    using inv fr by (simp add: log_list_def me1_def log_at_def add.commute)
  ultimately show ?thesis
    using res assms(1) by (auto simp: me1_def split: if_splits)
qed

lemma log_clear_spec [simp]: "log_inv me \<Longrightarrow> log_inv (log_clear me) \<and> log_list (log_clear me) = []"
  by (simp add: log_clear_def log_inv_def log_list_def)

lemma log_new_spec: "log_new lh s = (Some me, s') \<Longrightarrow> log_inv me \<and> log_list me = [] \<and> lg_base me = 0"
  by (auto simp: log_new_def log_alloc_def INITIAL_CAPACITY_def log_inv_def log_list_def split: prod.splits bool.splits)

section \<open>The interface of the log\<close>

text \<open>What the server relies on: the entry at an index, the last index, and what an append and a
  truncation do to them. The client lemmas relate two logs by the indices they agree on.\<close>

locale indexed_log =
  fixes entries :: "'l \<Rightarrow> 'e list" and base :: "'l \<Rightarrow> int" and inv :: "'l \<Rightarrow> bool"
    and lookup :: "int \<Rightarrow> 'l \<Rightarrow> 'e option" and last_idx :: "'l \<Rightarrow> int"
  assumes lookup_law: "inv l \<Longrightarrow> lookup i l =
      (if base l < i \<and> i \<le> base l + int (length (entries l)) then Some (entries l ! nat (i - 1 - base l)) else None)"
    and last_idx_law: "inv l \<Longrightarrow> last_idx l = base l + int (length (entries l))"
    and base_law: "inv l \<Longrightarrow> 0 \<le> base l"
begin

lemma lookup_Some_iff: "inv l \<Longrightarrow> (lookup i l \<noteq> None) \<longleftrightarrow> base l < i \<and> i \<le> last_idx l"
  by (simp add: lookup_law last_idx_law)

lemma lookup_append:
  assumes "inv l" "inv l'" "base l' = base l" "entries l' = entries l @ [x]"
  shows "lookup i l' = (if i = last_idx l + 1 then Some x else lookup i l)" "last_idx l' = last_idx l + 1"
  using assms by (auto simp: lookup_law last_idx_law nth_append nat_less_iff)

lemma lookup_truncate:
  assumes "inv l" "inv l'" "base l' = base l" "base l < idx" "idx \<le> last_idx l + 1"
    and "entries l' = take (nat (idx - 1 - base l)) (entries l)"
  shows "lookup i l' = (if i < idx then lookup i l else None)" "last_idx l' = idx - 1"
  using assms by (auto simp: lookup_law last_idx_law min_def)

lemma last_idx_nonneg: "inv l \<Longrightarrow> 0 \<le> last_idx l"
  using base_law last_idx_law by fastforce

end

interpretation rl: indexed_log log_list lg_base log_inv log_get_at_idx log_get_current_idx
  by unfold_locales (auto simp: log_get_at_idx_eq log_get_current_idx_def log_inv_def)

section \<open>The surroundings of the log\<close>

text \<open>What the callbacks and notifications leave alone, every log operation leaves alone.\<close>

locale hooks_frame =
  fixes keep :: "'s \<Rightarrow> 'c" and lh :: "'s log_hooks"
  assumes offer_keep: "lh_offer lh = Some f \<Longrightarrow> f ety i s = (e, ety', s') \<Longrightarrow> keep s' = keep s"
    and raft_offer_keep: "lh_raft_offer lh ety i s = Some s' \<Longrightarrow> keep s' = keep s"
    and pop_keep: "lh_pop lh = Some g \<Longrightarrow> g ety i s = (e, s') \<Longrightarrow> keep s' = keep s"
    and raft_pop_keep: "lh_raft_pop lh ety i s = Some s' \<Longrightarrow> keep s' = keep s"
    and poll_keep: "lh_poll lh = Some g \<Longrightarrow> g ety i s = (e, s') \<Longrightarrow> keep s' = keep s"
    and clear_keep: "lh_clear lh = Some g \<Longrightarrow> g ety i s = (e, s') \<Longrightarrow> keep s' = keep s"
    and alloc_keep: "lh_alloc lh s = (b, s') \<Longrightarrow> keep s' = keep s"
begin

lemma ensurecapacity_keep: "ensurecapacity lh me s = (e, me', s') \<Longrightarrow> keep s' = keep s"
  by (auto simp: ensurecapacity_def alloc_keep split: if_splits prod.splits bool.splits)

lemma append_keep:
  assumes "log_append_entry lh ety me s = Some (e, me', s')"
  shows "keep s' = keep s"
  using assms
  by (auto simp: log_append_entry_def Let_def bind_eq_Some_conv split: if_splits option.splits prod.splits
      dest!: ensurecapacity_keep raft_offer_keep offer_keep)

lemma delete_loop_keep:
  assumes "log_delete_loop lh' idx me s = Some (e, me', s')" "lh' = lh"
  shows "keep s' = keep s"
  using assms
proof (induction lh' idx me s rule: log_delete_loop.induct)
  case (1 lh' idx me s)
  show ?case
  proof (cases "idx \<le> lg_base me + lg_count me \<and> lg_count me \<noteq> 0")
    case True
    define bk where "bk = log_mod (lg_back me - 1) (lg_size me)"
    define ety where "ety = lg_entries me ! nat bk"
    obtain e1 s1 where p: "(case lh_pop lh' of None \<Rightarrow> (0, s) | Some f \<Rightarrow> f ety (lg_base me + lg_count me) s) = (e1, s1)"
      by (meson surj_pair)
    then have k1: "keep s1 = keep s"
      using 1(3) by (auto split: option.splits dest!: pop_keep)
    note loop = 1(2) [unfolded log_delete_loop.simps [of lh' idx me s] Let_def, folded bk_def, folded ety_def, unfolded p]
    show ?thesis
    proof (cases "e1 = 0")
      case False
      then show ?thesis
        using loop True k1 by simp
    next
      case e: True
      then obtain s2 where s2: "lh_raft_pop lh' ety (lg_base me + lg_count me) s1 = Some s2"
        and l: "log_delete_loop lh' idx (me\<lparr>lg_back := bk, lg_count := lg_count me - 1\<rparr>) s2 = Some (e, me', s')"
        using loop True by (auto split: option.splits)
      have "keep s' = keep s2"
        using 1(1) [OF True refl bk_def ety_def p [symmetric] refl _ s2 l 1(3)] e by simp
      then show ?thesis
        using k1 raft_pop_keep s2 1(3) by metis
    qed
  next
    case False
    show ?thesis
      using 1(2) by (simp only: log_delete_loop.simps [of lh' idx me s] if_not_P [OF False]) simp
  qed
qed

lemma delete_keep: "log_delete lh idx me s = Some (e, me', s') \<Longrightarrow> keep s' = keep s"
  by (auto simp: log_delete_def delete_loop_keep split: if_splits)

lemma poll_entry_keep: "log_poll lh me s = (e, x, me', s') \<Longrightarrow> keep s' = keep s"
  by (auto simp: log_poll_def Let_def split: if_splits option.splits prod.splits dest!: poll_keep)

lemma clear_loop_keep:
  assumes "lh_clear lh = Some g"
  shows "keep (clear_entries_loop g i me s) = keep s"
  using assms
proof (induction g i me s rule: clear_entries_loop.induct)
  case (1 g i me s)
  have "keep (snd (g ety i s)) = keep s" for ety
    using clear_keep [OF 1(2), of ety i s] by (cases "g ety i s") simp
  then show ?case
    using 1(1) [OF _ 1(2)] by (subst clear_entries_loop.simps) simp
qed

lemma clear_entries_keep: "keep (log_clear_entries lh me s) = keep s"
  by (auto simp: log_clear_entries_def clear_loop_keep split: option.splits)

lemma new_keep: "log_new lh s = (x, s') \<Longrightarrow> keep s' = keep s"
  by (auto simp: log_new_def log_alloc_def split: prod.splits bool.splits dest!: alloc_keep)

end

section \<open>Properties\<close>

text \<open>(C10) Appending to the Raft log. When \<^verbatim>\<open>log_append_entry\<close> returns 0 the log has exactly one more
  entry, found at the next index, and every older index still holds its entry, across a
  doubling of the ring as well; when it returns an error, no index changes.\<close>

theorem log_append_entry_refines_list:
  assumes "log_inv me" "log_append_entry lh ety me s = Some (e, me', s')"
  shows "log_inv me' \<and>
    (if e = 0
     then log_get_current_idx me' = log_get_current_idx me + 1 \<and>
          (\<exists>x. (lh_offer lh = None \<longrightarrow> x = ety) \<and>
             (\<forall>i. log_get_at_idx i me' =
                (if i = log_get_current_idx me + 1 then Some x else log_get_at_idx i me)))
     else log_get_current_idx me' = log_get_current_idx me \<and>
          (\<forall>i. log_get_at_idx i me' = log_get_at_idx i me))"
proof -
  note spec = log_append_entry_spec [OF assms]
  show ?thesis
  proof (cases "e = 0")
    case True
    then obtain x where x: "log_list me' = log_list me @ [x]" "lh_offer lh = None \<longrightarrow> x = ety"
      using spec by (auto split: option.splits)
    then show ?thesis
      using True spec rl.lookup_append [OF assms(1), of me' x] by auto
  next
    case False
    then show ?thesis
      using spec assms(1) by (auto simp: rl.lookup_law rl.last_idx_law)
  qed
qed

definition demo_log :: raft_log where
  "demo_log = \<lparr>lg_size = 2, lg_count = 2, lg_front = 1, lg_back = 1, lg_base = 5,
     lg_entries = [zero_entry\<lparr>ety_term := 7\<rparr>, zero_entry\<lparr>ety_term := 6\<rparr>]\<rparr>"

definition demo_hooks :: "unit log_hooks" where
  "demo_hooks = \<lparr>lh_offer = None, lh_raft_offer = (\<lambda>_ _ s. Some s), lh_pop = None,
     lh_raft_pop = (\<lambda>_ _ s. Some s), lh_poll = None, lh_clear = None, lh_alloc = (\<lambda>s. (True, s))\<rparr>"

lemma demo_log_inv: "log_inv demo_log"
  by (simp add: log_inv_def demo_log_def)

theorem log_append_entry_refines_list_witness:
  "\<exists>me'. log_append_entry demo_hooks (zero_entry\<lparr>ety_term := 8\<rparr>) demo_log () = Some (0, me', ()) \<and>
    map (\<lambda>i. map_option ety_term (log_get_at_idx i me')) [5, 6, 7, 8, 9] = [None, Some 6, Some 7, Some 8, None]"
proof -
  obtain me' where a: "log_append_entry demo_hooks (zero_entry\<lparr>ety_term := 8\<rparr>) demo_log () = Some (0, me', ())"
    by (simp add: log_append_entry_def ensurecapacity_def demo_hooks_def demo_log_def Let_def eval_nat_numeral)
  have "log_get_current_idx demo_log = 7"
    by (simp add: log_get_current_idx_def demo_log_def)
  moreover have "map (\<lambda>i. map_option ety_term (log_get_at_idx i demo_log)) [5, 6, 7, 9] = [None, Some 6, Some 7, None]"
    by (simp add: log_get_at_idx_def demo_log_def)
  ultimately show ?thesis
    using a log_append_entry_refines_list [OF demo_log_inv a] by (auto simp: demo_hooks_def)
qed

text \<open>(C11) Deleting from the Raft log. When \<^verbatim>\<open>log_delete\<close> returns 0 for an index inside the log, the
  log ends just before this index and every older index keeps its entry. When a callback
  stops it half-way, only entries from this index on are gone.\<close>

theorem log_delete_refines_truncation:
  assumes "log_inv me" "lg_size me \<le> 2147483647" "lg_base me < idx" "idx \<le> log_get_current_idx me"
    and "log_delete lh idx me s = Some (e, me', s')"
  shows "log_inv me' \<and> (\<forall>i < idx. log_get_at_idx i me' = log_get_at_idx i me) \<and>
    (e = 0 \<longrightarrow> log_get_current_idx me' = idx - 1 \<and> (\<forall>i \<ge> idx. log_get_at_idx i me' = None))"
proof -
  have "idx \<noteq> 0"
    using assms(1,3) by (auto simp: log_inv_def)
  then have loop: "log_delete_loop lh idx me s = Some (e, me', s')"
    using assms(3,5) by (simp add: log_delete_def)
  note spec = log_delete_loop_spec [OF assms(1,2) loop]
  then obtain k where k: "log_list me' = take k (log_list me)" "nat (idx - 1 - lg_base me) \<le> k"
    by blast
  have "log_get_at_idx i me' = log_get_at_idx i me" if "i < idx" for i
  proof -
    have len: "length (log_list me') = min (length (log_list me)) k"
      using k by (simp only: length_take)
    have "idx \<le> lg_base me + int (length (log_list me))"
      using assms(4) by (simp only: rl.last_idx_law [OF assms(1)])
    then have "i \<le> lg_base me + int (length (log_list me))" "i \<le> lg_base me + int (length (log_list me'))"
      unfolding len using k(2) that by linarith+
    then show ?thesis
      using spec k(1) assms(1) by (simp add: rl.lookup_law)
  qed
  then show ?thesis
    using spec rl.lookup_truncate [OF assms(1) _ _ assms(3)] assms(4) by auto
qed

theorem log_delete_refines_truncation_witness:
  "\<exists>me'. log_delete demo_hooks 7 demo_log () = Some (0, me', ()) \<and>
    map (\<lambda>i. map_option ety_term (log_get_at_idx i me')) [6, 7] = [Some 6, None]"
proof -
  obtain me' where a: "log_delete demo_hooks 7 demo_log () = Some (0, me', ())"
    by (simp add: log_delete_def log_delete_loop.simps demo_hooks_def demo_log_def Let_def log_mod_def)
  have "map_option ety_term (log_get_at_idx 6 demo_log) = Some 6"
    by (simp add: log_get_at_idx_def demo_log_def)
  then show ?thesis
    using a log_delete_refines_truncation [OF demo_log_inv _ _ _ a]
    by (auto simp: demo_log_def log_get_current_idx_def)
qed

end
