(* ===== verification/Raft_Node.thy ===== *)
theory Raft_Node
  imports Raft_Log "HOL-Library.Word"
begin

unbundle bit_operations_syntax

section \<open>Peers of a Raft server\<close>

text \<open>
  Model of apps/smr/willemt_raft/src/raft_node.c: what a server records of a peer. The six
  boolean attributes share one \<^verbatim>\<open>int\<close> of flag bits, kept here as a 32-bit word. The locale
  \<open>node_flag\<close> states that a setter writes one bit and a getter reads it; it is interpreted for
  every attribute that can be switched, and gives the get/set laws and that attributes do not
  disturb one another.
\<close>

record raft_node =
  nd_udata :: nat
  nd_next_idx :: raft_index_t
  nd_match_idx :: raft_index_t
  nd_flags :: "32 word"
  nd_id :: raft_node_id_t

text \<open>The C expression \<^verbatim>\<open>1 << n\<close>.\<close>

definition flag_bit :: "nat \<Rightarrow> 32 word" where "flag_bit n = push_bit n 1"

definition RAFT_NODE_VOTED_FOR_ME :: "32 word" where "RAFT_NODE_VOTED_FOR_ME = flag_bit 0"
definition RAFT_NODE_VOTING :: "32 word" where "RAFT_NODE_VOTING = flag_bit 1"
definition RAFT_NODE_HAS_SUFFICIENT_LOG :: "32 word" where "RAFT_NODE_HAS_SUFFICIENT_LOG = flag_bit 2"
definition RAFT_NODE_INACTIVE :: "32 word" where "RAFT_NODE_INACTIVE = flag_bit 3"
definition RAFT_NODE_VOTING_COMMITTED :: "32 word" where "RAFT_NODE_VOTING_COMMITTED = flag_bit 4"
definition RAFT_NODE_ADDITION_COMMITTED :: "32 word" where "RAFT_NODE_ADDITION_COMMITTED = flag_bit 5"

lemmas raft_node_flag_defs = RAFT_NODE_VOTED_FOR_ME_def RAFT_NODE_VOTING_def RAFT_NODE_HAS_SUFFICIENT_LOG_def
  RAFT_NODE_INACTIVE_def RAFT_NODE_VOTING_COMMITTED_def RAFT_NODE_ADDITION_COMMITTED_def

definition set_flag :: "32 word \<Rightarrow> raft_node \<Rightarrow> raft_node" where
  "set_flag m me = me\<lparr>nd_flags := nd_flags me OR m\<rparr>"

definition clear_flag :: "32 word \<Rightarrow> raft_node \<Rightarrow> raft_node" where
  "clear_flag m me = me\<lparr>nd_flags := nd_flags me AND NOT m\<rparr>"

definition raft_node_new :: "nat \<Rightarrow> raft_node_id_t \<Rightarrow> raft_node" where
  "raft_node_new udata i =
    \<lparr>nd_udata = udata, nd_next_idx = 1, nd_match_idx = 0, nd_flags = RAFT_NODE_VOTING, nd_id = i\<rparr>"

definition raft_node_set_next_idx :: "raft_index_t \<Rightarrow> raft_node \<Rightarrow> raft_node" where
  "raft_node_set_next_idx nextIdx me = me\<lparr>nd_next_idx := (if nextIdx < 1 then 1 else nextIdx)\<rparr>"

definition raft_node_set_match_idx :: "raft_index_t \<Rightarrow> raft_node \<Rightarrow> raft_node" where
  "raft_node_set_match_idx matchIdx me = me\<lparr>nd_match_idx := matchIdx\<rparr>"

definition raft_node_set_udata :: "nat \<Rightarrow> raft_node \<Rightarrow> raft_node" where
  "raft_node_set_udata udata me = me\<lparr>nd_udata := udata\<rparr>"

definition raft_node_vote_for_me :: "bool \<Rightarrow> raft_node \<Rightarrow> raft_node" where
  "raft_node_vote_for_me vote me =
    (if vote then set_flag RAFT_NODE_VOTED_FOR_ME me else clear_flag RAFT_NODE_VOTED_FOR_ME me)"

definition raft_node_has_vote_for_me :: "raft_node \<Rightarrow> bool" where
  "raft_node_has_vote_for_me me \<longleftrightarrow> (nd_flags me AND RAFT_NODE_VOTED_FOR_ME) \<noteq> 0"

definition raft_node_is_voting :: "raft_node \<Rightarrow> bool" where
  "raft_node_is_voting me \<longleftrightarrow> (nd_flags me AND RAFT_NODE_VOTING) \<noteq> 0"

definition raft_node_set_voting :: "bool \<Rightarrow> raft_node \<Rightarrow> raft_node option" where
  "raft_node_set_voting voting me =
    (if voting then do { cassert (\<not> raft_node_is_voting me); Some (set_flag RAFT_NODE_VOTING me) }
     else do { cassert (raft_node_is_voting me); Some (clear_flag RAFT_NODE_VOTING me) })"

definition raft_node_has_sufficient_logs :: "raft_node \<Rightarrow> bool" where
  "raft_node_has_sufficient_logs me \<longleftrightarrow> (nd_flags me AND RAFT_NODE_HAS_SUFFICIENT_LOG) \<noteq> 0"

definition raft_node_set_has_sufficient_logs :: "raft_node \<Rightarrow> raft_node" where
  "raft_node_set_has_sufficient_logs me = set_flag RAFT_NODE_HAS_SUFFICIENT_LOG me"

definition raft_node_set_active :: "bool \<Rightarrow> raft_node \<Rightarrow> raft_node" where
  "raft_node_set_active act me =
    (if \<not> act then set_flag RAFT_NODE_INACTIVE me else clear_flag RAFT_NODE_INACTIVE me)"

definition raft_node_is_active :: "raft_node \<Rightarrow> bool" where
  "raft_node_is_active me \<longleftrightarrow> (nd_flags me AND RAFT_NODE_INACTIVE) = 0"

definition raft_node_set_voting_committed :: "bool \<Rightarrow> raft_node \<Rightarrow> raft_node" where
  "raft_node_set_voting_committed voting me =
    (if voting then set_flag RAFT_NODE_VOTING_COMMITTED me else clear_flag RAFT_NODE_VOTING_COMMITTED me)"

definition raft_node_is_voting_committed :: "raft_node \<Rightarrow> bool" where
  "raft_node_is_voting_committed me \<longleftrightarrow> (nd_flags me AND RAFT_NODE_VOTING_COMMITTED) \<noteq> 0"

definition raft_node_set_addition_committed :: "bool \<Rightarrow> raft_node \<Rightarrow> raft_node" where
  "raft_node_set_addition_committed committed me =
    (if committed then set_flag RAFT_NODE_ADDITION_COMMITTED me else clear_flag RAFT_NODE_ADDITION_COMMITTED me)"

definition raft_node_is_addition_committed :: "raft_node \<Rightarrow> bool" where
  "raft_node_is_addition_committed me \<longleftrightarrow> (nd_flags me AND RAFT_NODE_ADDITION_COMMITTED) \<noteq> 0"

section \<open>Flags are independent bits\<close>

lemma bit_flag_bit [simp]: "bit (flag_bit n) k \<longleftrightarrow> k = n \<and> n < 32"
  by (auto simp: flag_bit_def bit_exp_iff)

lemma and_flag_bit: "(w AND flag_bit n) = 0 \<longleftrightarrow> \<not> bit w n" for w :: "32 word"
  using bit_imp_le_length [of w n] by (auto simp: bit_eq_iff [of "w AND flag_bit n" 0] bit_and_iff)

lemma nd_set_flag [simp]: "bit (nd_flags (set_flag (flag_bit n) me)) k \<longleftrightarrow>
    (k = n \<and> n < 32) \<or> bit (nd_flags me) k"
  by (auto simp: set_flag_def bit_or_iff)

lemma nd_clear_flag [simp]: "bit (nd_flags (clear_flag (flag_bit n) me)) k \<longleftrightarrow>
    k \<noteq> n \<and> bit (nd_flags me) k"
  by (auto simp: clear_flag_def bit_and_iff bit_not_iff dest: bit_imp_le_length)

lemma flag_frame [simp]:
  "nd_id (set_flag m me) = nd_id me" "nd_id (clear_flag m me) = nd_id me"
  "nd_next_idx (set_flag m me) = nd_next_idx me" "nd_next_idx (clear_flag m me) = nd_next_idx me"
  "nd_match_idx (set_flag m me) = nd_match_idx me" "nd_match_idx (clear_flag m me) = nd_match_idx me"
  by (simp_all add: set_flag_def clear_flag_def)

lemmas flag_simps = raft_node_flag_defs and_flag_bit

locale node_flag =
  fixes is_on :: "raft_node \<Rightarrow> bool" and turn :: "bool \<Rightarrow> raft_node \<Rightarrow> raft_node" and pos :: nat
  assumes is_on_law: "is_on me \<longleftrightarrow> bit (nd_flags me) pos"
    and turn_law: "bit (nd_flags (turn b me)) k \<longleftrightarrow> (if k = pos then b else bit (nd_flags me) k)"
    and turn_id: "nd_id (turn b me) = nd_id me"
    and turn_next: "nd_next_idx (turn b me) = nd_next_idx me"
    and turn_match: "nd_match_idx (turn b me) = nd_match_idx me"
begin

lemma is_on_turn: "is_on (turn b me) \<longleftrightarrow> b"
  by (simp add: is_on_law turn_law)

lemma other_bit: "k \<noteq> pos \<Longrightarrow> bit (nd_flags (turn b me)) k \<longleftrightarrow> bit (nd_flags me) k"
  by (simp add: turn_law)

lemma turn_turn: "nd_flags (turn b (turn c me)) = nd_flags (turn b me)"
  by (rule bit_eqI) (simp add: turn_law)

lemma turn_same: "is_on me = b \<Longrightarrow> nd_flags (turn b me) = nd_flags me"
  by (rule bit_eqI) (auto simp: turn_law is_on_law)

end

interpretation fl_vote: node_flag raft_node_has_vote_for_me raft_node_vote_for_me 0
  by unfold_locales (simp_all add: raft_node_has_vote_for_me_def raft_node_vote_for_me_def flag_simps)

interpretation fl_inactive: node_flag "\<lambda>me. \<not> raft_node_is_active me" "\<lambda>b. raft_node_set_active (\<not> b)" 3
  by unfold_locales (simp_all add: raft_node_is_active_def raft_node_set_active_def flag_simps)

interpretation fl_voting_committed: node_flag raft_node_is_voting_committed raft_node_set_voting_committed 4
  by unfold_locales (simp_all add: raft_node_is_voting_committed_def raft_node_set_voting_committed_def flag_simps)

interpretation fl_addition_committed: node_flag raft_node_is_addition_committed raft_node_set_addition_committed 5
  by unfold_locales (simp_all add: raft_node_is_addition_committed_def raft_node_set_addition_committed_def flag_simps)

lemma raft_node_is_voting_bit: "raft_node_is_voting me \<longleftrightarrow> bit (nd_flags me) 1"
  by (simp add: raft_node_is_voting_def flag_simps)

lemma raft_node_is_active_bit: "raft_node_is_active me \<longleftrightarrow> \<not> bit (nd_flags me) 3"
  using fl_inactive.is_on_law by blast

lemma raft_node_new_simps [simp]:
  "nd_id (raft_node_new u i) = i" "nd_next_idx (raft_node_new u i) = 1" "nd_match_idx (raft_node_new u i) = 0"
  "raft_node_is_voting (raft_node_new u i)" "raft_node_is_active (raft_node_new u i)"
  "\<not> raft_node_has_vote_for_me (raft_node_new u i)"
  by (simp_all add: raft_node_new_def raft_node_is_voting_bit raft_node_is_active_bit
      fl_vote.is_on_law raft_node_flag_defs)

lemma raft_node_set_voting_eq_Some:
  "raft_node_set_voting b me = Some me' \<longleftrightarrow>
    raft_node_is_voting me \<noteq> b \<and> me' = (if b then set_flag else clear_flag) RAFT_NODE_VOTING me"
  by (auto simp: raft_node_set_voting_def cassert_def)

lemma voting_flag [simp]:
  "raft_node_is_voting (set_flag RAFT_NODE_VOTING me)" "\<not> raft_node_is_voting (clear_flag RAFT_NODE_VOTING me)"
  "raft_node_is_voting (raft_node_vote_for_me b me) = raft_node_is_voting me"
  "raft_node_is_voting (raft_node_set_active b me) = raft_node_is_voting me"
  "raft_node_is_active (raft_node_vote_for_me b me) = raft_node_is_active me"
  by (simp_all add: raft_node_is_voting_bit raft_node_is_active_bit fl_vote.turn_law RAFT_NODE_VOTING_def
      raft_node_set_active_def raft_node_flag_defs)

end
