(* ===== verification/Raft_Server.thy ===== *)
theory Raft_Server
  imports Raft_Node
begin

section \<open>The Raft server\<close>

text \<open>
  Model of apps/smr/willemt_raft (src/raft_server.c, src/raft_server_properties.c and the types
  of include/raft.h and include/raft_private.h): one server, its message handlers, its timer,
  membership changes and snapshots.

  \<^item> \<open>raft_server\<close> has the fields of \<^verbatim>\<open>raft_server_private_t\<close>. The peers live in a store of
    nodes addressed by \<open>nat\<close>; \<open>rs_nodes\<close> is the array \<^verbatim>\<open>nodes[0 .. num_nodes)\<close>. A null pointer is
    \<open>None\<close>, and reading a node that is null or freed stops the process.
  \<^item> The callbacks act on the application state \<open>'u\<close> (\<^verbatim>\<open>udata\<close>) and do not call back into
    the server. Debug logging (\<^verbatim>\<open>__log\<close>) has no effect on the server and is left out.
  \<^item> The outcomes of \<^verbatim>\<open>rand\<close> and of allocations are taken from two lists of the state, so that
    every operation is a function. An exhausted list gives 0 and success.
  \<^item> A handler that fills a response returns it; \<^verbatim>\<open>raft_recv_entry\<close> fills it only on success.
  \<^item> Terms and indices are \<^verbatim>\<open>long\<close> and timeouts \<^verbatim>\<open>int\<close>; both are modelled by \<open>int\<close>, so
    statements are about counters that do not overflow. The one narrowing conversion, to the
    \<^verbatim>\<open>int ety_term\<close> of \<^verbatim>\<open>__should_grant_vote\<close>, is written out.
\<close>

subsection \<open>Types\<close>

datatype raft_state_e = RAFT_STATE_NONE | RAFT_STATE_FOLLOWER | RAFT_STATE_CANDIDATE | RAFT_STATE_LEADER

datatype raft_membership_e = RAFT_MEMBERSHIP_ADD | RAFT_MEMBERSHIP_REMOVE

datatype raft_node_status = RAFT_NODE_STATUS_DISCONNECTED | RAFT_NODE_STATUS_CONNECTED
  | RAFT_NODE_STATUS_CONNECTING | RAFT_NODE_STATUS_DISCONNECTING

definition RAFT_REQUESTVOTE_ERR_GRANTED :: int where "RAFT_REQUESTVOTE_ERR_GRANTED = 1"
definition RAFT_REQUESTVOTE_ERR_NOT_GRANTED :: int where "RAFT_REQUESTVOTE_ERR_NOT_GRANTED = 0"
definition RAFT_REQUESTVOTE_ERR_UNKNOWN_NODE :: int where "RAFT_REQUESTVOTE_ERR_UNKNOWN_NODE = - 1"

lemmas requestvote_codes = RAFT_REQUESTVOTE_ERR_GRANTED_def RAFT_REQUESTVOTE_ERR_NOT_GRANTED_def
  RAFT_REQUESTVOTE_ERR_UNKNOWN_NODE_def

definition RAFT_LOGTYPE_NORMAL :: int where "RAFT_LOGTYPE_NORMAL = 0"
definition RAFT_LOGTYPE_ADD_NONVOTING_NODE :: int where "RAFT_LOGTYPE_ADD_NONVOTING_NODE = 1"
definition RAFT_LOGTYPE_ADD_NODE :: int where "RAFT_LOGTYPE_ADD_NODE = 2"
definition RAFT_LOGTYPE_DEMOTE_NODE :: int where "RAFT_LOGTYPE_DEMOTE_NODE = 3"
definition RAFT_LOGTYPE_REMOVE_NODE :: int where "RAFT_LOGTYPE_REMOVE_NODE = 4"

lemmas logtypes = RAFT_LOGTYPE_NORMAL_def RAFT_LOGTYPE_ADD_NONVOTING_NODE_def RAFT_LOGTYPE_ADD_NODE_def
  RAFT_LOGTYPE_DEMOTE_NODE_def RAFT_LOGTYPE_REMOVE_NODE_def

definition RAFT_SNAPSHOT_NONBLOCKING_APPLY :: "32 word" where "RAFT_SNAPSHOT_NONBLOCKING_APPLY = 1"

record msg_entry_response_t =
  er_id :: int
  er_term :: raft_term_t
  er_idx :: raft_index_t

record msg_requestvote_t =
  rv_term :: raft_term_t
  rv_candidate_id :: raft_node_id_t
  rv_last_log_idx :: raft_index_t
  rv_last_log_term :: raft_term_t

record msg_requestvote_response_t =
  rvr_term :: raft_term_t
  rvr_vote_granted :: int

record msg_appendentries_t =
  ae_term :: raft_term_t
  ae_prev_log_idx :: raft_index_t
  ae_prev_log_term :: raft_term_t
  ae_leader_commit :: raft_index_t
  ae_entries :: "raft_entry list"

record msg_appendentries_response_t =
  aer_term :: raft_term_t
  aer_success :: int
  aer_current_idx :: raft_index_t
  aer_first_idx :: raft_index_t

record 'u raft_cbs_t =
  cb_send_requestvote :: "(nat \<Rightarrow> msg_requestvote_t \<Rightarrow> 'u \<Rightarrow> int \<times> 'u) option"
  cb_send_appendentries :: "(nat \<Rightarrow> msg_appendentries_t \<Rightarrow> 'u \<Rightarrow> int \<times> 'u) option"
  cb_send_snapshot :: "(nat \<Rightarrow> 'u \<Rightarrow> int \<times> 'u) option"
  cb_applylog :: "(raft_entry \<Rightarrow> raft_index_t \<Rightarrow> 'u \<Rightarrow> int \<times> 'u) option"
  cb_persist_vote :: "(raft_node_id_t \<Rightarrow> 'u \<Rightarrow> int \<times> 'u) option"
  cb_persist_term :: "(raft_term_t \<Rightarrow> raft_node_id_t \<Rightarrow> 'u \<Rightarrow> int \<times> 'u) option"
  cb_log_offer :: "(raft_entry \<Rightarrow> raft_index_t \<Rightarrow> 'u \<Rightarrow> int \<times> raft_entry \<times> 'u) option"
  cb_log_poll :: "(raft_entry \<Rightarrow> raft_index_t \<Rightarrow> 'u \<Rightarrow> int \<times> 'u) option"
  cb_log_pop :: "(raft_entry \<Rightarrow> raft_index_t \<Rightarrow> 'u \<Rightarrow> int \<times> 'u) option"
  cb_log_clear :: "(raft_entry \<Rightarrow> raft_index_t \<Rightarrow> 'u \<Rightarrow> int \<times> 'u) option"
  cb_log_get_node_id :: "(raft_entry \<Rightarrow> raft_index_t \<Rightarrow> 'u \<Rightarrow> raft_node_id_t \<times> 'u) option"
  cb_node_has_sufficient_logs :: "(nat \<Rightarrow> 'u \<Rightarrow> int \<times> 'u) option"
  cb_notify_membership_event :: "(nat option \<Rightarrow> raft_entry option \<Rightarrow> raft_membership_e \<Rightarrow> 'u \<Rightarrow> 'u) option"

definition no_callbacks :: "'u raft_cbs_t" where
  "no_callbacks = \<lparr>cb_send_requestvote = None, cb_send_appendentries = None, cb_send_snapshot = None,
     cb_applylog = None, cb_persist_vote = None, cb_persist_term = None, cb_log_offer = None,
     cb_log_poll = None, cb_log_pop = None, cb_log_clear = None, cb_log_get_node_id = None,
     cb_node_has_sufficient_logs = None, cb_notify_membership_event = None\<rparr>"

record 'u raft_server =
  rs_current_term :: raft_term_t
  rs_voted_for :: raft_node_id_t
  rs_log :: raft_log
  rs_commit_idx :: raft_index_t
  rs_last_applied_idx :: raft_index_t
  rs_state :: raft_state_e
  rs_timeout_elapsed :: int
  rs_nodes :: "nat list"
  rs_election_timeout :: int
  rs_election_timeout_rand :: int
  rs_request_timeout :: int
  rs_current_leader :: "nat option"
  rs_cb :: "'u raft_cbs_t"
  rs_udata :: 'u
  rs_node :: "nat option"
  rs_voting_cfg_change_log_idx :: raft_index_t
  rs_connected :: raft_node_status
  rs_snapshot_in_progress :: bool
  rs_snapshot_flags :: "32 word"
  rs_snapshot_last_idx :: raft_index_t
  rs_snapshot_last_term :: raft_term_t
  rs_saved_snapshot_last_idx :: raft_index_t
  rs_saved_snapshot_last_term :: raft_term_t
  rs_store :: "nat \<rightharpoonup> raft_node"
  rs_fresh :: nat
  rs_rand :: "int list"
  rs_alloc :: "bool list"

subsection \<open>Nodes of the store\<close>

definition upd_node :: "nat \<Rightarrow> (raft_node \<Rightarrow> raft_node) \<Rightarrow> 'u raft_server \<Rightarrow> 'u raft_server option" where
  "upd_node p f me = do {
     nd \<leftarrow> rs_store me p;
     Some (me\<lparr>rs_store := (rs_store me)(p \<mapsto> f nd)\<rparr>)
   }"

definition set_node_voting :: "nat \<Rightarrow> bool \<Rightarrow> 'u raft_server \<Rightarrow> 'u raft_server option" where
  "set_node_voting p b me = do {
     nd \<leftarrow> rs_store me p;
     nd' \<leftarrow> raft_node_set_voting b nd;
     Some (me\<lparr>rs_store := (rs_store me)(p \<mapsto> nd')\<rparr>)
   }"

fun for_nodes :: "(nat \<Rightarrow> 's \<Rightarrow> 's option) \<Rightarrow> nat list \<Rightarrow> 's \<Rightarrow> 's option" where
  "for_nodes f [] s = Some s"
| "for_nodes f (p # ps) s = do { s' \<leftarrow> f p s; for_nodes f ps s' }"

fun count_nodes :: "(nat \<Rightarrow> bool option) \<Rightarrow> nat list \<Rightarrow> int option" where
  "count_nodes P [] = Some 0"
| "count_nodes P (p # ps) = do { b \<leftarrow> P p; n \<leftarrow> count_nodes P ps; Some (if b then n + 1 else n) }"

fun find_node :: "(nat \<rightharpoonup> raft_node) \<Rightarrow> raft_node_id_t \<Rightarrow> nat list \<Rightarrow> nat option option" where
  "find_node st nodeid [] = Some None"
| "find_node st nodeid (p # ps) = do {
     nd \<leftarrow> st p;
     if nodeid = nd_id nd then Some (Some p) else find_node st nodeid ps
   }"

definition raft_alloc :: "'u raft_server \<Rightarrow> bool \<times> 'u raft_server" where
  "raft_alloc me = (case rs_alloc me of [] \<Rightarrow> (True, me) | b # bs \<Rightarrow> (b, me\<lparr>rs_alloc := bs\<rparr>))"

subsection \<open>Properties of a server\<close>

definition raft_randomize_election_timeout :: "'u raft_server \<Rightarrow> 'u raft_server option" where
  "raft_randomize_election_timeout me = do {
     cassert (rs_election_timeout me \<noteq> 0);
     let r = (case rs_rand me of [] \<Rightarrow> 0 | r # _ \<Rightarrow> r);
     Some (me\<lparr>rs_election_timeout_rand := rs_election_timeout me + c_rem r (rs_election_timeout me),
              rs_rand := tl (rs_rand me)\<rparr>)
   }"

definition raft_set_election_timeout :: "int \<Rightarrow> 'u raft_server \<Rightarrow> 'u raft_server option" where
  "raft_set_election_timeout millisec me =
    raft_randomize_election_timeout (me\<lparr>rs_election_timeout := millisec\<rparr>)"

definition raft_set_request_timeout :: "int \<Rightarrow> 'u raft_server \<Rightarrow> 'u raft_server" where
  "raft_set_request_timeout millisec me = me\<lparr>rs_request_timeout := millisec\<rparr>"

definition raft_get_nodeid :: "'u raft_server \<Rightarrow> raft_node_id_t option" where
  "raft_get_nodeid me = (case rs_node me of
     None \<Rightarrow> Some (- 1)
   | Some p \<Rightarrow> do { nd \<leftarrow> rs_store me p; Some (nd_id nd) })"

definition raft_get_num_voting_nodes :: "'u raft_server \<Rightarrow> int option" where
  "raft_get_num_voting_nodes me = count_nodes (\<lambda>p. do {
     nd \<leftarrow> rs_store me p;
     Some (raft_node_is_active nd \<and> raft_node_is_voting nd)
   }) (rs_nodes me)"

definition raft_set_current_term :: "raft_term_t \<Rightarrow> 'u raft_server \<Rightarrow> int \<times> 'u raft_server" where
  "raft_set_current_term trm me =
    (if rs_current_term me < trm then
       let (e, u) = (case cb_persist_term (rs_cb me) of
             None \<Rightarrow> (0, rs_udata me) | Some f \<Rightarrow> f trm (- 1) (rs_udata me))
       in if e \<noteq> 0 then (e, me\<lparr>rs_udata := u\<rparr>)
          else (0, me\<lparr>rs_udata := u, rs_current_term := trm, rs_voted_for := - 1\<rparr>)
     else (0, me))"

definition raft_get_current_idx :: "'u raft_server \<Rightarrow> raft_index_t" where
  "raft_get_current_idx me = log_get_current_idx (rs_log me)"

definition raft_set_commit_idx :: "raft_index_t \<Rightarrow> 'u raft_server \<Rightarrow> 'u raft_server option" where
  "raft_set_commit_idx idx me = do {
     cassert (rs_commit_idx me \<le> idx);
     cassert (idx \<le> raft_get_current_idx me);
     Some (me\<lparr>rs_commit_idx := idx\<rparr>)
   }"

definition raft_set_last_applied_idx :: "raft_index_t \<Rightarrow> 'u raft_server \<Rightarrow> 'u raft_server" where
  "raft_set_last_applied_idx idx me = me\<lparr>rs_last_applied_idx := idx\<rparr>"

definition raft_set_state :: "raft_state_e \<Rightarrow> 'u raft_server \<Rightarrow> 'u raft_server" where
  "raft_set_state st me =
    (let me = (if st = RAFT_STATE_LEADER then me\<lparr>rs_current_leader := rs_node me\<rparr> else me)
     in me\<lparr>rs_state := st\<rparr>)"

definition raft_get_node :: "raft_node_id_t \<Rightarrow> 'u raft_server \<Rightarrow> nat option option" where
  "raft_get_node nodeid me = find_node (rs_store me) nodeid (rs_nodes me)"

definition raft_get_my_node :: "'u raft_server \<Rightarrow> nat option option" where
  "raft_get_my_node me =
    (if rs_nodes me = [] then Some None
     else do { i \<leftarrow> raft_get_nodeid me; find_node (rs_store me) i (rs_nodes me) })"

definition my_node_is_voting :: "'u raft_server \<Rightarrow> bool option" where
  "my_node_is_voting me = do {
     q \<leftarrow> raft_get_my_node me;
     p \<leftarrow> q;
     nd \<leftarrow> rs_store me p;
     Some (raft_node_is_voting nd)
   }"

definition raft_get_current_leader :: "'u raft_server \<Rightarrow> raft_node_id_t option" where
  "raft_get_current_leader me = (case rs_current_leader me of
     None \<Rightarrow> Some (- 1)
   | Some p \<Rightarrow> do { nd \<leftarrow> rs_store me p; Some (nd_id nd) })"

definition raft_is_follower :: "'u raft_server \<Rightarrow> bool" where
  "raft_is_follower me \<longleftrightarrow> rs_state me = RAFT_STATE_FOLLOWER"

definition raft_is_leader :: "'u raft_server \<Rightarrow> bool" where
  "raft_is_leader me \<longleftrightarrow> rs_state me = RAFT_STATE_LEADER"

definition raft_is_candidate :: "'u raft_server \<Rightarrow> bool" where
  "raft_is_candidate me \<longleftrightarrow> rs_state me = RAFT_STATE_CANDIDATE"

definition raft_get_entry_from_idx :: "raft_index_t \<Rightarrow> 'u raft_server \<Rightarrow> raft_entry option" where
  "raft_get_entry_from_idx etyidx me = log_get_at_idx etyidx (rs_log me)"

definition raft_get_last_log_term :: "'u raft_server \<Rightarrow> raft_term_t" where
  "raft_get_last_log_term me =
    (let current_idx = raft_get_current_idx me
     in if 0 < current_idx then
          (case raft_get_entry_from_idx current_idx me of Some ety \<Rightarrow> ety_term ety | None \<Rightarrow> 0)
        else 0)"

definition raft_is_apply_allowed :: "'u raft_server \<Rightarrow> bool" where
  "raft_is_apply_allowed me \<longleftrightarrow>
    \<not> rs_snapshot_in_progress me \<or> (rs_snapshot_flags me AND RAFT_SNAPSHOT_NONBLOCKING_APPLY) \<noteq> 0"

definition raft_get_last_applied_entry :: "'u raft_server \<Rightarrow> raft_entry option" where
  "raft_get_last_applied_entry me =
    (if rs_last_applied_idx me = 0 then None else log_get_at_idx (rs_last_applied_idx me) (rs_log me))"

definition raft_set_snapshot_metadata :: "raft_term_t \<Rightarrow> raft_index_t \<Rightarrow> 'u raft_server \<Rightarrow> 'u raft_server" where
  "raft_set_snapshot_metadata trm idx me =
    me\<lparr>rs_saved_snapshot_last_term := rs_snapshot_last_term me,
       rs_saved_snapshot_last_idx := rs_snapshot_last_idx me,
       rs_snapshot_last_term := trm, rs_snapshot_last_idx := idx\<rparr>"

definition raft_voting_change_is_in_progress :: "'u raft_server \<Rightarrow> bool" where
  "raft_voting_change_is_in_progress me \<longleftrightarrow> rs_voting_cfg_change_log_idx me \<noteq> - 1"

definition raft_already_voted :: "'u raft_server \<Rightarrow> bool" where
  "raft_already_voted me \<longleftrightarrow> rs_voted_for me \<noteq> - 1"

definition raft_entry_is_voting_cfg_change :: "raft_entry \<Rightarrow> bool" where
  "raft_entry_is_voting_cfg_change ety \<longleftrightarrow>
    RAFT_LOGTYPE_ADD_NODE = ety_type ety \<or> RAFT_LOGTYPE_DEMOTE_NODE = ety_type ety"

definition raft_entry_is_cfg_change :: "raft_entry \<Rightarrow> bool" where
  "raft_entry_is_cfg_change ety \<longleftrightarrow>
    RAFT_LOGTYPE_ADD_NODE = ety_type ety \<or> RAFT_LOGTYPE_ADD_NONVOTING_NODE = ety_type ety \<or>
    RAFT_LOGTYPE_DEMOTE_NODE = ety_type ety \<or> RAFT_LOGTYPE_REMOVE_NODE = ety_type ety"

definition raft_votes_is_majority :: "int \<Rightarrow> int \<Rightarrow> bool" where
  "raft_votes_is_majority num_nodes nvotes \<longleftrightarrow>
    (if num_nodes < nvotes then False else let half = num_nodes div 2 in half + 1 \<le> nvotes)"

subsection \<open>Membership\<close>

definition notify_membership ::
  "nat option \<Rightarrow> raft_entry option \<Rightarrow> raft_membership_e \<Rightarrow> 'u raft_server \<Rightarrow> 'u raft_server" where
  "notify_membership node ety ty me = (case cb_notify_membership_event (rs_cb me) of
     None \<Rightarrow> me
   | Some f \<Rightarrow> me\<lparr>rs_udata := f node ety ty (rs_udata me)\<rparr>)"

definition raft_add_node_internal ::
  "raft_entry option \<Rightarrow> nat \<Rightarrow> raft_node_id_t \<Rightarrow> bool \<Rightarrow> 'u raft_server \<Rightarrow> (nat option \<times> 'u raft_server) option" where
  "raft_add_node_internal ety udata nodeid is_self me = do {
     q \<leftarrow> raft_get_node nodeid me;
     (case q of
        Some p \<Rightarrow> do {
          nd \<leftarrow> rs_store me p;
          if \<not> raft_node_is_voting nd then do {
            me \<leftarrow> set_node_voting p True me;
            Some (Some p, me)
          } else Some (None, me)
        }
      | None \<Rightarrow>
         (case raft_alloc me of
            (False, me) \<Rightarrow> Some (None, me)
          | (True, me) \<Rightarrow>
             (case raft_alloc me of
                (False, me) \<Rightarrow> Some (None, me)
              | (True, me) \<Rightarrow>
                 let p = rs_fresh me;
                     me = me\<lparr>rs_fresh := p + 1, rs_store := (rs_store me)(p \<mapsto> raft_node_new udata nodeid),
                             rs_nodes := rs_nodes me @ [p]\<rparr>;
                     me = (if is_self then me\<lparr>rs_node := Some p\<rparr> else me)
                 in Some (Some p, notify_membership (Some p) ety RAFT_MEMBERSHIP_ADD me))))
   }"

definition raft_add_node ::
  "nat \<Rightarrow> raft_node_id_t \<Rightarrow> bool \<Rightarrow> 'u raft_server \<Rightarrow> (nat option \<times> 'u raft_server) option" where
  "raft_add_node udata nodeid is_self me = raft_add_node_internal None udata nodeid is_self me"

definition raft_add_non_voting_node_internal ::
  "raft_entry option \<Rightarrow> nat \<Rightarrow> raft_node_id_t \<Rightarrow> bool \<Rightarrow> 'u raft_server \<Rightarrow> (nat option \<times> 'u raft_server) option" where
  "raft_add_non_voting_node_internal ety udata nodeid is_self me = do {
     q \<leftarrow> raft_get_node nodeid me;
     if q \<noteq> None then Some (None, me)
     else do {
       (node, me) \<leftarrow> raft_add_node_internal ety udata nodeid is_self me;
       (case node of
          None \<Rightarrow> Some (None, me)
        | Some p \<Rightarrow> do { me \<leftarrow> set_node_voting p False me; Some (Some p, me) })
     }
   }"

definition raft_add_non_voting_node ::
  "nat \<Rightarrow> raft_node_id_t \<Rightarrow> bool \<Rightarrow> 'u raft_server \<Rightarrow> (nat option \<times> 'u raft_server) option" where
  "raft_add_non_voting_node udata nodeid is_self me =
    raft_add_non_voting_node_internal None udata nodeid is_self me"

definition raft_remove_node :: "nat option \<Rightarrow> 'u raft_server \<Rightarrow> 'u raft_server option" where
  "raft_remove_node node me = do {
     let me = notify_membership node None RAFT_MEMBERSHIP_REMOVE me;
     p \<leftarrow> node;
     cassert (p \<in> set (rs_nodes me));
     Some (me\<lparr>rs_nodes := remove1 p (rs_nodes me), rs_store := (rs_store me)(p := None)\<rparr>)
   }"

subsection \<open>What the log tells the server\<close>

definition cb_node_id :: "raft_entry \<Rightarrow> raft_index_t \<Rightarrow> 'u raft_server \<Rightarrow> (raft_node_id_t \<times> 'u raft_server) option" where
  "cb_node_id ety idx me = do {
     f \<leftarrow> cb_log_get_node_id (rs_cb me);
     let (node_id, u) = f ety idx (rs_udata me);
     Some (node_id, me\<lparr>rs_udata := u\<rparr>)
   }"

definition raft_offer_log :: "raft_entry \<Rightarrow> raft_index_t \<Rightarrow> 'u raft_server \<Rightarrow> 'u raft_server option" where
  "raft_offer_log ety idx me =
    (if \<not> raft_entry_is_cfg_change ety then Some me
     else do {
       (node_id, me) \<leftarrow> cb_node_id ety idx me;
       node \<leftarrow> raft_get_node node_id me;
       self \<leftarrow> raft_get_nodeid me;
       let is_self = (node_id = self);
       (if ety_type ety = RAFT_LOGTYPE_ADD_NONVOTING_NODE then
          (if \<not> is_self then
             (case node of
                Some p \<Rightarrow> do {
                  nd \<leftarrow> rs_store me p;
                  if \<not> raft_node_is_active nd then upd_node p (raft_node_set_active True) me else Some me
                }
              | None \<Rightarrow> do {
                  (node, me) \<leftarrow> raft_add_non_voting_node_internal (Some ety) 0 node_id is_self me;
                  cassert (node \<noteq> None);
                  Some me
                })
           else Some me)
        else if ety_type ety = RAFT_LOGTYPE_ADD_NODE then do {
          (node, me) \<leftarrow> raft_add_node_internal (Some ety) 0 node_id is_self me;
          p \<leftarrow> node;
          nd \<leftarrow> rs_store me p;
          cassert (raft_node_is_voting nd);
          Some me
        }
        else if ety_type ety = RAFT_LOGTYPE_DEMOTE_NODE then
          (case node of Some p \<Rightarrow> set_node_voting p False me | None \<Rightarrow> Some me)
        else if ety_type ety = RAFT_LOGTYPE_REMOVE_NODE then
          (case node of Some p \<Rightarrow> upd_node p (raft_node_set_active False) me | None \<Rightarrow> Some me)
        else None)
     })"

definition raft_pop_log :: "raft_entry \<Rightarrow> raft_index_t \<Rightarrow> 'u raft_server \<Rightarrow> 'u raft_server option" where
  "raft_pop_log ety idx me =
    (if \<not> raft_entry_is_cfg_change ety then Some me
     else do {
       (node_id, me) \<leftarrow> cb_node_id ety idx me;
       (if ety_type ety = RAFT_LOGTYPE_DEMOTE_NODE then do {
          node \<leftarrow> raft_get_node node_id me; p \<leftarrow> node; set_node_voting p True me
        }
        else if ety_type ety = RAFT_LOGTYPE_REMOVE_NODE then do {
          node \<leftarrow> raft_get_node node_id me; p \<leftarrow> node; upd_node p (raft_node_set_active True) me
        }
        else if ety_type ety = RAFT_LOGTYPE_ADD_NONVOTING_NODE then do {
          self \<leftarrow> raft_get_nodeid me;
          node \<leftarrow> raft_get_node node_id me;
          me \<leftarrow> raft_remove_node node me;
          cassert (node_id \<noteq> self);
          Some me
        }
        else if ety_type ety = RAFT_LOGTYPE_ADD_NODE then do {
          node \<leftarrow> raft_get_node node_id me; p \<leftarrow> node; set_node_voting p False me
        }
        else None)
     })"

definition with_udata :: "(raft_entry \<Rightarrow> raft_index_t \<Rightarrow> 'u \<Rightarrow> int \<times> 'u) \<Rightarrow>
    raft_entry \<Rightarrow> raft_index_t \<Rightarrow> 'u raft_server \<Rightarrow> int \<times> 'u raft_server" where
  "with_udata f ety idx me = (let (e, u) = f ety idx (rs_udata me) in (e, me\<lparr>rs_udata := u\<rparr>))"

text \<open>The callbacks and notifications of the log, acting on the server around it.\<close>

definition srv_hooks :: "'u raft_cbs_t \<Rightarrow> 'u raft_server log_hooks" where
  "srv_hooks cb =
    \<lparr>lh_offer = map_option (\<lambda>f ety idx me. let (e, ety', u) = f ety idx (rs_udata me)
                                          in (e, ety', me\<lparr>rs_udata := u\<rparr>)) (cb_log_offer cb),
     lh_raft_offer = raft_offer_log,
     lh_pop = map_option with_udata (cb_log_pop cb),
     lh_raft_pop = raft_pop_log,
     lh_poll = map_option with_udata (cb_log_poll cb),
     lh_clear = map_option with_udata (cb_log_clear cb),
     lh_alloc = raft_alloc\<rparr>"

definition raft_append_entry :: "raft_entry \<Rightarrow> 'u raft_server \<Rightarrow> (int \<times> 'u raft_server) option" where
  "raft_append_entry ety me = do {
     let me = (if raft_entry_is_voting_cfg_change ety
               then me\<lparr>rs_voting_cfg_change_log_idx := raft_get_current_idx me\<rparr> else me);
     (e, lg, me) \<leftarrow> log_append_entry (srv_hooks (rs_cb me)) ety (rs_log me) me;
     Some (e, me\<lparr>rs_log := lg\<rparr>)
   }"

definition raft_delete_entry_from_idx :: "raft_index_t \<Rightarrow> 'u raft_server \<Rightarrow> (int \<times> 'u raft_server) option" where
  "raft_delete_entry_from_idx idx me = do {
     cassert (rs_commit_idx me < idx);
     let me = (if idx \<le> rs_voting_cfg_change_log_idx me then me\<lparr>rs_voting_cfg_change_log_idx := - 1\<rparr> else me);
     (e, lg, me) \<leftarrow> log_delete (srv_hooks (rs_cb me)) idx (rs_log me) me;
     Some (e, me\<lparr>rs_log := lg\<rparr>)
   }"

definition raft_poll_entry :: "'u raft_server \<Rightarrow> (int \<times> raft_entry option \<times> 'u raft_server) option" where
  "raft_poll_entry me =
    (case log_poll (srv_hooks (rs_cb me)) (rs_log me) me of
       (e, ety, lg, me) \<Rightarrow>
         if e \<noteq> 0 then Some (e, ety, me\<lparr>rs_log := lg\<rparr>)
         else do { cassert (ety \<noteq> None); Some (0, ety, me\<lparr>rs_log := lg\<rparr>) })"

subsection \<open>Sending\<close>

definition raft_send_requestvote :: "nat \<Rightarrow> 'u raft_server \<Rightarrow> (int \<times> 'u raft_server) option" where
  "raft_send_requestvote p me = do {
     cassert (rs_node me \<noteq> Some p);
     candidate_id \<leftarrow> raft_get_nodeid me;
     let rv = \<lparr>rv_term = rs_current_term me, rv_candidate_id = candidate_id,
               rv_last_log_idx = raft_get_current_idx me, rv_last_log_term = raft_get_last_log_term me\<rparr>;
     (case cb_send_requestvote (rs_cb me) of
        None \<Rightarrow> Some (0, me)
      | Some f \<Rightarrow> let (e, u) = f p rv (rs_udata me) in Some (e, me\<lparr>rs_udata := u\<rparr>))
   }"

definition call_send_snapshot :: "nat \<Rightarrow> 'u raft_server \<Rightarrow> 'u raft_server" where
  "call_send_snapshot p me = (case cb_send_snapshot (rs_cb me) of
     None \<Rightarrow> me
   | Some f \<Rightarrow> me\<lparr>rs_udata := snd (f p (rs_udata me))\<rparr>)"

definition ae_prev :: "raft_index_t \<Rightarrow> 'u raft_server \<Rightarrow> raft_index_t \<times> raft_term_t" where
  "ae_prev next_idx me =
    (if 1 < next_idx then
       (case raft_get_entry_from_idx (next_idx - 1) me of
          None \<Rightarrow> (rs_snapshot_last_idx me, rs_snapshot_last_term me)
        | Some prev_ety \<Rightarrow> (next_idx - 1, ety_term prev_ety))
     else (0, 0))"

definition raft_send_appendentries :: "nat \<Rightarrow> 'u raft_server \<Rightarrow> (int \<times> 'u raft_server) option" where
  "raft_send_appendentries p me = do {
     cassert (rs_node me \<noteq> Some p);
     (case cb_send_appendentries (rs_cb me) of
        None \<Rightarrow> Some (- 1, me)
      | Some f \<Rightarrow> do {
          nd \<leftarrow> rs_store me p;
          let next_idx = nd_next_idx nd;
          if 0 < rs_snapshot_last_idx me \<and> next_idx < rs_snapshot_last_idx me then
            Some (RAFT_ERR_NEEDS_SNAPSHOT, call_send_snapshot p me)
          else do {
            etys \<leftarrow> log_get_from_idx next_idx (rs_log me);
            cassert (etys \<noteq> [] \<longleftrightarrow> raft_get_entry_from_idx next_idx me \<noteq> None);
            let (prev_log_idx, prev_log_term) = ae_prev next_idx me;
            let ae = \<lparr>ae_term = rs_current_term me, ae_prev_log_idx = prev_log_idx,
                      ae_prev_log_term = prev_log_term, ae_leader_commit = rs_commit_idx me, ae_entries = etys\<rparr>;
            let (e, u) = f p ae (rs_udata me);
            Some (e, me\<lparr>rs_udata := u\<rparr>)
          }
        })
   }"

fun send_appendentries_loop :: "nat list \<Rightarrow> 'u raft_server \<Rightarrow> (int \<times> 'u raft_server) option" where
  "send_appendentries_loop [] me = Some (0, me)"
| "send_appendentries_loop (p # ps) me =
    (if rs_node me = Some p then send_appendentries_loop ps me
     else do {
       nd \<leftarrow> rs_store me p;
       if \<not> raft_node_is_active nd then send_appendentries_loop ps me
       else do {
         (e, me) \<leftarrow> raft_send_appendentries p me;
         if e \<noteq> 0 then Some (e, me) else send_appendentries_loop ps me
       }
     })"

definition raft_send_appendentries_all :: "'u raft_server \<Rightarrow> (int \<times> 'u raft_server) option" where
  "raft_send_appendentries_all me = send_appendentries_loop (rs_nodes me) (me\<lparr>rs_timeout_elapsed := 0\<rparr>)"

subsection \<open>Roles and votes\<close>

definition raft_vote_for_nodeid :: "raft_node_id_t \<Rightarrow> 'u raft_server \<Rightarrow> int \<times> 'u raft_server" where
  "raft_vote_for_nodeid nodeid me =
    (let (e, u) = (case cb_persist_vote (rs_cb me) of None \<Rightarrow> (0, rs_udata me) | Some f \<Rightarrow> f nodeid (rs_udata me))
     in if e \<noteq> 0 then (e, me\<lparr>rs_udata := u\<rparr>) else (0, me\<lparr>rs_udata := u, rs_voted_for := nodeid\<rparr>))"

definition raft_vote :: "nat option \<Rightarrow> 'u raft_server \<Rightarrow> (int \<times> 'u raft_server) option" where
  "raft_vote node me = (case node of
     None \<Rightarrow> Some (raft_vote_for_nodeid (- 1) me)
   | Some p \<Rightarrow> do { nd \<leftarrow> rs_store me p; Some (raft_vote_for_nodeid (nd_id nd) me) })"

definition raft_get_nvotes_for_me :: "'u raft_server \<Rightarrow> int option" where
  "raft_get_nvotes_for_me me = do {
     votes \<leftarrow> count_nodes (\<lambda>p. if rs_node me = Some p then Some False else do {
         nd \<leftarrow> rs_store me p;
         Some (raft_node_is_active nd \<and> raft_node_is_voting nd \<and> raft_node_has_vote_for_me nd)
       }) (rs_nodes me);
     nodeid \<leftarrow> raft_get_nodeid me;
     Some (if rs_voted_for me = nodeid then votes + 1 else votes)
   }"

definition leader_init_node :: "nat \<Rightarrow> 'u raft_server \<Rightarrow> 'u raft_server option" where
  "leader_init_node p me =
    (if rs_node me = Some p then Some me
     else do {
       nd \<leftarrow> rs_store me p;
       if \<not> raft_node_is_active nd then Some me
       else do {
         me \<leftarrow> upd_node p (raft_node_set_next_idx (raft_get_current_idx me + 1)) me;
         me \<leftarrow> upd_node p (raft_node_set_match_idx 0) me;
         (_, me) \<leftarrow> raft_send_appendentries p me;
         Some me
       }
     })"

definition raft_become_leader :: "'u raft_server \<Rightarrow> 'u raft_server option" where
  "raft_become_leader me = do {
     let me = (raft_set_state RAFT_STATE_LEADER me)\<lparr>rs_timeout_elapsed := 0\<rparr>;
     for_nodes leader_init_node (rs_nodes me) me
   }"

definition candidate_ask_node :: "nat \<Rightarrow> 'u raft_server \<Rightarrow> 'u raft_server option" where
  "candidate_ask_node p me =
    (if rs_node me = Some p then Some me
     else do {
       nd \<leftarrow> rs_store me p;
       if raft_node_is_active nd \<and> raft_node_is_voting nd then do {
         (_, me) \<leftarrow> raft_send_requestvote p me;
         Some me
       } else Some me
     })"

definition raft_become_candidate :: "'u raft_server \<Rightarrow> (int \<times> 'u raft_server) option" where
  "raft_become_candidate me =
    (case raft_set_current_term (rs_current_term me + 1) me of
       (e, me) \<Rightarrow>
         if e \<noteq> 0 then Some (e, me)
         else do {
           me \<leftarrow> for_nodes (\<lambda>p. upd_node p (raft_node_vote_for_me False)) (rs_nodes me) me;
           (_, me) \<leftarrow> raft_vote (rs_node me) me;
           let me = raft_set_state RAFT_STATE_CANDIDATE (me\<lparr>rs_current_leader := None\<rparr>);
           me \<leftarrow> raft_randomize_election_timeout me;
           let me = me\<lparr>rs_timeout_elapsed := 0\<rparr>;
           me \<leftarrow> for_nodes candidate_ask_node (rs_nodes me) me;
           Some (0, me)
         })"

definition raft_election_start :: "'u raft_server \<Rightarrow> (int \<times> 'u raft_server) option" where
  "raft_election_start me = raft_become_candidate me"

definition raft_become_follower :: "'u raft_server \<Rightarrow> 'u raft_server option" where
  "raft_become_follower me = do {
     me \<leftarrow> raft_randomize_election_timeout (raft_set_state RAFT_STATE_FOLLOWER me);
     Some (me\<lparr>rs_timeout_elapsed := 0\<rparr>)
   }"

subsection \<open>Votes\<close>

definition should_grant_vote :: "msg_requestvote_t \<Rightarrow> 'u raft_server \<Rightarrow> bool option" where
  "should_grant_vote vr me = do {
     voting \<leftarrow> my_node_is_voting me;
     Some (
       if \<not> voting then False
       else if rv_term vr < rs_current_term me then False
       else if raft_already_voted me then False
       else
         let current_idx = raft_get_current_idx me in
         if current_idx = 0 then True
         else
           case (case raft_get_entry_from_idx current_idx me of
                   Some ety \<Rightarrow> Some (to_int32 (ety_term ety))
                 | None \<Rightarrow> if rs_snapshot_last_idx me = current_idx
                           then Some (to_int32 (rs_snapshot_last_term me)) else None) of
             None \<Rightarrow> False
           | Some ety_trm \<Rightarrow>
              ety_trm < rv_last_log_term vr \<or>
              (rv_last_log_term vr = ety_trm \<and> current_idx \<le> rv_last_log_idx vr))
   }"

text \<open>The part of the handler after the term has been taken over: grant or refuse.\<close>

definition requestvote_decide ::
  "nat option \<Rightarrow> msg_requestvote_t \<Rightarrow> 'u raft_server \<Rightarrow> (int \<times> int \<times> 'u raft_server) option" where
  "requestvote_decide node vr me = do {
     grant \<leftarrow> should_grant_vote vr me;
     if grant then do {
       cassert (\<not> (raft_is_leader me \<or> raft_is_candidate me));
       let (e, me) = raft_vote_for_nodeid (rv_candidate_id vr) me;
       Some (e, if e = 0 then 1 else 0, me\<lparr>rs_current_leader := None, rs_timeout_elapsed := 0\<rparr>)
     }
     else Some (0, if node = None then RAFT_REQUESTVOTE_ERR_UNKNOWN_NODE else 0, me)
   }"

definition requestvote_handle ::
  "nat option \<Rightarrow> msg_requestvote_t \<Rightarrow> 'u raft_server \<Rightarrow> (int \<times> int \<times> 'u raft_server) option" where
  "requestvote_handle node vr me =
    (if rs_current_leader me \<noteq> None \<and> rs_current_leader me \<noteq> node \<and>
        rs_timeout_elapsed me < rs_election_timeout me then Some (0, 0, me)
     else if rs_current_term me < rv_term vr then
       (case raft_set_current_term (rv_term vr) me of
          (e, me) \<Rightarrow>
            if e \<noteq> 0 then Some (e, 0, me)
            else do {
              me \<leftarrow> raft_become_follower me;
              requestvote_decide node vr (me\<lparr>rs_current_leader := None\<rparr>)
            })
     else requestvote_decide node vr me)"

definition raft_recv_requestvote :: "nat option \<Rightarrow> msg_requestvote_t \<Rightarrow> 'u raft_server \<Rightarrow>
    (int \<times> msg_requestvote_response_t \<times> 'u raft_server) option" where
  "raft_recv_requestvote node vr me = do {
     node \<leftarrow> (case node of None \<Rightarrow> raft_get_node (rv_candidate_id vr) me | Some p \<Rightarrow> Some (Some p));
     (e, vote_granted, me) \<leftarrow> requestvote_handle node vr me;
     Some (e, \<lparr>rvr_term = rs_current_term me, rvr_vote_granted = vote_granted\<rparr>, me)
   }"

definition raft_recv_requestvote_response ::
  "nat option \<Rightarrow> msg_requestvote_response_t \<Rightarrow> 'u raft_server \<Rightarrow> (int \<times> 'u raft_server) option" where
  "raft_recv_requestvote_response node r me =
    (if \<not> raft_is_candidate me then Some (0, me)
     else if rs_current_term me < rvr_term r then
       (case raft_set_current_term (rvr_term r) me of
          (e, me) \<Rightarrow>
            if e \<noteq> 0 then Some (e, me)
            else do {
              me \<leftarrow> raft_become_follower me;
              Some (0, me\<lparr>rs_current_leader := None\<rparr>)
            })
     else if rs_current_term me \<noteq> rvr_term r then Some (0, me)
     else if rvr_vote_granted r = RAFT_REQUESTVOTE_ERR_GRANTED then do {
       me \<leftarrow> (case node of Some p \<Rightarrow> upd_node p (raft_node_vote_for_me True) me | None \<Rightarrow> Some me);
       votes \<leftarrow> raft_get_nvotes_for_me me;
       nvoting \<leftarrow> raft_get_num_voting_nodes me;
       if raft_votes_is_majority nvoting votes then do { me \<leftarrow> raft_become_leader me; Some (0, me) }
       else Some (0, me)
     }
     else if rvr_vote_granted r = RAFT_REQUESTVOTE_ERR_NOT_GRANTED then Some (0, me)
     else if rvr_vote_granted r = RAFT_REQUESTVOTE_ERR_UNKNOWN_NODE then do {
       voting \<leftarrow> my_node_is_voting me;
       Some (if voting \<and> rs_connected me = RAFT_NODE_STATUS_DISCONNECTING then RAFT_ERR_SHUTDOWN else 0, me)
     }
     else None)"

subsection \<open>Replication\<close>

text \<open>The commit index after a peer has acknowledged \<open>point\<close>.\<close>

definition update_commit_idx :: "raft_index_t \<Rightarrow> 'u raft_server \<Rightarrow> 'u raft_server option" where
  "update_commit_idx point me =
    (if point = 0 then Some me
     else if rs_commit_idx me < point then do {
       ety \<leftarrow> raft_get_entry_from_idx point me;
       if ety_term ety = rs_current_term me then do {
         n \<leftarrow> count_nodes (\<lambda>p. if rs_node me = Some p then Some False else do {
             nd \<leftarrow> rs_store me p;
             Some (raft_node_is_active nd \<and> raft_node_is_voting nd \<and> point \<le> nd_match_idx nd)
           }) (rs_nodes me);
         nvoting \<leftarrow> raft_get_num_voting_nodes me;
         if nvoting div 2 < 1 + n then raft_set_commit_idx point me else Some me
       } else Some me
     } else Some me)"

definition check_sufficient_logs :: "nat \<Rightarrow> raft_index_t \<Rightarrow> 'u raft_server \<Rightarrow> 'u raft_server option" where
  "check_sufficient_logs p r_current_idx me = do {
     nd \<leftarrow> rs_store me p;
     (case cb_node_has_sufficient_logs (rs_cb me) of
        None \<Rightarrow> Some me
      | Some f \<Rightarrow>
          if \<not> raft_node_is_voting nd \<and> \<not> raft_voting_change_is_in_progress me \<and>
             raft_get_current_idx me \<le> r_current_idx + 1 \<and>
             \<not> raft_node_is_voting_committed nd \<and> \<not> raft_node_has_sufficient_logs nd then
            let (e, u) = f p (rs_udata me); me = me\<lparr>rs_udata := u\<rparr>
            in if e = 0 then upd_node p raft_node_set_has_sufficient_logs me else Some me
          else Some me)
   }"

definition raft_recv_appendentries_response ::
  "nat option \<Rightarrow> msg_appendentries_response_t \<Rightarrow> 'u raft_server \<Rightarrow> (int \<times> 'u raft_server) option" where
  "raft_recv_appendentries_response node r me =
    (case node of
       None \<Rightarrow> Some (- 1, me)
     | Some p \<Rightarrow>
        if \<not> raft_is_leader me then Some (RAFT_ERR_NOT_LEADER, me)
        else if rs_current_term me < aer_term r then
          (case raft_set_current_term (aer_term r) me of
             (e, me) \<Rightarrow>
               if e \<noteq> 0 then Some (e, me)
               else do {
                 me \<leftarrow> raft_become_follower me;
                 Some (0, me\<lparr>rs_current_leader := None\<rparr>)
               })
        else if rs_current_term me \<noteq> aer_term r then Some (0, me)
        else do {
          nd \<leftarrow> rs_store me p;
          let match_idx = nd_match_idx nd;
          if aer_success r = 0 then do {
            let next_idx = nd_next_idx nd;
            cassert (0 < next_idx);
            if aer_current_idx r < match_idx then Some (0, me)
            else do {
              me \<leftarrow> upd_node p (raft_node_set_next_idx
                      (if aer_current_idx r < next_idx - 1
                       then min (aer_current_idx r + 1) (raft_get_current_idx me)
                       else next_idx - 1)) me;
              (_, me) \<leftarrow> raft_send_appendentries p me;
              Some (0, me)
            }
          }
          else do {
            me \<leftarrow> check_sufficient_logs p (aer_current_idx r) me;
            if aer_current_idx r \<le> match_idx then Some (0, me)
            else do {
              cassert (aer_current_idx r \<le> raft_get_current_idx me);
              me \<leftarrow> upd_node p (raft_node_set_next_idx (aer_current_idx r + 1)) me;
              me \<leftarrow> upd_node p (raft_node_set_match_idx (aer_current_idx r)) me;
              me \<leftarrow> update_commit_idx (aer_current_idx r) me;
              nd \<leftarrow> rs_store me p;
              if raft_get_entry_from_idx (nd_next_idx nd) me \<noteq> None then do {
                (_, me) \<leftarrow> raft_send_appendentries p me;
                Some (0, me)
              } else Some (0, me)
            }
          }
        })"

text \<open>The phases of \<^verbatim>\<open>raft_recv_appendentries\<close>. In the first two, \<open>Some e\<close> is a jump to \<^verbatim>\<open>out\<close> with the
  return code \<open>e\<close>.\<close>

definition ae_check_term :: "msg_appendentries_t \<Rightarrow> 'u raft_server \<Rightarrow> (int option \<times> 'u raft_server) option" where
  "ae_check_term ae me =
    (if raft_is_candidate me \<and> rs_current_term me = ae_term ae then do {
       me \<leftarrow> raft_become_follower me;
       Some (None, me)
     }
     else if rs_current_term me < ae_term ae then
       (case raft_set_current_term (ae_term ae) me of
          (e, me) \<Rightarrow>
            if e \<noteq> 0 then Some (Some e, me)
            else do { me \<leftarrow> raft_become_follower me; Some (None, me) })
     else if ae_term ae < rs_current_term me then Some (Some 0, me)
     else Some (None, me))"

definition ae_check_prev :: "msg_appendentries_t \<Rightarrow> 'u raft_server \<Rightarrow> (int option \<times> 'u raft_server) option" where
  "ae_check_prev ae me =
    (if 0 < ae_prev_log_idx ae then
       if ae_prev_log_idx ae = rs_snapshot_last_idx me then
         (if rs_snapshot_last_term me \<noteq> ae_prev_log_term ae then Some (Some RAFT_ERR_SHUTDOWN, me)
          else Some (None, me))
       else (case raft_get_entry_from_idx (ae_prev_log_idx ae) me of
               None \<Rightarrow> Some (Some 0, me)
             | Some ety \<Rightarrow>
                if ety_term ety \<noteq> ae_prev_log_term ae then
                  (if ae_prev_log_idx ae \<le> rs_commit_idx me then Some (Some RAFT_ERR_SHUTDOWN, me)
                   else do {
                     (e, me) \<leftarrow> raft_delete_entry_from_idx (ae_prev_log_idx ae) me;
                     Some (Some e, me)
                   })
                else Some (None, me))
     else Some (None, me))"

text \<open>\<open>ae_conflicts etys i c me\<close> is the first loop, with the remaining entries, the index of the
  next one and \<^verbatim>\<open>r->current_idx\<close>. It returns the entries left for the second loop.\<close>

fun ae_conflicts :: "raft_entry list \<Rightarrow> raft_index_t \<Rightarrow> raft_index_t \<Rightarrow> 'u raft_server \<Rightarrow>
    (int option \<times> raft_entry list \<times> raft_index_t \<times> 'u raft_server) option" where
  "ae_conflicts [] i c me = Some (None, [], c, me)"
| "ae_conflicts (ety # etys) i c me =
    (case raft_get_entry_from_idx i me of
       None \<Rightarrow> Some (None, ety # etys, c, me)
     | Some existing_ety \<Rightarrow>
        if ety_term existing_ety \<noteq> ety_term ety then
          (if i \<le> rs_commit_idx me then Some (Some RAFT_ERR_SHUTDOWN, ety # etys, c, me)
           else do {
             (e, me) \<leftarrow> raft_delete_entry_from_idx i me;
             Some (if e \<noteq> 0 then Some e else None, ety # etys, c, me)
           })
        else ae_conflicts etys (i + 1) i me)"

fun ae_append :: "raft_entry list \<Rightarrow> raft_index_t \<Rightarrow> raft_index_t \<Rightarrow> 'u raft_server \<Rightarrow>
    (int \<times> raft_index_t \<times> 'u raft_server) option" where
  "ae_append [] i c me = Some (0, c, me)"
| "ae_append (ety # etys) i c me = do {
     (e, me) \<leftarrow> raft_append_entry ety me;
     if e \<noteq> 0 then Some (e, c, me) else ae_append etys (i + 1) i me
   }"

definition ae_commit :: "msg_appendentries_t \<Rightarrow> 'u raft_server \<Rightarrow> 'u raft_server option" where
  "ae_commit ae me =
    (if rs_commit_idx me < ae_leader_commit ae then
       let last_log_idx = max (raft_get_current_idx me) 1
       in raft_set_commit_idx (min last_log_idx (ae_leader_commit ae)) me
     else Some me)"

text \<open>The entries of a message that passed both checks: the return code, \<^verbatim>\<open>r->current_idx\<close> and the
  server.\<close>

definition ae_store :: "msg_appendentries_t \<Rightarrow> 'u raft_server \<Rightarrow> (int \<times> raft_index_t \<times> 'u raft_server) option" where
  "ae_store ae me = do {
     let prev = ae_prev_log_idx ae;
     (out, rest, c, me) \<leftarrow> ae_conflicts (ae_entries ae) (prev + 1) prev me;
     (case out of
        Some e \<Rightarrow> Some (e, c, me)
      | None \<Rightarrow> do {
          let i = prev + 1 + int (length (ae_entries ae) - length rest);
          (e, c, me) \<leftarrow> ae_append rest i c me;
          if e \<noteq> 0 then Some (e, c, me)
          else do { me \<leftarrow> ae_commit ae me; Some (0, c, me) }
        })
   }"

definition ae_response :: "msg_appendentries_t \<Rightarrow> int \<Rightarrow> raft_index_t \<Rightarrow> 'u raft_server \<Rightarrow> msg_appendentries_response_t" where
  "ae_response ae success c me =
    \<lparr>aer_term = rs_current_term me, aer_success = success,
     aer_current_idx = (if success = 0 then raft_get_current_idx me else c),
     aer_first_idx = ae_prev_log_idx ae + 1\<rparr>"

definition raft_recv_appendentries :: "nat option \<Rightarrow> msg_appendentries_t \<Rightarrow> 'u raft_server \<Rightarrow>
    (int \<times> msg_appendentries_response_t \<times> 'u raft_server) option" where
  "raft_recv_appendentries node ae me = do {
     (out, me) \<leftarrow> ae_check_term ae me;
     (case out of
        Some e \<Rightarrow> Some (e, ae_response ae 0 0 me, me)
      | None \<Rightarrow> do {
          (out, me) \<leftarrow> ae_check_prev ae (me\<lparr>rs_current_leader := node, rs_timeout_elapsed := 0\<rparr>);
          (case out of
             Some e \<Rightarrow> Some (e, ae_response ae 0 0 me, me)
           | None \<Rightarrow> do {
               (e, c, me) \<leftarrow> ae_store ae me;
               Some (e, ae_response ae 1 c me, me)
             })
        })
   }"

definition entry_send_node :: "nat \<Rightarrow> 'u raft_server \<Rightarrow> 'u raft_server option" where
  "entry_send_node p me =
    (if rs_node me = Some p then Some me
     else do {
       nd \<leftarrow> rs_store me p;
       if \<not> raft_node_is_active nd \<or> \<not> raft_node_is_voting nd then Some me
       else if nd_next_idx nd = raft_get_current_idx me then do {
         (_, me) \<leftarrow> raft_send_appendentries p me;
         Some me
       } else Some me
     })"

definition raft_recv_entry ::
  "raft_entry \<Rightarrow> 'u raft_server \<Rightarrow> (int \<times> msg_entry_response_t option \<times> 'u raft_server) option" where
  "raft_recv_entry ety me =
    (if raft_entry_is_voting_cfg_change ety \<and> raft_voting_change_is_in_progress me then
       Some (RAFT_ERR_ONE_VOTING_CHANGE_ONLY, None, me)
     else if raft_entry_is_voting_cfg_change ety \<and> \<not> raft_is_apply_allowed me then
       Some (RAFT_ERR_SNAPSHOT_IN_PROGRESS, None, me)
     else if \<not> raft_is_leader me then Some (RAFT_ERR_NOT_LEADER, None, me)
     else do {
       let ety = ety\<lparr>ety_term := rs_current_term me\<rparr>;
       (e, me) \<leftarrow> raft_append_entry ety me;
       if e \<noteq> 0 then Some (e, None, me)
       else do {
         me \<leftarrow> for_nodes entry_send_node (rs_nodes me) me;
         nvoting \<leftarrow> raft_get_num_voting_nodes me;
         me \<leftarrow> (if nvoting = 1 then raft_set_commit_idx (raft_get_current_idx me) me else Some me);
         let r = \<lparr>er_id = ety_id ety, er_term = rs_current_term me, er_idx = raft_get_current_idx me\<rparr>;
         let me = (if raft_entry_is_voting_cfg_change ety
                   then me\<lparr>rs_voting_cfg_change_log_idx := raft_get_current_idx me\<rparr> else me);
         Some (0, Some r, me)
       }
     })"

definition raft_msg_entry_response_committed :: "msg_entry_response_t \<Rightarrow> 'u raft_server \<Rightarrow> int" where
  "raft_msg_entry_response_committed r me =
    (case raft_get_entry_from_idx (er_idx r) me of
       None \<Rightarrow> 0
     | Some ety \<Rightarrow>
        if er_term r \<noteq> ety_term ety then - 1
        else if er_idx r \<le> rs_commit_idx me then 1 else 0)"

subsection \<open>Applying committed entries\<close>

text \<open>What an applied configuration entry does to the membership. Only the first two cases
  dereference the node without a test.\<close>

definition apply_cfg_entry :: "raft_entry \<Rightarrow> raft_index_t \<Rightarrow> 'u raft_server \<Rightarrow> 'u raft_server option" where
  "apply_cfg_entry ety log_idx me = do {
     (node_id, me) \<leftarrow> cb_node_id ety log_idx me;
     node \<leftarrow> raft_get_node node_id me;
     (if ety_type ety = RAFT_LOGTYPE_ADD_NODE then do {
        p \<leftarrow> node;
        me \<leftarrow> upd_node p (raft_node_set_addition_committed True) me;
        me \<leftarrow> upd_node p (raft_node_set_voting_committed True) me;
        me \<leftarrow> upd_node p raft_node_set_has_sufficient_logs me;
        self \<leftarrow> raft_get_nodeid me;
        Some (if node_id = self then me\<lparr>rs_connected := RAFT_NODE_STATUS_CONNECTED\<rparr> else me)
      }
      else if ety_type ety = RAFT_LOGTYPE_ADD_NONVOTING_NODE then do {
        p \<leftarrow> node; upd_node p (raft_node_set_addition_committed True) me
      }
      else if ety_type ety = RAFT_LOGTYPE_DEMOTE_NODE then
        (case node of Some p \<Rightarrow> upd_node p (raft_node_set_voting_committed False) me | None \<Rightarrow> Some me)
      else if ety_type ety = RAFT_LOGTYPE_REMOVE_NODE then
        (case node of Some p \<Rightarrow> raft_remove_node (Some p) me | None \<Rightarrow> Some me)
      else Some me)
   }"

text \<open>The loop of \<^verbatim>\<open>raft_apply_all\<close> ends because every successful \<^verbatim>\<open>raft_apply_entry\<close> moves
  \<^verbatim>\<open>last_applied_idx\<close> one step towards the commit index. \<open>core\<close> is the part of the server that
  membership bookkeeping, sending and callbacks never touch.\<close>

definition core :: "'u raft_server \<Rightarrow> (int \<times> int \<times> raft_log) \<times> (int \<times> int \<times> raft_state_e) \<times>
    (bool \<times> int \<times> int \<times> int) \<times> 'u raft_cbs_t \<times> int" where
  "core me = ((rs_current_term me, rs_voted_for me, rs_log me),
     (rs_commit_idx me, rs_last_applied_idx me, rs_state me),
     (rs_snapshot_in_progress me, rs_snapshot_last_idx me, rs_snapshot_last_term me,
      rs_saved_snapshot_last_idx me),
     rs_cb me, rs_election_timeout me)"

lemma core_upd [simp]:
  "core (me\<lparr>rs_udata := a\<rparr>) = core me" "core (me\<lparr>rs_store := b\<rparr>) = core me"
  "core (me\<lparr>rs_nodes := c\<rparr>) = core me" "core (me\<lparr>rs_node := d\<rparr>) = core me"
  "core (me\<lparr>rs_current_leader := d\<rparr>) = core me" "core (me\<lparr>rs_timeout_elapsed := i\<rparr>) = core me"
  "core (me\<lparr>rs_fresh := p\<rparr>) = core me" "core (me\<lparr>rs_alloc := q\<rparr>) = core me"
  "core (me\<lparr>rs_rand := r\<rparr>) = core me" "core (me\<lparr>rs_connected := s\<rparr>) = core me"
  "core (me\<lparr>rs_voting_cfg_change_log_idx := i\<rparr>) = core me"
  "core (me\<lparr>rs_election_timeout_rand := i\<rparr>) = core me"
  by (simp_all add: core_def)

lemma coreD:
  assumes "core me' = core me"
  shows "rs_current_term me' = rs_current_term me" "rs_voted_for me' = rs_voted_for me" "rs_log me' = rs_log me"
    "rs_commit_idx me' = rs_commit_idx me" "rs_last_applied_idx me' = rs_last_applied_idx me"
    "rs_state me' = rs_state me" "rs_cb me' = rs_cb me" "rs_election_timeout me' = rs_election_timeout me"
    "rs_snapshot_in_progress me' = rs_snapshot_in_progress me"
    "rs_snapshot_last_idx me' = rs_snapshot_last_idx me" "rs_snapshot_last_term me' = rs_snapshot_last_term me"
    "rs_saved_snapshot_last_idx me' = rs_saved_snapshot_last_idx me"
  using assms by (simp_all add: core_def)

lemma upd_node_core: "upd_node p f me = Some me' \<Longrightarrow> core me' = core me"
  by (auto simp: upd_node_def bind_eq_Some_conv)

lemma set_node_voting_core: "set_node_voting p b me = Some me' \<Longrightarrow> core me' = core me"
  by (auto simp: set_node_voting_def bind_eq_Some_conv)

lemma cb_node_id_core: "cb_node_id ety idx me = Some (n, me') \<Longrightarrow> core me' = core me"
  by (auto simp: cb_node_id_def bind_eq_Some_conv Let_def case_prod_beta)

lemma notify_membership_core [simp]: "core (notify_membership n e t me) = core me"
  by (simp add: notify_membership_def split: option.split)

lemma with_udata_core: "with_udata f ety idx me = (e, me') \<Longrightarrow> core me' = core me"
  by (auto simp: with_udata_def split: prod.splits)

lemma raft_remove_node_core: "raft_remove_node q me = Some me' \<Longrightarrow> core me' = core me"
  by (auto simp: raft_remove_node_def bind_eq_Some_conv Let_def)

lemma apply_cfg_entry_yields: "yields (\<lambda>me'. core me' = core me) (apply_cfg_entry ety i me)"
  by (unfold apply_cfg_entry_def, intro yields_rules)
    (auto simp: yields_def dest!: cb_node_id_core raft_remove_node_core upd_node_core)

lemmas apply_cfg_entry_core = yieldsD [OF _ apply_cfg_entry_yields]

definition call_applylog :: "raft_entry \<Rightarrow> 'u raft_server \<Rightarrow> int \<times> 'u raft_server" where
  "call_applylog ety me = (case cb_applylog (rs_cb me) of
     None \<Rightarrow> (0, me) | Some f \<Rightarrow> with_udata f ety (rs_last_applied_idx me) me)"

lemma call_applylog_core: "call_applylog ety me = (e, me') \<Longrightarrow> core me' = core me"
  by (auto simp: call_applylog_def with_udata_core split: option.splits)

definition raft_apply_entry :: "'u raft_server \<Rightarrow> (int \<times> 'u raft_server) option" where
  "raft_apply_entry me =
    (if \<not> raft_is_apply_allowed me then Some (- 1, me)
     else if rs_last_applied_idx me = rs_commit_idx me then Some (- 1, me)
     else
       let log_idx = rs_last_applied_idx me + 1 in
       case raft_get_entry_from_idx log_idx me of
         None \<Rightarrow> Some (- 1, me)
       | Some ety \<Rightarrow>
          let (e, me) = call_applylog ety (me\<lparr>rs_last_applied_idx := rs_last_applied_idx me + 1\<rparr>)
          in if e = RAFT_ERR_SHUTDOWN then Some (RAFT_ERR_SHUTDOWN, me)
             else do {
               let me = (if log_idx = rs_voting_cfg_change_log_idx me
                         then me\<lparr>rs_voting_cfg_change_log_idx := - 1\<rparr> else me);
               if \<not> raft_entry_is_cfg_change ety then Some (0, me)
               else do { me \<leftarrow> apply_cfg_entry ety log_idx me; Some (0, me) }
             })"

lemma raft_apply_entry_yields:
  "yields (\<lambda>(e, me'). core me' = core me \<and> e = - 1 \<or>
    core me' = core (me\<lparr>rs_last_applied_idx := rs_last_applied_idx me + 1\<rparr>) \<and> (e = 0 \<or> e = RAFT_ERR_SHUTDOWN) \<and>
    rs_last_applied_idx me \<noteq> rs_commit_idx me \<and> raft_get_entry_from_idx (rs_last_applied_idx me + 1) me \<noteq> None)
    (raft_apply_entry me)"
  by (unfold raft_apply_entry_def, intro yields_rules) (auto dest!: apply_cfg_entry_core call_applylog_core)

lemmas raft_apply_entry_core = yieldsD [OF _ raft_apply_entry_yields]

lemma raft_apply_entry_idx:
  assumes "raft_apply_entry me = Some (0, me')"
  shows "rs_commit_idx me' = rs_commit_idx me \<and> rs_last_applied_idx me' = rs_last_applied_idx me + 1"
  using raft_apply_entry_core [OF assms] by (auto dest: coreD)

function apply_all_loop :: "'u raft_server \<Rightarrow> (int \<times> 'u raft_server) option" where
  "apply_all_loop me =
    (if rs_last_applied_idx me < rs_commit_idx me then
       (case raft_apply_entry me of
          None \<Rightarrow> None
        | Some (e, me') \<Rightarrow> if e \<noteq> 0 then Some (e, me') else apply_all_loop me')
     else Some (0, me))"
  by pat_completeness auto
termination
  by (relation "measure (\<lambda>me. nat (rs_commit_idx me - rs_last_applied_idx me))")
    (auto dest: raft_apply_entry_idx)

declare apply_all_loop.simps [simp del]

definition raft_apply_all :: "'u raft_server \<Rightarrow> (int \<times> 'u raft_server) option" where
  "raft_apply_all me = (if \<not> raft_is_apply_allowed me then Some (0, me) else apply_all_loop me)"

subsection \<open>The timer\<close>

definition periodic_leader_check :: "'u raft_server \<Rightarrow> 'u raft_server option" where
  "periodic_leader_check me = do {
     nvoting \<leftarrow> raft_get_num_voting_nodes me;
     if nvoting = 1 then do {
       voting \<leftarrow> my_node_is_voting me;
       if voting \<and> \<not> raft_is_leader me then raft_become_leader me else Some me
     } else Some me
   }"

definition periodic_election :: "'u raft_server \<Rightarrow> (int \<times> 'u raft_server) option" where
  "periodic_election me =
    (if rs_election_timeout_rand me \<le> rs_timeout_elapsed me \<and> \<not> rs_snapshot_in_progress me then do {
       nvoting \<leftarrow> raft_get_num_voting_nodes me;
       if 1 < nvoting then do {
         voting \<leftarrow> my_node_is_voting me;
         if voting then raft_election_start me else Some (0, me)
       } else Some (0, me)
     } else Some (0, me))"

definition periodic_role :: "'u raft_server \<Rightarrow> (int \<times> 'u raft_server) option" where
  "periodic_role me =
    (if rs_state me = RAFT_STATE_LEADER then
       (if rs_request_timeout me \<le> rs_timeout_elapsed me then do {
          (_, me) \<leftarrow> raft_send_appendentries_all me;
          Some (0, me)
        } else Some (0, me))
     else periodic_election me)"

definition raft_periodic :: "int \<Rightarrow> 'u raft_server \<Rightarrow> (int \<times> 'u raft_server) option" where
  "raft_periodic msec_since_last_period me = do {
     me \<leftarrow> periodic_leader_check (me\<lparr>rs_timeout_elapsed := rs_timeout_elapsed me + msec_since_last_period\<rparr>);
     (e, me) \<leftarrow> periodic_role me;
     if e \<noteq> 0 then Some (e, me)
     else if rs_last_applied_idx me < rs_commit_idx me \<and> raft_is_apply_allowed me then raft_apply_all me
     else Some (0, me)
   }"

subsection \<open>Snapshots\<close>

definition raft_get_first_entry_idx :: "'u raft_server \<Rightarrow> raft_index_t option" where
  "raft_get_first_entry_idx me = do {
     cassert (0 < raft_get_current_idx me);
     Some (if rs_snapshot_last_idx me = 0 then 1 else rs_snapshot_last_idx me)
   }"

definition raft_get_num_snapshottable_logs :: "'u raft_server \<Rightarrow> raft_index_t" where
  "raft_get_num_snapshottable_logs me =
    (if lg_count (rs_log me) \<le> 1 then 0 else rs_commit_idx me - lg_base (rs_log me))"

definition raft_begin_snapshot :: "32 word \<Rightarrow> 'u raft_server \<Rightarrow> (int \<times> 'u raft_server) option" where
  "raft_begin_snapshot flags me =
    (if raft_get_num_snapshottable_logs me = 0 then Some (- 1, me)
     else
       let snapshot_target = rs_commit_idx me in
       if snapshot_target = 0 then Some (- 1, me)
       else case raft_get_entry_from_idx snapshot_target me of
         None \<Rightarrow> Some (- 1, me)
       | Some ety \<Rightarrow> do {
           (e, me) \<leftarrow> raft_apply_all me;
           if e \<noteq> 0 then Some (e, me)
           else do {
             cassert (rs_commit_idx me = rs_last_applied_idx me);
             Some (0, (raft_set_snapshot_metadata (ety_term ety) snapshot_target me)
                        \<lparr>rs_snapshot_in_progress := True, rs_snapshot_flags := flags\<rparr>)
           }
         })"

definition raft_cancel_snapshot :: "'u raft_server \<Rightarrow> int \<times> 'u raft_server" where
  "raft_cancel_snapshot me =
    (if \<not> rs_snapshot_in_progress me then (- 1, me)
     else (0, me\<lparr>rs_snapshot_last_idx := rs_saved_snapshot_last_idx me,
                 rs_snapshot_last_term := rs_saved_snapshot_last_term me,
                 rs_snapshot_in_progress := False\<rparr>))"

fun poll_entries :: "nat \<Rightarrow> 'u raft_server \<Rightarrow> (int \<times> 'u raft_server) option" where
  "poll_entries 0 me = Some (0, me)"
| "poll_entries (Suc n) me = do {
     (e, _, me) \<leftarrow> raft_poll_entry me;
     if e \<noteq> 0 then Some (- 1, me) else poll_entries n me
   }"

definition snapshot_send_node :: "nat \<Rightarrow> 'u raft_server \<Rightarrow> 'u raft_server option" where
  "snapshot_send_node p me =
    (if rs_node me = Some p then Some me
     else do {
       nd \<leftarrow> rs_store me p;
       if \<not> raft_node_is_active nd then Some me
       else if 0 < rs_snapshot_last_idx me \<and> nd_next_idx nd < rs_snapshot_last_idx me
       then Some (call_send_snapshot p me)
       else Some me
     })"

definition raft_end_snapshot :: "'u raft_server \<Rightarrow> (int \<times> 'u raft_server) option" where
  "raft_end_snapshot me =
    (if \<not> rs_snapshot_in_progress me \<or> rs_snapshot_last_idx me = 0 then Some (- 1, me)
     else do {
       cassert (raft_get_num_snapshottable_logs me \<noteq> 0);
       cassert (rs_snapshot_last_idx me = rs_commit_idx me);
       (e, me) \<leftarrow> poll_entries (nat (raft_get_num_snapshottable_logs me)) me;
       if e \<noteq> 0 then Some (- 1, me)
       else do {
         let me = me\<lparr>rs_snapshot_in_progress := False\<rparr>;
         if \<not> raft_is_leader me then Some (0, me)
         else do { me \<leftarrow> for_nodes snapshot_send_node (rs_nodes me) me; Some (0, me) }
       }
     })"

text \<open>\<open>load_nodes i k ps me\<close> is the loop that deactivates all peers but the server itself, from
  position \<open>i\<close> on, with \<open>k\<close> for \<^verbatim>\<open>my_node_by_idx\<close>.\<close>

fun load_nodes :: "nat \<Rightarrow> nat \<Rightarrow> nat list \<Rightarrow> 'u raft_server \<Rightarrow> (nat \<times> 'u raft_server) option" where
  "load_nodes i k [] me = Some (k, me)"
| "load_nodes i k (p # ps) me = do {
     self \<leftarrow> raft_get_nodeid me;
     nd \<leftarrow> rs_store me p;
     if self = nd_id nd then load_nodes (i + 1) i ps me
     else do { me \<leftarrow> upd_node p (raft_node_set_active False) me; load_nodes (i + 1) k ps me }
   }"

definition raft_begin_load_snapshot ::
  "raft_term_t \<Rightarrow> raft_index_t \<Rightarrow> 'u raft_server \<Rightarrow> (int \<times> 'u raft_server) option" where
  "raft_begin_load_snapshot last_included_term last_included_index me =
    (if last_included_index = - 1 then Some (- 1, me)
     else if last_included_index = 0 \<or> last_included_term = 0 then Some (- 1, me)
     else if last_included_index < rs_last_applied_idx me then Some (- 1, me)
     else if last_included_index < raft_get_current_idx me then Some (- 1, me)
     else if last_included_term = rs_snapshot_last_term me \<and> last_included_index = rs_snapshot_last_idx me
     then Some (RAFT_ERR_SNAPSHOT_ALREADY_LOADED, me)
     else do {
       let me = raft_set_state RAFT_STATE_FOLLOWER
                  (me\<lparr>rs_current_term := last_included_term, rs_voted_for := - 1\<rparr>);
       let me = me\<lparr>rs_current_leader := None\<rparr>;
       let (lg, me) = log_load_from_snapshot (srv_hooks (rs_cb me)) last_included_index (rs_log me) me;
       let me = me\<lparr>rs_log := lg\<rparr>;
       me \<leftarrow> (if rs_commit_idx me < last_included_index then raft_set_commit_idx last_included_index me
             else Some me);
       let me = me\<lparr>rs_last_applied_idx := last_included_index\<rparr>;
       let me = raft_set_snapshot_metadata last_included_term (rs_last_applied_idx me) me;
       (k, me) \<leftarrow> load_nodes 0 0 (rs_nodes me) me;
       cassert (rs_nodes me \<noteq> []);
       Some (0, me\<lparr>rs_nodes := [rs_nodes me ! k]\<rparr>)
     })"

definition commit_node :: "nat \<Rightarrow> 'u raft_server \<Rightarrow> 'u raft_server option" where
  "commit_node p me = do {
     nd \<leftarrow> rs_store me p;
     me \<leftarrow> upd_node p (raft_node_set_voting_committed (raft_node_is_voting nd)) me;
     me \<leftarrow> upd_node p (raft_node_set_addition_committed True) me;
     if raft_node_is_voting nd then upd_node p raft_node_set_has_sufficient_logs me else Some me
   }"

definition raft_end_load_snapshot :: "'u raft_server \<Rightarrow> (int \<times> 'u raft_server) option" where
  "raft_end_load_snapshot me = do { me \<leftarrow> for_nodes commit_node (rs_nodes me) me; Some (0, me) }"

subsection \<open>Creation\<close>

definition zero_log :: raft_log where
  "zero_log = \<lparr>lg_size = 0, lg_count = 0, lg_front = 0, lg_back = 0, lg_base = 0, lg_entries = []\<rparr>"

text \<open>The zeroed structure of \<^verbatim>\<open>calloc\<close>, in a process with the given random numbers and allocation
  outcomes. \<open>zero_log\<close> stands for the null pointer that \<^verbatim>\<open>log_new\<close> replaces.\<close>

definition zero_server :: "int list \<Rightarrow> bool list \<Rightarrow> 'u \<Rightarrow> 'u raft_server" where
  "zero_server rnd al u =
    \<lparr>rs_current_term = 0, rs_voted_for = 0, rs_log = zero_log, rs_commit_idx = 0, rs_last_applied_idx = 0,
     rs_state = RAFT_STATE_NONE, rs_timeout_elapsed = 0, rs_nodes = [], rs_election_timeout = 0,
     rs_election_timeout_rand = 0, rs_request_timeout = 0, rs_current_leader = None,
     rs_cb = no_callbacks, rs_udata = u, rs_node = None, rs_voting_cfg_change_log_idx = 0,
     rs_connected = RAFT_NODE_STATUS_DISCONNECTED, rs_snapshot_in_progress = False, rs_snapshot_flags = 0,
     rs_snapshot_last_idx = 0, rs_snapshot_last_term = 0, rs_saved_snapshot_last_idx = 0,
     rs_saved_snapshot_last_term = 0, rs_store = Map.empty, rs_fresh = 0, rs_rand = rnd, rs_alloc = al\<rparr>"

definition raft_new :: "int list \<Rightarrow> bool list \<Rightarrow> 'u \<Rightarrow> 'u raft_server option option" where
  "raft_new rnd al u =
    (case raft_alloc (zero_server rnd al u) of
       (False, _) \<Rightarrow> Some None
     | (True, me) \<Rightarrow> do {
         me \<leftarrow> raft_randomize_election_timeout
           (me\<lparr>rs_current_term := 0, rs_voted_for := - 1, rs_timeout_elapsed := 0,
               rs_request_timeout := 200, rs_election_timeout := 1000\<rparr>);
         (case log_new (srv_hooks (rs_cb me)) me of
            (None, _) \<Rightarrow> Some None
          | (Some lg, me) \<Rightarrow>
             let me = raft_set_state RAFT_STATE_FOLLOWER
                        (me\<lparr>rs_log := lg, rs_voting_cfg_change_log_idx := - 1\<rparr>)
             in Some (Some (raft_set_snapshot_metadata 0 0
                  (me\<lparr>rs_current_leader := None, rs_snapshot_in_progress := False\<rparr>))))
       })"

definition raft_set_callbacks :: "'u raft_cbs_t \<Rightarrow> 'u \<Rightarrow> 'u raft_server \<Rightarrow> 'u raft_server" where
  "raft_set_callbacks funcs u me = me\<lparr>rs_cb := funcs, rs_udata := u\<rparr>"

definition raft_clear :: "'u raft_server \<Rightarrow> 'u raft_server option" where
  "raft_clear me = do {
     me \<leftarrow> raft_randomize_election_timeout
       (me\<lparr>rs_current_term := 0, rs_voted_for := - 1, rs_timeout_elapsed := 0\<rparr>);
     let me = raft_set_state RAFT_STATE_FOLLOWER (me\<lparr>rs_voting_cfg_change_log_idx := - 1\<rparr>);
     let me = me\<lparr>rs_current_leader := None, rs_commit_idx := 0, rs_last_applied_idx := 0,
                 rs_nodes := [], rs_node := None\<rparr>;
     let me = log_clear_entries (srv_hooks (rs_cb me)) (rs_log me) me;
     Some (me\<lparr>rs_log := log_clear (rs_log me)\<rparr>)
   }"

end
