(* ===== verification/Raft_Inv.thy ===== *)
theory Raft_Inv
  imports Raft_Server
begin

section \<open>What the operations of a server keep\<close>

text \<open>
  Frame lemmas for the operations of \<open>Raft_Server\<close>: which of them leave the protocol state
  (\<open>core\<close>) alone, and what the others do to it. The log operations are reached through the
  interpretation \<open>sh\<close> of \<open>hooks_frame\<close> for the callbacks of a server. The invariant of a
  server and its preservation are in the second half.
\<close>

subsection \<open>Operations that leave the protocol state alone\<close>

lemma raft_alloc_core: "raft_alloc me = (b, me') \<Longrightarrow> core me' = core me"
  by (auto simp: raft_alloc_def split: list.splits)

lemma raft_add_node_internal_yields:
  "yields (\<lambda>r. core (snd r) = core me) (raft_add_node_internal ety u i slf me)"
  by (unfold raft_add_node_internal_def, intro yields_rules)
    (auto dest!: set_node_voting_core raft_alloc_core)

lemmas raft_add_node_internal_core = yieldsD [OF _ raft_add_node_internal_yields]

lemma raft_add_node_core: "raft_add_node u i slf me = Some r \<Longrightarrow> core (snd r) = core me"
  by (simp add: raft_add_node_def raft_add_node_internal_core)

lemma raft_add_non_voting_node_internal_yields:
  "yields (\<lambda>r. core (snd r) = core me) (raft_add_non_voting_node_internal ety u i slf me)"
  by (unfold raft_add_non_voting_node_internal_def, intro yields_rules)
    (auto dest!: set_node_voting_core raft_add_node_internal_core)

lemmas raft_add_non_voting_node_internal_core = yieldsD [OF _ raft_add_non_voting_node_internal_yields]

lemmas node_core = set_node_voting_core raft_add_node_internal_core raft_add_non_voting_node_internal_core
  raft_remove_node_core cb_node_id_core upd_node_core

lemma raft_offer_log_yields: "yields (\<lambda>me'. core me' = core me) (raft_offer_log ety i me)"
  by (unfold raft_offer_log_def, intro yields_rules) (auto simp: yields_def dest!: node_core)

lemmas raft_offer_log_core = yieldsD [OF _ raft_offer_log_yields]

lemma raft_pop_log_yields: "yields (\<lambda>me'. core me' = core me) (raft_pop_log ety i me)"
  by (unfold raft_pop_log_def, intro yields_rules) (auto simp: yields_def dest!: node_core)

lemmas raft_pop_log_core = yieldsD [OF _ raft_pop_log_yields]

interpretation sh: hooks_frame core "srv_hooks cb" for cb :: "'u raft_cbs_t"
  by unfold_locales
    (auto simp: srv_hooks_def raft_offer_log_core raft_pop_log_core raft_alloc_core with_udata_core
      split: prod.splits)

lemma raft_send_requestvote_yields: "yields (\<lambda>r. core (snd r) = core me) (raft_send_requestvote p me)"
  by (unfold raft_send_requestvote_def, intro yields_rules) (auto simp: yields_def)

lemmas raft_send_requestvote_core = yieldsD [OF _ raft_send_requestvote_yields]

lemma call_send_snapshot_core [simp]: "core (call_send_snapshot p me) = core me"
  by (simp add: call_send_snapshot_def split: option.split)

lemma raft_send_appendentries_yields: "yields (\<lambda>r. core (snd r) = core me) (raft_send_appendentries p me)"
  by (unfold raft_send_appendentries_def, intro yields_rules) (auto simp: yields_def)

lemmas raft_send_appendentries_core = yieldsD [OF _ raft_send_appendentries_yields]

lemma send_appendentries_loop_yields: "yields (\<lambda>r. core (snd r) = core me) (send_appendentries_loop ps me)"
proof (induction ps arbitrary: me)
  case (Cons p ps)
  show ?case
    by (unfold send_appendentries_loop.simps, intro yields_rules)
      (auto dest!: raft_send_appendentries_core intro: yields_mono [OF Cons])
qed (simp add: yields_Some)

lemmas send_appendentries_loop_core = yieldsD [OF _ send_appendentries_loop_yields]

lemma raft_send_appendentries_all_core: "raft_send_appendentries_all me = Some r \<Longrightarrow> core (snd r) = core me"
  by (auto simp: raft_send_appendentries_all_def dest!: send_appendentries_loop_core)

lemma for_nodes_keep:
  assumes "\<And>p s. yields (\<lambda>s'. keep s' = keep s) (f p s)"
  shows "yields (\<lambda>s'. keep s' = keep s) (for_nodes f ps s)"
proof (induction ps arbitrary: s)
  case (Cons p ps)
  show ?case
  proof (unfold for_nodes.simps, intro yields_bind)
    fix t
    assume "f p s = Some t"
    then have "keep t = keep s"
      using yieldsD [OF _ assms] by blast
    then show "yields (\<lambda>s'. keep s' = keep s) (for_nodes f ps t)"
      using Cons [of t] by simp
  qed
qed (simp add: yields_Some)

lemma upd_node_yields: "yields (\<lambda>me'. core me' = core me) (upd_node p g me)"
  by (simp add: yields_def upd_node_core)

lemma leader_init_node_yields: "yields (\<lambda>me'. core me' = core me) (leader_init_node p me)"
  by (unfold leader_init_node_def, intro yields_rules) (auto simp: yields_def dest!: upd_node_core raft_send_appendentries_core)

lemmas leader_init_node_core = yieldsD [OF _ leader_init_node_yields]

lemma candidate_ask_node_yields: "yields (\<lambda>me'. core me' = core me) (candidate_ask_node p me)"
  by (unfold candidate_ask_node_def, intro yields_rules) (auto simp: yields_def dest!: raft_send_requestvote_core)

lemmas candidate_ask_node_core = yieldsD [OF _ candidate_ask_node_yields]

lemma entry_send_node_yields: "yields (\<lambda>me'. core me' = core me) (entry_send_node p me)"
  by (unfold entry_send_node_def, intro yields_rules) (auto simp: yields_def dest!: raft_send_appendentries_core)

lemmas entry_send_node_core = yieldsD [OF _ entry_send_node_yields]

lemma snapshot_send_node_yields: "yields (\<lambda>me'. core me' = core me) (snapshot_send_node p me)"
  by (unfold snapshot_send_node_def, intro yields_rules) (auto simp: yields_def)

lemmas snapshot_send_node_core = yieldsD [OF _ snapshot_send_node_yields]

lemma commit_node_yields: "yields (\<lambda>me'. core me' = core me) (commit_node p me)"
  by (unfold commit_node_def, intro yields_rules) (auto simp: yields_def dest!: upd_node_core)

lemmas commit_node_core = yieldsD [OF _ commit_node_yields]

lemma check_sufficient_logs_yields: "yields (\<lambda>me'. core me' = core me) (check_sufficient_logs p i me)"
  by (unfold check_sufficient_logs_def, intro yields_rules) (auto simp: yields_def dest!: upd_node_core)

lemmas check_sufficient_logs_core = yieldsD [OF _ check_sufficient_logs_yields]

lemma load_nodes_yields: "yields (\<lambda>r. core (snd r) = core me) (load_nodes i k ps me)"
proof (induction ps arbitrary: i k me)
  case (Cons p ps)
  show ?case
    by (unfold load_nodes.simps, intro yields_rules) (auto dest!: upd_node_core intro: yields_mono [OF Cons])
qed (simp add: yields_Some)

lemmas load_nodes_core = yieldsD [OF _ load_nodes_yields]

lemma raft_randomize_core: "raft_randomize_election_timeout me = Some me' \<Longrightarrow> core me' = core me"
  by (auto simp: raft_randomize_election_timeout_def bind_eq_Some_conv Let_def)

lemmas for_nodes_core =
  yieldsD [OF _ for_nodes_keep [OF leader_init_node_yields]]
  yieldsD [OF _ for_nodes_keep [OF candidate_ask_node_yields]]
  yieldsD [OF _ for_nodes_keep [OF entry_send_node_yields]]
  yieldsD [OF _ for_nodes_keep [OF snapshot_send_node_yields]]
  yieldsD [OF _ for_nodes_keep [OF commit_node_yields]]
  yieldsD [OF _ for_nodes_keep [OF upd_node_yields]]

subsection \<open>Roles\<close>

lemma raft_set_state_core [simp]: "core (raft_set_state st me) = core (me\<lparr>rs_state := st\<rparr>)"
  by (simp add: raft_set_state_def core_def Let_def)

lemma raft_become_leader_core:
  assumes "raft_become_leader me = Some me'"
  shows "core me' = core (me\<lparr>rs_state := RAFT_STATE_LEADER\<rparr>)"
  using for_nodes_core(1) [OF assms [unfolded raft_become_leader_def Let_def]] by simp

lemma raft_become_follower_core:
  assumes "raft_become_follower me = Some me'"
  shows "core me' = core (me\<lparr>rs_state := RAFT_STATE_FOLLOWER\<rparr>)"
  using assms by (auto simp: raft_become_follower_def bind_eq_Some_conv dest!: raft_randomize_core)

section \<open>The invariant of a server\<close>

text \<open>The indices of a server are ordered: everything up to the base of the log is compacted,
  everything up to the snapshot and to \<^verbatim>\<open>last_applied_idx\<close> is applied, what is applied is
  committed, and what is committed is in the log.\<close>

definition srv_inv :: "'u raft_server \<Rightarrow> bool" where
  "srv_inv me \<longleftrightarrow> log_inv (rs_log me) \<and>
     lg_base (rs_log me) \<le> rs_last_applied_idx me \<and>
     rs_last_applied_idx me \<le> rs_commit_idx me \<and>
     rs_commit_idx me \<le> raft_get_current_idx me \<and>
     rs_snapshot_last_idx me \<le> rs_last_applied_idx me \<and>
     rs_saved_snapshot_last_idx me \<le> rs_last_applied_idx me"

text \<open>What one server promises from one state to a later one: terms never go back, a vote stands
  for the rest of its term, indices never go back, and a committed entry that has not been
  compacted is still there.\<close>

definition evolves :: "'u raft_server \<Rightarrow> 'u raft_server \<Rightarrow> bool" where
  "evolves me me' \<longleftrightarrow>
     rs_current_term me \<le> rs_current_term me' \<and>
     (rs_current_term me' = rs_current_term me \<longrightarrow> rs_voted_for me \<noteq> - 1 \<longrightarrow> rs_voted_for me' = rs_voted_for me) \<and>
     rs_commit_idx me \<le> rs_commit_idx me' \<and> rs_last_applied_idx me \<le> rs_last_applied_idx me' \<and>
     lg_base (rs_log me) \<le> lg_base (rs_log me') \<and>
     (\<forall>i. lg_base (rs_log me') < i \<longrightarrow> i \<le> rs_commit_idx me \<longrightarrow>
        raft_get_entry_from_idx i me' = raft_get_entry_from_idx i me)"

definition good :: "'u raft_server \<Rightarrow> 'u raft_server \<Rightarrow> bool" where
  "good me me' \<longleftrightarrow> srv_inv me' \<and> evolves me me'"

lemma evolves_refl [simp]: "evolves me me"
  by (simp add: evolves_def)

lemma evolves_trans [trans]:
  assumes "evolves a b" "evolves b c"
  shows "evolves a c"
proof -
  have "raft_get_entry_from_idx i c = raft_get_entry_from_idx i a"
    if "lg_base (rs_log c) < i" "i \<le> rs_commit_idx a" for i
  proof -
    have "lg_base (rs_log b) < i" "i \<le> rs_commit_idx b"
      using assms that unfolding evolves_def by linarith+
    then show ?thesis
      using assms that unfolding evolves_def by metis
  qed
  moreover have "rs_voted_for c = rs_voted_for a"
    if "rs_current_term c = rs_current_term a" "rs_voted_for a \<noteq> - 1"
  proof -
    have "rs_current_term b = rs_current_term a"
      using assms that unfolding evolves_def by linarith
    then show ?thesis
      using assms that unfolding evolves_def by metis
  qed
  ultimately show ?thesis
    using assms unfolding evolves_def by auto
qed

lemma good_trans [trans]: "good a b \<Longrightarrow> good b c \<Longrightarrow> good a c"
  unfolding good_def using evolves_trans by blast

lemma good_inv: "good a b \<Longrightarrow> srv_inv b"
  by (simp add: good_def)

lemma good_refl: "srv_inv me \<Longrightarrow> good me me"
  by (simp add: good_def)

lemma srv_inv_core: "core a = core b \<Longrightarrow> srv_inv a = srv_inv b"
  by (simp add: srv_inv_def core_def raft_get_current_idx_def)

lemma evolves_core: "core a = core b \<Longrightarrow> evolves m a = evolves m b"
  by (simp add: evolves_def core_def raft_get_entry_from_idx_def)

lemma good_core: "core a = core b \<Longrightarrow> good m a = good m b"
  using srv_inv_core evolves_core unfolding good_def by blast

lemma good_core_refl: "core me' = core me \<Longrightarrow> srv_inv me \<Longrightarrow> good me me'"
  using good_core good_refl by blast

lemma good_state: "srv_inv me \<Longrightarrow> good me (me\<lparr>rs_state := st\<rparr>)"
  by (simp add: good_def srv_inv_def evolves_def raft_get_current_idx_def raft_get_entry_from_idx_def)

lemma become_follower_good: "srv_inv me \<Longrightarrow> raft_become_follower me = Some me' \<Longrightarrow> good me me'"
  using good_state good_core raft_become_follower_core by blast

lemma become_leader_good: "srv_inv me \<Longrightarrow> raft_become_leader me = Some me' \<Longrightarrow> good me me'"
  using good_state good_core raft_become_leader_core by blast

subsection \<open>Terms, votes and the commit index\<close>

lemma raft_set_current_term_good:
  assumes "srv_inv me" "raft_set_current_term t me = (e, me')"
  shows "good me me'"
  using assms
  by (auto simp: raft_set_current_term_def good_def srv_inv_def evolves_def raft_get_current_idx_def
      raft_get_entry_from_idx_def Let_def split: if_splits prod.splits)

lemma raft_set_current_term_eq:
  assumes "raft_set_current_term t me = (0, me')"
  shows "rs_current_term me' = max (rs_current_term me) t"
    "rs_current_term me < t \<Longrightarrow> rs_voted_for me' = - 1"
    "rs_log me' = rs_log me" "rs_state me' = rs_state me" "rs_commit_idx me' = rs_commit_idx me"
  using assms by (auto simp: raft_set_current_term_def Let_def split: if_splits prod.splits)

lemma raft_vote_for_nodeid_good:
  assumes "srv_inv me" "rs_voted_for me = - 1" "raft_vote_for_nodeid n me = (e, me')"
  shows "good me me'"
  using assms
  by (auto simp: raft_vote_for_nodeid_def good_def srv_inv_def evolves_def raft_get_current_idx_def
      raft_get_entry_from_idx_def Let_def split: if_splits prod.splits)

lemma raft_set_commit_idx_good:
  assumes "srv_inv me" "raft_set_commit_idx i me = Some me'"
  shows "good me me'"
  using assms
  by (auto simp: raft_set_commit_idx_def good_def srv_inv_def evolves_def raft_get_current_idx_def
      raft_get_entry_from_idx_def bind_eq_Some_conv)

lemma raft_apply_entry_good:
  assumes "srv_inv me" "raft_apply_entry me = Some (e, me')"
  shows "good me me'"
proof -
  let ?n = "me\<lparr>rs_last_applied_idx := rs_last_applied_idx me + 1\<rparr>"
  consider "core me' = core me" | "core me' = core ?n" "rs_last_applied_idx me \<noteq> rs_commit_idx me"
    using raft_apply_entry_core [OF assms(2)] by auto
  then show ?thesis
  proof cases
    case 1
    then show ?thesis
      using assms(1) good_core_refl by blast
  next
    case 2
    have "good me ?n"
      using assms(1) 2(2)
      by (simp add: good_def srv_inv_def evolves_def raft_get_current_idx_def raft_get_entry_from_idx_def)
    then show ?thesis
      using good_core [OF 2(1)] by simp
  qed
qed

lemma apply_all_loop_good: "srv_inv me \<Longrightarrow> apply_all_loop me = Some (e, me') \<Longrightarrow> good me me'"
proof (induction me rule: apply_all_loop.induct)
  case (1 me)
  show ?case
  proof (cases "rs_last_applied_idx me < rs_commit_idx me")
    case True
    then obtain e1 me1 where a: "raft_apply_entry me = Some (e1, me1)"
      using 1(3) by (auto simp: apply_all_loop.simps [of me] split: option.splits)
    have g: "good me me1"
      using raft_apply_entry_good [OF 1(2) a] .
    show ?thesis
    proof (cases "e1 = 0")
      case e: True
      then have "apply_all_loop me1 = Some (e, me')"
        using 1(3) True a by (simp add: apply_all_loop.simps [of me])
      then show ?thesis
        using 1(1) [OF True a refl] e g good_inv [OF g] good_trans by blast
    qed (use 1(3) True a g in \<open>simp add: apply_all_loop.simps [of me]\<close>)
  qed (use 1(2,3) in \<open>simp add: apply_all_loop.simps [of me] good_refl\<close>)
qed

lemma raft_apply_all_good: "srv_inv me \<Longrightarrow> raft_apply_all me = Some (e, me') \<Longrightarrow> good me me'"
  by (auto simp: raft_apply_all_def good_refl apply_all_loop_good split: if_splits)

subsection \<open>The log of a server\<close>

lemma raft_append_entry_core:
  assumes "raft_append_entry ety me = Some (e, me')"
  shows "core me' = core (me\<lparr>rs_log := rs_log me'\<rparr>)"
    "\<exists>s s'. log_append_entry (srv_hooks (rs_cb me)) ety (rs_log me) s = Some (e, rs_log me', s')"
proof -
  define m where "m = (if raft_entry_is_voting_cfg_change ety
    then me\<lparr>rs_voting_cfg_change_log_idx := raft_get_current_idx me\<rparr> else me)"
  have m: "core m = core me" "rs_log m = rs_log me" "rs_cb m = rs_cb me"
    by (simp_all add: m_def)
  obtain lg s' where a: "log_append_entry (srv_hooks (rs_cb m)) ety (rs_log m) m = Some (e, lg, s')"
      and me': "me' = s'\<lparr>rs_log := lg\<rparr>"
    using assms by (auto simp: raft_append_entry_def Let_def bind_eq_Some_conv simp flip: m_def)
  have "core s' = core me"
    using sh.append_keep [OF a] m by simp
  then show "core me' = core (me\<lparr>rs_log := rs_log me'\<rparr>)"
    by (simp add: me' core_def)
  show "\<exists>s s'. log_append_entry (srv_hooks (rs_cb me)) ety (rs_log me) s = Some (e, rs_log me', s')"
    using a m by (auto simp: me')
qed

lemma raft_append_entry_spec:
  fixes me :: "'u raft_server"
  assumes "srv_inv me" "raft_append_entry ety me = Some (e, me')"
  shows "good me me'" "raft_get_current_idx me' = raft_get_current_idx me + (if e = 0 then 1 else 0)"
    "i \<le> raft_get_current_idx me \<Longrightarrow> raft_get_entry_from_idx i me' = raft_get_entry_from_idx i me"
    "lg_base (rs_log me') = lg_base (rs_log me)"
    "e = 0 \<Longrightarrow> \<exists>x u. raft_get_entry_from_idx (raft_get_current_idx me + 1) me' = Some x \<and>
      (case cb_log_offer (rs_cb me) of None \<Rightarrow> x = ety
       | Some f \<Rightarrow> fst (f ety (raft_get_current_idx me + 1) u) = 0 \<and>
           fst (snd (f ety (raft_get_current_idx me + 1) u)) = x)"
proof -
  have c: "core me' = core (me\<lparr>rs_log := rs_log me'\<rparr>)"
    using raft_append_entry_core(1) [OF assms(2)] .
  obtain s s' where a: "log_append_entry (srv_hooks (rs_cb me)) ety (rs_log me) s = Some (e, rs_log me', s')"
    using raft_append_entry_core(2) [OF assms(2)] by blast
  have li: "log_inv (rs_log me)"
    using assms(1) by (simp add: srv_inv_def)
  note spec = log_append_entry_spec [OF li a]
  have cur: "raft_get_current_idx me = lg_base (rs_log me) + lg_count (rs_log me)"
    by (simp add: raft_get_current_idx_def log_get_current_idx_def)
  show base: "lg_base (rs_log me') = lg_base (rs_log me)"
    using spec by simp
  have main: "raft_get_current_idx me' = raft_get_current_idx me + (if e = 0 then 1 else 0) \<and>
     (\<forall>i \<le> raft_get_current_idx me. raft_get_entry_from_idx i me' = raft_get_entry_from_idx i me)"
  proof (cases "e = 0")
    case True
    then obtain x where "log_list (rs_log me') = log_list (rs_log me) @ [x]"
      using spec by blast
    then show ?thesis
      using True spec rl.lookup_append [OF li, of "rs_log me'" x]
      by (simp add: raft_get_current_idx_def raft_get_entry_from_idx_def)
  next
    case False
    then show ?thesis
      using spec li by (simp add: raft_get_current_idx_def raft_get_entry_from_idx_def rl.lookup_law rl.last_idx_law)
  qed
  then show "raft_get_current_idx me' = raft_get_current_idx me + (if e = 0 then 1 else 0)"
    "i \<le> raft_get_current_idx me \<Longrightarrow> raft_get_entry_from_idx i me' = raft_get_entry_from_idx i me"
    by auto
  show "good me me'"
    using main base spec assms(1) coreD [OF c]
    by (auto simp: good_def srv_inv_def evolves_def split: if_splits)
  show "\<exists>x u. raft_get_entry_from_idx (raft_get_current_idx me + 1) me' = Some x \<and>
      (case cb_log_offer (rs_cb me) of None \<Rightarrow> x = ety
       | Some f \<Rightarrow> fst (f ety (raft_get_current_idx me + 1) u) = 0 \<and>
           fst (snd (f ety (raft_get_current_idx me + 1) u)) = x)" if z: "e = 0"
  proof -
    obtain x where x: "log_list (rs_log me') = log_list (rs_log me) @ [x]"
      "case lh_offer (srv_hooks (rs_cb me)) of None \<Rightarrow> x = ety
        | Some f \<Rightarrow> \<exists>s1 s2. f ety (raft_get_current_idx me + 1) s1 = (0, x, s2) \<and>
            lh_raft_offer (srv_hooks (rs_cb me)) x (raft_get_current_idx me + 1) s2 = Some s'"
      using spec z unfolding cur by blast
    have at: "raft_get_entry_from_idx (raft_get_current_idx me + 1) me' = Some x"
      using rl.lookup_append [OF li, of "rs_log me'" x] spec x(1)
      by (simp add: raft_get_current_idx_def raft_get_entry_from_idx_def)
    show ?thesis
    proof (cases "cb_log_offer (rs_cb me)")
      case None
      then show ?thesis
        using at x(2) by (simp add: srv_hooks_def)
    next
      case (Some f)
      then obtain s1 s2 :: "'u raft_server" where "(case f ety (raft_get_current_idx me + 1) (rs_udata s1) of
          (e, ety', u) \<Rightarrow> (e, ety', s1\<lparr>rs_udata := u\<rparr>)) = (0, x, s2)"
        using x(2) by (auto simp: srv_hooks_def Let_def)
      then have "fst (f ety (raft_get_current_idx me + 1) (rs_udata s1)) = 0 \<and>
          fst (snd (f ety (raft_get_current_idx me + 1) (rs_udata s1))) = x"
        by (simp split: prod.splits)
      then show ?thesis
        using at Some by auto
    qed
  qed
qed

lemma raft_delete_entry_core:
  assumes "raft_delete_entry_from_idx idx me = Some (e, me')"
  shows "core me' = core (me\<lparr>rs_log := rs_log me'\<rparr>)" "rs_commit_idx me < idx"
    "\<exists>s s'. log_delete (srv_hooks (rs_cb me)) idx (rs_log me) s = Some (e, rs_log me', s')"
proof -
  define m where "m = (if idx \<le> rs_voting_cfg_change_log_idx me
    then me\<lparr>rs_voting_cfg_change_log_idx := - 1\<rparr> else me)"
  have m: "core m = core me" "rs_log m = rs_log me" "rs_cb m = rs_cb me"
    by (simp_all add: m_def)
  obtain lg s' where a: "log_delete (srv_hooks (rs_cb m)) idx (rs_log m) m = Some (e, lg, s')"
      and me': "me' = s'\<lparr>rs_log := lg\<rparr>" and "rs_commit_idx me < idx"
    using assms by (auto simp: raft_delete_entry_from_idx_def Let_def bind_eq_Some_conv simp flip: m_def)
  then show "rs_commit_idx me < idx"
    by simp
  have "core s' = core me"
    using sh.delete_keep [OF a] m by simp
  then show "core me' = core (me\<lparr>rs_log := rs_log me'\<rparr>)"
    by (simp add: me' core_def)
  show "\<exists>s s'. log_delete (srv_hooks (rs_cb me)) idx (rs_log me) s = Some (e, rs_log me', s')"
    using a m by (auto simp: me')
qed

lemma log_take_lookup:
  assumes "log_inv l" "log_inv l'" "lg_base l' = lg_base l" "log_list l' = take k (log_list l)"
    "nat (idx - 1 - lg_base l) \<le> k" "lg_base l < idx" "i < idx"
  shows "log_get_at_idx i l' = log_get_at_idx i l" "min (idx - 1) (log_get_current_idx l) \<le> log_get_current_idx l'"
proof -
  have len: "length (log_list l') = min (length (log_list l)) k"
    using assms(4) by (simp only: length_take)
  have "i \<le> lg_base l + int (length (log_list l)) \<longleftrightarrow> i \<le> lg_base l' + int (length (log_list l'))"
    unfolding len assms(3) using assms(5,6,7) by linarith
  moreover have "lg_base l < i \<Longrightarrow> log_list l' ! nat (i - 1 - lg_base l) = log_list l ! nat (i - 1 - lg_base l)"
    using assms(5,7) unfolding assms(4) by (intro nth_take) linarith
  ultimately show "log_get_at_idx i l' = log_get_at_idx i l"
    using assms(3) unfolding rl.lookup_law [OF assms(1)] rl.lookup_law [OF assms(2)] by simp
  show "min (idx - 1) (log_get_current_idx l) \<le> log_get_current_idx l'"
    unfolding rl.last_idx_law [OF assms(1)] rl.last_idx_law [OF assms(2)] len assms(3)
    using assms(5,6) by linarith
qed

lemma raft_delete_entry_spec:
  assumes "srv_inv me" "lg_size (rs_log me) \<le> 2147483647" "raft_delete_entry_from_idx idx me = Some (e, me')"
  shows "good me me'" "i < idx \<Longrightarrow> raft_get_entry_from_idx i me' = raft_get_entry_from_idx i me"
    "lg_base (rs_log me') = lg_base (rs_log me)"
    "e = 0 \<Longrightarrow> idx \<le> raft_get_current_idx me + 1 \<Longrightarrow> raft_get_current_idx me' = idx - 1"
proof -
  have c: "core me' = core (me\<lparr>rs_log := rs_log me'\<rparr>)" and ci: "rs_commit_idx me < idx"
    using raft_delete_entry_core [OF assms(3)] by auto
  obtain s s' where d: "log_delete (srv_hooks (rs_cb me)) idx (rs_log me) s = Some (e, rs_log me', s')"
    using raft_delete_entry_core(3) [OF assms(3)] by blast
  have li: "log_inv (rs_log me)" and bi: "lg_base (rs_log me) < idx" "idx \<noteq> 0"
    using assms(1) ci by (auto simp: srv_inv_def log_inv_def)
  then have "log_delete_loop (srv_hooks (rs_cb me)) idx (rs_log me) s = Some (e, rs_log me', s')"
    using d by (simp add: log_delete_def)
  note spec = log_delete_loop_spec [OF li assms(2) this]
  then obtain k where k: "log_list (rs_log me') = take k (log_list (rs_log me))"
      "nat (idx - 1 - lg_base (rs_log me)) \<le> k"
    by blast
  show base: "lg_base (rs_log me') = lg_base (rs_log me)"
    using spec by simp
  have same: "raft_get_entry_from_idx i me' = raft_get_entry_from_idx i me" if "i < idx" for i
    using log_take_lookup(1) [OF li _ base k bi(1) that] spec by (simp add: raft_get_entry_from_idx_def)
  then show "i < idx \<Longrightarrow> raft_get_entry_from_idx i me' = raft_get_entry_from_idx i me" .
  have "min (idx - 1) (raft_get_current_idx me) \<le> raft_get_current_idx me'"
    using log_take_lookup(2) [OF li _ base k bi(1), of "idx - 1"] spec by (simp add: raft_get_current_idx_def)
  then have "rs_commit_idx me \<le> raft_get_current_idx me'"
    using ci assms(1) unfolding srv_inv_def by linarith
  then show "good me me'"
    using same ci base spec assms(1) coreD [OF c] by (auto simp: good_def srv_inv_def evolves_def)
  show "raft_get_current_idx me' = idx - 1" if "e = 0" "idx \<le> raft_get_current_idx me + 1"
    using rl.lookup_truncate(2) [OF li _ base bi(1)] that spec by (simp add: raft_get_current_idx_def)
qed

lemma raft_poll_entry_spec:
  assumes "srv_inv me" "lg_base (rs_log me) < rs_last_applied_idx me" "raft_poll_entry me = Some (e, x, me')"
  shows "good me me'" "lg_base (rs_log me') = lg_base (rs_log me) + (if e = 0 then 1 else 0)"
    "raft_get_current_idx me' = raft_get_current_idx me"
    "core me' = core (me\<lparr>rs_log := rs_log me'\<rparr>)"
proof -
  obtain lg s' where p: "log_poll (srv_hooks (rs_cb me)) (rs_log me) me = (e, x, lg, s')" and me': "me' = s'\<lparr>rs_log := lg\<rparr>"
    using assms(3) by (auto simp: raft_poll_entry_def bind_eq_Some_conv split: prod.splits if_splits)
  have li: "log_inv (rs_log me)"
    using assms(1) by (simp add: srv_inv_def)
  have "core s' = core me"
    using sh.poll_entry_keep [OF p] .
  then show c: "core me' = core (me\<lparr>rs_log := rs_log me'\<rparr>)"
    by (simp add: me' core_def)
  note spec = log_poll_spec [OF li p]
  show base: "lg_base (rs_log me') = lg_base (rs_log me) + (if e = 0 then 1 else 0)"
    using spec by (simp add: me' split: if_splits)
  have len: "int (length (log_list lg)) = int (length (log_list (rs_log me))) - (if e = 0 then 1 else 0)"
    using spec by (cases "log_list (rs_log me)") (auto simp del: length_log_list split: if_splits)
  have lg: "lg = rs_log me'" "log_inv lg"
    using spec by (simp_all add: me')
  show cur: "raft_get_current_idx me' = raft_get_current_idx me"
    unfolding raft_get_current_idx_def lg(1) [symmetric] rl.last_idx_law [OF li] rl.last_idx_law [OF lg(2)]
    using len base lg(1) by (simp del: length_log_list)
  have "raft_get_entry_from_idx i me' = raft_get_entry_from_idx i me" if "lg_base lg < i" for i
  proof (cases "e = 0")
    case True
    have l: "log_list (rs_log me) = hd (log_list (rs_log me)) # log_list lg" "lg_base lg = lg_base (rs_log me) + 1"
      using spec True by auto
    have "nat (i - 1 - lg_base (rs_log me)) = Suc (nat (i - 1 - lg_base lg))"
      using that l(2) by linarith
    then have "log_list (rs_log me) ! nat (i - 1 - lg_base (rs_log me)) = log_list lg ! nat (i - 1 - lg_base lg)"
      by (subst l(1)) simp
    then show ?thesis
      using that l(2) len True unfolding raft_get_entry_from_idx_def lg(1) [symmetric]
        rl.lookup_law [OF li] rl.lookup_law [OF lg(2)] by (auto simp del: length_log_list)
  next
    case False
    then show ?thesis
      using spec unfolding raft_get_entry_from_idx_def lg(1) [symmetric]
        rl.lookup_law [OF li] rl.lookup_law [OF lg(2)] by (auto simp del: length_log_list)
  qed
  then show "good me me'"
    using base cur lg assms(1,2) coreD [OF c] by (auto simp: good_def srv_inv_def evolves_def)
qed

lemma poll_entries_spec:
  assumes "srv_inv me" "lg_base (rs_log me) + int n \<le> rs_last_applied_idx me" "poll_entries n me = Some (e, me')"
  shows "good me me' \<and> core me' = core (me\<lparr>rs_log := rs_log me'\<rparr>) \<and>
    (e = 0 \<longrightarrow> lg_base (rs_log me') = lg_base (rs_log me) + int n)"
  using assms
proof (induction n arbitrary: me)
  case 0
  then show ?case
    by (simp add: good_refl core_def)
next
  case (Suc n)
  obtain e1 x me1 where p: "raft_poll_entry me = Some (e1, x, me1)"
    and r: "if e1 \<noteq> 0 then (e, me') = (- 1, me1) else poll_entries n me1 = Some (e, me')"
    using Suc.prems(3) by (auto simp: bind_eq_Some_conv split: if_splits)
  have b: "lg_base (rs_log me) < rs_last_applied_idx me"
    using Suc.prems(2) by simp
  note spec = raft_poll_entry_spec [OF Suc.prems(1) b p]
  show ?case
  proof (cases "e1 = 0")
    case True
    have "good me1 me' \<and> core me' = core (me1\<lparr>rs_log := rs_log me'\<rparr>) \<and>
        (e = 0 \<longrightarrow> lg_base (rs_log me') = lg_base (rs_log me1) + int n)"
      using Suc.IH [OF good_inv [OF spec(1)]] Suc.prems(2) spec(2) coreD(5) [OF spec(4)] True r by simp
    then show ?thesis
      using spec True good_trans [OF spec(1)] by (auto simp: core_def)
  next
    case False
    then show ?thesis
      using r spec by simp
  qed
qed

end
