(* ===== verification/Raft_Handlers.thy ===== *)
theory Raft_Handlers
  imports Raft_Inv
begin

section \<open>Every handler keeps the promises of a server\<close>

text \<open>
  One lemma per entry point of the server: the timer, the four message handlers, the client
  request, membership calls and snapshots. Each shows that the invariant is kept and that the
  server \<open>evolves\<close>. Handlers that may truncate the log need the ring to have at most
  \<^verbatim>\<open>INT_MAX\<close> slots, because \<^verbatim>\<open>mod\<close> of raft_log.c computes with \<^verbatim>\<open>int\<close>.
\<close>

lemma good_upd [simp]:
  "good m (me\<lparr>rs_udata := a\<rparr>) = good m me" "good m (me\<lparr>rs_nodes := c\<rparr>) = good m me"
  "good m (me\<lparr>rs_current_leader := d\<rparr>) = good m me" "good m (me\<lparr>rs_timeout_elapsed := i\<rparr>) = good m me"
  "good m (me\<lparr>rs_voting_cfg_change_log_idx := i\<rparr>) = good m me"
  by (rule good_core, simp)+

lemma srv_inv_upd [simp]:
  "srv_inv (me\<lparr>rs_udata := a\<rparr>) = srv_inv me" "srv_inv (me\<lparr>rs_nodes := c\<rparr>) = srv_inv me"
  "srv_inv (me\<lparr>rs_current_leader := d\<rparr>) = srv_inv me" "srv_inv (me\<lparr>rs_timeout_elapsed := i\<rparr>) = srv_inv me"
  "srv_inv (me\<lparr>rs_voting_cfg_change_log_idx := i\<rparr>) = srv_inv me"
  by (rule srv_inv_core, simp)+

lemma good_stepI: "good m a \<Longrightarrow> core b = core a \<Longrightarrow> good m b"
  using good_core by blast

lemma good_nextI: "good m a \<Longrightarrow> (srv_inv a \<Longrightarrow> good a b) \<Longrightarrow> good m b"
  using good_trans good_inv by blast

subsection \<open>Elections\<close>

lemma raft_vote_good:
  assumes "srv_inv me" "rs_voted_for me = - 1" "raft_vote n me = Some (e, me')"
  shows "good me me'"
  using assms by (auto simp: raft_vote_def bind_eq_Some_conv split: option.splits dest!: raft_vote_for_nodeid_good)

lemma raft_become_candidate_good:
  assumes "srv_inv me"
  shows "yields (\<lambda>r. good me (snd r)) (raft_become_candidate me)"
proof (unfold raft_become_candidate_def, intro yields_rules, goal_cases)
  case (1 e m1)
  then show ?case
    using raft_set_current_term_good [OF assms] by simp
next
  case (2 e m1 m2 r e2 m3 m4 m5 m6 m7)
  have "good me m1" "rs_voted_for m1 = - 1"
    using raft_set_current_term_good [OF assms 2(1)] raft_set_current_term_eq(2) [of "rs_current_term me + 1" me m1] 2(1,2) by auto
  then have "good me m2" "rs_voted_for m2 = - 1"
    using for_nodes_core(6) [OF 2(3)] good_stepI coreD(2) by metis+
  then have "good me m3"
    using raft_vote_good [of m2 "rs_node m2" e2 m3] 2(4,5) good_nextI by blast
  then have "good me (m3\<lparr>rs_state := RAFT_STATE_CANDIDATE\<rparr>)"
    using good_nextI good_state by blast
  moreover have "core m4 = core (m3\<lparr>rs_state := RAFT_STATE_CANDIDATE\<rparr>)"
    using 2(6) by (auto simp: raft_set_state_def core_def Let_def)
  moreover have "core m7 = core m4"
    using raft_randomize_core [OF 2(7)] 2(8) for_nodes_core(2) [OF 2(9)] by auto
  ultimately show ?case
    using good_stepI by fastforce
qed

lemma set_term_follow_good:
  assumes "srv_inv me" "raft_set_current_term t me = (e, m1)" "raft_become_follower m1 = Some m2"
  shows "good me m2"
  using raft_set_current_term_good [OF assms(1,2)] become_follower_good [OF _ assms(3)] good_nextI by blast

lemma requestvote_decide_good:
  assumes "srv_inv me"
  shows "yields (\<lambda>r. good me (snd (snd r))) (requestvote_decide node vr me)"
proof (unfold requestvote_decide_def, intro yields_rules, goal_cases)
  case (1 grant _ r e m1)
  have "rs_voted_for me = - 1"
    using 1(1,2) by (auto simp: should_grant_vote_def bind_eq_Some_conv raft_already_voted_def split: if_splits)
  then show ?case
    using raft_vote_for_nodeid_good [OF assms] 1(4,5) by simp
next
  case (2 grant)
  then show ?case
    using good_refl [OF assms] by simp
qed

lemma requestvote_handle_good:
  assumes "srv_inv me"
  shows "yields (\<lambda>r. good me (snd (snd r))) (requestvote_handle node vr me)"
proof (unfold requestvote_handle_def, intro yields_rules, goal_cases)
  case 1
  then show ?case
    using good_refl [OF assms] by simp
next
  case (2 e m1)
  then show ?case
    using raft_set_current_term_good [OF assms] by simp
next
  case (3 e m1 m2)
  have g: "good me (m2\<lparr>rs_current_leader := None\<rparr>)"
    using set_term_follow_good [OF assms 3(3,5)] by simp
  show ?case
    using requestvote_decide_good [OF good_inv [OF g]] by (rule yields_mono) (rule good_trans [OF g])
next
  case 4
  show ?case
    using requestvote_decide_good [OF assms] .
qed

lemma raft_recv_requestvote_good:
  assumes "srv_inv me"
  shows "yields (\<lambda>r. good me (snd (snd r))) (raft_recv_requestvote node vr me)"
  by (unfold raft_recv_requestvote_def, intro yields_rules)
    (auto dest!: yieldsD [OF _ requestvote_handle_good [OF assms]])

lemma raft_recv_requestvote_response_good:
  assumes "srv_inv me"
  shows "yields (\<lambda>r. good me (snd r)) (raft_recv_requestvote_response node r me)"
proof (unfold raft_recv_requestvote_response_def, intro yields_rules, goal_cases)
  case (2 e m1)
  then show ?case
    using raft_set_current_term_good [OF assms] by simp
next
  case (3 e m1 m2)
  then show ?case
    using set_term_follow_good [OF assms] by simp
next
  case (5 m1 votes nvoting m2)
  have "core m1 = core me"
    using 5(5) by (auto split: option.splits dest: upd_node_core)
  then have "good me m1"
    using good_core_refl [OF _ assms] by simp
  then show ?case
    using good_nextI [OF _ become_leader_good [OF _ 5(9)]] by simp
next
  case (6 m1 votes nvoting)
  have "core m1 = core me"
    using 6(5) by (auto split: option.splits dest: upd_node_core)
  then show ?case
    using good_core_refl [OF _ assms] by simp
qed (simp_all add: good_refl [OF assms])

subsection \<open>Replication\<close>

lemma update_commit_idx_good:
  assumes "srv_inv me"
  shows "yields (good me) (update_commit_idx point me)"
  by (unfold update_commit_idx_def, intro yields_rules)
    (auto simp: good_refl [OF assms] yields_def raft_set_commit_idx_good [OF assms])

lemma raft_recv_appendentries_response_good:
  assumes "srv_inv me"
  shows "yields (\<lambda>r. good me (snd r)) (raft_recv_appendentries_response node r me)"
proof (unfold raft_recv_appendentries_response_def, intro yields_rules, goal_cases)
  case (3 p e m1)
  then show ?case
    using raft_set_current_term_good [OF assms] by simp
next
  case (4 p e m1 m2)
  then show ?case
    using set_term_follow_good [OF assms] by simp
next
  case (7 p nd match_idx next_idx x m1 r e m2)
  then have "core m2 = core me"
    by (auto dest!: upd_node_core raft_send_appendentries_core)
  then show ?case
    using good_core_refl [OF _ assms] by simp
next
  case (8 p nd match_idx m1)
  show ?case
    using good_core_refl [OF check_sufficient_logs_core [OF 8(8)] assms] by simp
next
  case (9 p nd match_idx m1 x m2 m3 m4 nd' r e m5)
  have "core m3 = core me"
    using 9(8,11,12) by (auto dest!: upd_node_core check_sufficient_logs_core)
  then have "good me m3"
    using good_core_refl [OF _ assms] by simp
  moreover have "good m3 m4"
    using yieldsD [OF 9(13) update_commit_idx_good [OF good_inv [OF calculation]]] .
  moreover have "core m5 = core m4"
    using 9(16,17) by (auto dest!: raft_send_appendentries_core)
  ultimately show ?case
    using good_stepI [OF good_trans] by (metis snd_conv)
next
  case (10 p nd match_idx m1 x m2 m3 m4 nd')
  have "core m3 = core me"
    using 10(8,11,12) by (auto dest!: upd_node_core check_sufficient_logs_core)
  then have "good me m3"
    using good_core_refl [OF _ assms] by simp
  moreover have "good m3 m4"
    using yieldsD [OF 10(13) update_commit_idx_good [OF good_inv [OF calculation]]] .
  ultimately show ?case
    using good_trans by (metis snd_conv)
qed (simp_all add: good_refl [OF assms])

lemma raft_set_current_term_log: "raft_set_current_term t me = (e, me') \<Longrightarrow> rs_log me' = rs_log me"
  by (auto simp: raft_set_current_term_def Let_def split: if_splits prod.splits)

lemma ae_check_term_good:
  assumes "srv_inv me"
  shows "yields (\<lambda>r. good me (snd r) \<and> rs_log (snd r) = rs_log me) (ae_check_term ae me)"
proof (unfold ae_check_term_def, intro yields_rules, goal_cases)
  case (1 m)
  then show ?case
    using become_follower_good [OF assms] coreD(3) [OF raft_become_follower_core [OF 1(2)]] by simp
next
  case (2 e m)
  then show ?case
    using raft_set_current_term_good [OF assms 2(3)] raft_set_current_term_log [OF 2(3)] by simp
next
  case (3 e m1 m2)
  then show ?case
    using set_term_follow_good [OF assms 3(3,5)] coreD(3) [OF raft_become_follower_core [OF 3(5)]]
      raft_set_current_term_eq(3) [of "ae_term ae" me m1] by simp
qed (simp_all add: good_refl [OF assms])

lemma ae_check_prev_good:
  assumes "srv_inv me" "lg_size (rs_log me) \<le> 2147483647"
  shows "yields (\<lambda>r. good me (snd r) \<and> (fst r = None \<longrightarrow> snd r = me)) (ae_check_prev ae me)"
  by (unfold ae_check_prev_def, intro yields_rules)
    (auto simp: good_refl [OF assms(1)] raft_delete_entry_spec(1) [OF assms])

lemma ae_conflicts_good:
  assumes "srv_inv me" "lg_size (rs_log me) \<le> 2147483647"
  shows "yields (\<lambda>r. good me (snd (snd (snd r)))) (ae_conflicts etys i c me)"
proof (induction etys arbitrary: i c)
  case Nil
  show ?case
    using good_refl [OF assms(1)] by (simp add: yields_Some)
next
  case (Cons ety etys)
  show ?case
    by (unfold ae_conflicts.simps, intro yields_rules)
      (auto simp: good_refl [OF assms(1)] raft_delete_entry_spec(1) [OF assms] Cons)
qed

lemma ae_append_good: "srv_inv me \<Longrightarrow> yields (\<lambda>r. good me (snd (snd r))) (ae_append etys i c me)"
proof (induction etys arbitrary: i c me)
  case Nil
  then show ?case
    by (simp add: yields_Some good_refl)
next
  case (Cons ety etys)
  show ?case
  proof (unfold ae_append.simps, intro yields_rules, goal_cases)
    case (1 r e m)
    then show ?case
      using raft_append_entry_spec(1) [OF Cons.prems] by simp
  next
    case (2 r e m)
    then have g: "good me m"
      using raft_append_entry_spec(1) [OF Cons.prems] by simp
    show ?case
      using Cons.IH [OF good_inv [OF g]] by (rule yields_mono) (rule good_trans [OF g])
  qed
qed

lemma ae_commit_good: "srv_inv me \<Longrightarrow> yields (good me) (ae_commit ae me)"
  by (unfold ae_commit_def, intro yields_rules) (auto simp: good_refl yields_def raft_set_commit_idx_good)

lemma ae_store_good:
  assumes "srv_inv me" "lg_size (rs_log me) \<le> 2147483647"
  shows "yields (\<lambda>r. good me (snd (snd r))) (ae_store ae me)"
proof (unfold ae_store_def, intro yields_rules, goal_cases)
  case (1 prev r out r1 rest r2 c m i r3 e r4 c' m')
  have g: "good me m"
    using yieldsD [OF 1(2) ae_conflicts_good [OF assms]] 1(3,4,5) by simp
  have "good m m'"
    using yieldsD [OF 1(8) ae_append_good [OF good_inv [OF g]]] 1(9,10) by simp
  then show ?case
    using g good_trans by auto
next
  case (2 prev r out r1 rest r2 c m i r3 e r4 c' m' m'')
  have g: "good me m"
    using yieldsD [OF 2(2) ae_conflicts_good [OF assms]] 2(3,4,5) by simp
  have g': "good me m'"
    using good_trans [OF g] yieldsD [OF 2(8) ae_append_good [OF good_inv [OF g]]] 2(9,10) by simp
  show ?case
    using good_trans [OF g' yieldsD [OF 2(12) ae_commit_good [OF good_inv [OF g']]]] by simp
next
  case (3 prev r out r1 rest r2 c m e)
  then show ?case
    using yieldsD [OF 3(2) ae_conflicts_good [OF assms]] by simp
qed

lemma raft_recv_appendentries_good:
  assumes "srv_inv me" "lg_size (rs_log me) \<le> 2147483647"
  shows "yields (\<lambda>r. good me (snd (snd r))) (raft_recv_appendentries node ae me)"
proof (unfold raft_recv_appendentries_def, intro yields_rules, goal_cases)
  case (1 r out m r2 out2 m2 r3 e r4 c m3)
  let ?m = "m\<lparr>rs_current_leader := node, rs_timeout_elapsed := 0\<rparr>"
  have g: "good me ?m" "rs_log ?m = rs_log me"
    using yieldsD [OF 1(1) ae_check_term_good [OF assms(1)]] 1(2) by simp_all
  have m2: "m2 = ?m"
    using yieldsD [OF 1(4) ae_check_prev_good] good_inv [OF g(1)] g(2) assms(2) 1(5,6) by simp
  have "good m2 m3"
    using yieldsD [OF 1(7) ae_store_good] good_inv [OF g(1)] g(2) assms(2) 1(8,9) m2 by simp
  then show ?case
    using g(1) m2 good_trans by (metis snd_conv)
next
  case (2 r out m r2 out2 m2 e)
  have g: "good me m" "rs_log m = rs_log me"
    using yieldsD [OF 2(1) ae_check_term_good [OF assms(1)]] 2(2) by simp_all
  have "good (m\<lparr>rs_current_leader := node, rs_timeout_elapsed := 0\<rparr>) m2"
    using yieldsD [OF 2(4) ae_check_prev_good] good_inv [OF g(1)] g(2) assms(2) 2(5) by simp
  moreover have "good me (m\<lparr>rs_current_leader := node, rs_timeout_elapsed := 0\<rparr>)"
    using g by simp
  ultimately show ?case
    using good_trans by (metis snd_conv)
next
  case (3 r out m e)
  then show ?case
    using yieldsD [OF 3(1) ae_check_term_good [OF assms(1)]] by simp
qed

lemma raft_recv_entry_good:
  assumes "srv_inv me"
  shows "yields (\<lambda>r. good me (snd (snd r))) (raft_recv_entry ety me)"
proof (unfold raft_recv_entry_def, intro yields_rules, goal_cases)
  case (4 ety' r e m)
  then show ?case
    using raft_append_entry_spec(1) [OF assms] by simp
next
  case (5 ety' r e m m2 nvoting m3 resp m4)
  have g: "good me m2"
    using raft_append_entry_spec(1) [OF assms, of ety' e m] 5(5,6) good_stepI for_nodes_core(3) [OF 5(8)] by simp
  have "good m2 m3"
    using 5(10) good_refl [OF good_inv [OF g]] raft_set_commit_idx_good [OF good_inv [OF g]]
    by (auto split: if_splits)
  then have "good me m3"
    using g good_trans by blast
  then show ?case
    using 5(12) by auto
qed (simp_all add: good_refl [OF assms])

subsection \<open>The timer\<close>

lemma periodic_leader_check_good: "srv_inv me \<Longrightarrow> yields (good me) (periodic_leader_check me)"
  by (unfold periodic_leader_check_def, intro yields_rules)
    (auto simp: good_refl yields_def become_leader_good)

lemma periodic_election_good: "srv_inv me \<Longrightarrow> yields (\<lambda>r. good me (snd r)) (periodic_election me)"
  by (unfold periodic_election_def raft_election_start_def, intro yields_rules)
    (auto simp: good_refl raft_become_candidate_good)

lemma periodic_role_good:
  assumes "srv_inv me"
  shows "yields (\<lambda>r. good me (snd r)) (periodic_role me)"
proof (unfold periodic_role_def, intro yields_rules, goal_cases)
  case (1 r e m)
  then show ?case
    using good_core_refl [OF _ assms] raft_send_appendentries_all_core [OF 1(3)] by simp
next
  case 3
  show ?case
    using periodic_election_good [OF assms] .
qed (simp add: good_refl [OF assms])

lemma raft_periodic_good:
  assumes "srv_inv me"
  shows "yields (\<lambda>r. good me (snd r)) (raft_periodic ms me)"
proof (unfold raft_periodic_def, rule yields_bind, rule yields_bind, rule yields_prod)
  fix m1 r e m2
  let ?m = "me\<lparr>rs_timeout_elapsed := rs_timeout_elapsed me + ms\<rparr>"
  assume a: "periodic_leader_check ?m = Some m1" "periodic_role m1 = Some r" "r = (e, m2)"
  have "good ?m m1"
    using yieldsD [OF a(1) periodic_leader_check_good] assms by simp
  moreover have "good me ?m"
    using good_refl [OF assms] by simp
  ultimately have g1: "good me m1"
    using good_trans by blast
  have g2: "good me m2"
    using good_trans [OF g1 yieldsD [OF a(2) periodic_role_good [OF good_inv [OF g1]], unfolded a(3)]] by simp
  show "yields (\<lambda>r. good me (snd r))
    (if e \<noteq> 0 then Some (e, m2)
     else if rs_last_applied_idx m2 < rs_commit_idx m2 \<and> raft_is_apply_allowed m2 then raft_apply_all m2
     else Some (0, m2))"
    using g2 good_trans [OF g2] raft_apply_all_good [OF good_inv [OF g2]] by (auto simp: yields_def)
qed

subsection \<open>Snapshots\<close>

lemma raft_begin_snapshot_good:
  assumes "srv_inv me"
  shows "yields (\<lambda>r. good me (snd r)) (raft_begin_snapshot flags me)"
proof (unfold raft_begin_snapshot_def, intro yields_rules, goal_cases)
  case (4 st ety r e m)
  then show ?case
    using raft_apply_all_good [OF assms] by simp
next
  case (5 st ety r e m x)
  have g: "good me m"
    using raft_apply_all_good [OF assms, of e m] 5(5,6) by simp
  moreover have "st \<le> rs_last_applied_idx m"
    using 5(2,8) g by (simp add: good_def evolves_def)
  then have "good m ((raft_set_snapshot_metadata (ety_term ety) st m)\<lparr>rs_snapshot_in_progress := True, rs_snapshot_flags := flags\<rparr>)"
    using good_inv [OF g]
    by (simp add: good_def srv_inv_def evolves_def raft_set_snapshot_metadata_def raft_get_current_idx_def
        raft_get_entry_from_idx_def)
  ultimately show ?case
    using good_trans by (metis snd_conv)
qed (simp_all add: good_refl [OF assms])

lemma raft_cancel_snapshot_good:
  "srv_inv me \<Longrightarrow> raft_cancel_snapshot me = (e, me') \<Longrightarrow> good me me'"
  by (auto simp: raft_cancel_snapshot_def good_def srv_inv_def evolves_def raft_get_current_idx_def
      raft_get_entry_from_idx_def split: if_splits)

lemma snapshot_done_good: "good me m \<Longrightarrow> good me (m\<lparr>rs_snapshot_in_progress := False\<rparr>)"
  by (simp add: good_def srv_inv_def evolves_def raft_get_current_idx_def raft_get_entry_from_idx_def)

lemma snapshot_poll_good:
  assumes "srv_inv me" "raft_get_num_snapshottable_logs me \<noteq> 0" "rs_snapshot_last_idx me = rs_commit_idx me"
    "poll_entries (nat (raft_get_num_snapshottable_logs me)) me = Some (e, m)"
  shows "good me m" "e = 0 \<Longrightarrow> lg_base (rs_log m) = rs_commit_idx me"
proof -
  have n: "raft_get_num_snapshottable_logs me = rs_commit_idx me - lg_base (rs_log me)"
    using assms(2) by (simp add: raft_get_num_snapshottable_logs_def split: if_splits)
  then have "int (nat (raft_get_num_snapshottable_logs me)) = rs_commit_idx me - lg_base (rs_log me)"
    using assms(1) by (simp add: srv_inv_def)
  moreover have "rs_commit_idx me \<le> rs_last_applied_idx me"
    using assms(1,3) by (simp add: srv_inv_def)
  ultimately show "good me m" "e = 0 \<Longrightarrow> lg_base (rs_log m) = rs_commit_idx me"
    using poll_entries_spec [OF assms(1) _ assms(4)] by simp_all
qed

lemma raft_end_snapshot_good:
  assumes "srv_inv me"
  shows "yields (\<lambda>r. good me (snd r)) (raft_end_snapshot me)"
proof (unfold raft_end_snapshot_def, intro yields_rules, goal_cases)
  case 1
  then show ?case
    using good_refl [OF assms] by simp
next
  case (2 x y r e m)
  then show ?case
    using snapshot_poll_good(1) [OF assms] by simp
next
  case (3 x y r e m m1)
  then show ?case
    using snapshot_done_good [OF snapshot_poll_good(1) [OF assms, of e m]] by auto
next
  case (4 x y r e m m1 m2)
  then have "good me m1"
    using snapshot_done_good [OF snapshot_poll_good(1) [OF assms, of e m]] by auto
  then show ?case
    using good_stepI for_nodes_core(4) [OF 4(9)] by simp
qed

lemma raft_end_load_snapshot_good:
  assumes "srv_inv me"
  shows "yields (\<lambda>r. good me (snd r)) (raft_end_load_snapshot me)"
  by (unfold raft_end_load_snapshot_def, intro yields_rules)
    (auto intro: good_core_refl [OF _ assms] dest: for_nodes_core(5))

end
