(* ===== verification/Raft_Replication.thy ===== *)
theory Raft_Replication
  imports Raft_Handlers
begin

section \<open>What an appendentries message does to the log of a follower\<close>

text \<open>
  The phases of \<^verbatim>\<open>raft_recv_appendentries\<close> in terms of the entries found at each index: after a
  message has been accepted, the log agrees with it on every index of the message, and nothing
  before the message has changed. The callback \<^verbatim>\<open>log_offer\<close> may replace the data of a stored entry
  but not its term; \<open>offer_keeps_term\<close> says so.
\<close>

definition offer_keeps_term :: "'u raft_cbs_t \<Rightarrow> bool" where
  "offer_keeps_term cb \<longleftrightarrow>
    (\<forall>f ety i u. cb_log_offer cb = Some f \<longrightarrow> ety_term (fst (snd (f ety i u))) = ety_term ety)"

text \<open>\<open>agrees etys i me\<close>: the log has the terms of \<open>etys\<close> from index \<open>i\<close> on.\<close>

definition agrees :: "raft_entry list \<Rightarrow> raft_index_t \<Rightarrow> 'u raft_server \<Rightarrow> bool" where
  "agrees etys i me \<longleftrightarrow> (\<forall>j < length etys.
     map_option ety_term (raft_get_entry_from_idx (i + int j) me) = Some (ety_term (etys ! j)))"

lemma agrees_Nil [simp]: "agrees [] i me"
  by (simp add: agrees_def)

lemma agrees_Cons:
  "agrees (ety # etys) i me \<longleftrightarrow>
    map_option ety_term (raft_get_entry_from_idx i me) = Some (ety_term ety) \<and> agrees etys (i + 1) me"
  by (auto simp: agrees_def nth_Cons less_Suc_eq_0_disj algebra_simps split: nat.split)

lemma agrees_cong:
  assumes "agrees etys i me" "\<And>k. i \<le> k \<Longrightarrow> k < i + int (length etys) \<Longrightarrow>
    raft_get_entry_from_idx k me' = raft_get_entry_from_idx k me"
  shows "agrees etys i me'"
  using assms by (simp add: agrees_def)

lemma agrees_append: "agrees (xs @ ys) i me \<longleftrightarrow> agrees xs i me \<and> agrees ys (i + int (length xs)) me"
  by (induction xs arbitrary: i) (auto simp: agrees_Cons algebra_simps)

lemma get_entry_iff:
  assumes "srv_inv me"
  shows "raft_get_entry_from_idx i me = None \<longleftrightarrow> i \<le> lg_base (rs_log me) \<or> raft_get_current_idx me < i"
  using assms rl.lookup_Some_iff [of "rs_log me" i]
  by (auto simp: srv_inv_def raft_get_entry_from_idx_def raft_get_current_idx_def)

lemma agrees_current:
  assumes "srv_inv me" "agrees etys i me" "etys \<noteq> []"
  shows "i + int (length etys) - 1 \<le> raft_get_current_idx me"
proof -
  have "raft_get_entry_from_idx (i + int (length etys - 1)) me \<noteq> None"
    using assms(2,3) unfolding agrees_def by (metis diff_less length_greater_0_conv less_one option.map_disc_iff option.simps(3))
  then show ?thesis
    using get_entry_iff [OF assms(1)] assms(3) by (cases etys) auto
qed

lemma ae_conflicts_spec:
  assumes "srv_inv me" "lg_size (rs_log me) \<le> 2147483647" "lg_base (rs_log me) < i" "i \<le> raft_get_current_idx me + 1"
    and "ae_conflicts etys i c me = Some (None, rest, c', me')"
  shows "\<exists>dn. etys = dn @ rest \<and> agrees dn i me' \<and>
    (rest \<noteq> [] \<longrightarrow> raft_get_current_idx me' = i + int (length dn) - 1) \<and>
    (\<forall>k < i. raft_get_entry_from_idx k me' = raft_get_entry_from_idx k me) \<and>
    c' = (if dn = [] then c else i + int (length dn) - 1) \<and> rs_cb me' = rs_cb me"
  using assms(3-)
proof (induction etys arbitrary: i c)
  case Nil
  then show ?case
    by simp
next
  case (Cons ety etys)
  show ?case
  proof (cases "raft_get_entry_from_idx i me")
    case None
    then have "rest = ety # etys" "c' = c" "me' = me"
      using Cons.prems(3) by auto
    moreover have "raft_get_current_idx me = i - 1"
      using None get_entry_iff [OF assms(1)] Cons.prems(1,2) by force
    ultimately show ?thesis
      by (intro exI [of _ "[]"]) simp
  next
    case (Some ex)
    show ?thesis
    proof (cases "ety_term ex = ety_term ety")
      case True
      have "i \<le> raft_get_current_idx me"
        using Some get_entry_iff [OF assms(1), of i] by simp
      then obtain dn where dn: "etys = dn @ rest" "agrees dn (i + 1) me'"
          "rest \<noteq> [] \<longrightarrow> raft_get_current_idx me' = i + 1 + int (length dn) - 1"
          "\<forall>k < i + 1. raft_get_entry_from_idx k me' = raft_get_entry_from_idx k me"
          "c' = (if dn = [] then i else i + 1 + int (length dn) - 1)" "rs_cb me' = rs_cb me"
        using Cons.IH [of "i + 1" i] Cons.prems Some True by auto
      then show ?thesis
        using Some True by (intro exI [of _ "ety # dn"]) (auto simp: agrees_Cons)
    next
      case False
      then obtain e where d: "raft_delete_entry_from_idx i me = Some (e, me')" "e = 0" "rest = ety # etys" "c' = c"
        using Cons.prems(3) Some by (auto simp: bind_eq_Some_conv split: if_splits)
      note spec = raft_delete_entry_spec [OF assms(1,2) d(1)]
      have "rs_cb me' = rs_cb me"
        using coreD(7) [OF raft_delete_entry_core(1) [OF d(1)]] by simp
      then show ?thesis
        using spec d Cons.prems(2) by (intro exI [of _ "[]"]) auto
    qed
  qed
qed

lemma ae_append_spec:
  assumes "srv_inv me" "offer_keeps_term (rs_cb me)" "raft_get_current_idx me = i - 1" "lg_base (rs_log me) < i"
    and "ae_append etys i c me = Some (0, c', me')"
  shows "agrees etys i me' \<and> raft_get_current_idx me' = i - 1 + int (length etys) \<and>
    (\<forall>k < i. raft_get_entry_from_idx k me' = raft_get_entry_from_idx k me) \<and>
    c' = (if etys = [] then c else i + int (length etys) - 1)"
  using assms
proof (induction etys arbitrary: i c me)
  case Nil
  then show ?case
    by simp
next
  case (Cons ety etys)
  obtain m where a: "raft_append_entry ety me = Some (0, m)" and r: "ae_append etys (i + 1) i m = Some (0, c', me')"
    using Cons.prems(5) by (auto simp: bind_eq_Some_conv split: if_splits)
  note spec = raft_append_entry_spec [OF Cons.prems(1) a]
  have cb: "rs_cb m = rs_cb me"
    using coreD(7) [OF raft_append_entry_core(1) [OF a]] by simp
  have cur: "raft_get_current_idx me + 1 = i"
    using Cons.prems(3) by simp
  obtain x u where x: "raft_get_entry_from_idx i m = Some x"
    "case cb_log_offer (rs_cb me) of None \<Rightarrow> x = ety | Some f \<Rightarrow> fst (f ety i u) = 0 \<and> fst (snd (f ety i u)) = x"
    using spec(5) [unfolded cur] by blast
  have "ety_term x = ety_term ety"
    using x(2) Cons.prems(2) by (auto simp: offer_keeps_term_def split: option.splits)
  moreover have ih: "agrees etys (i + 1) me' \<and> raft_get_current_idx me' = i + 1 - 1 + int (length etys) \<and>
    (\<forall>k < i + 1. raft_get_entry_from_idx k me' = raft_get_entry_from_idx k m) \<and>
    c' = (if etys = [] then i else i + 1 + int (length etys) - 1)"
    using Cons.IH [of m "i + 1" i] good_inv [OF spec(1)] cb Cons.prems(2,3,4) spec(2,4) r by simp
  ultimately show ?case
    using x(1) spec(3) Cons.prems(3) by (auto simp: agrees_Cons)
qed

lemma ae_commit_spec:
  assumes "ae_commit ae me = Some me'"
  shows "rs_log me' = rs_log me"
    "rs_commit_idx me < ae_leader_commit ae \<Longrightarrow> rs_commit_idx me' = min (raft_get_current_idx me) (ae_leader_commit ae)"
    "ae_leader_commit ae \<le> rs_commit_idx me \<Longrightarrow> rs_commit_idx me' = rs_commit_idx me"
  using assms by (auto simp: ae_commit_def Let_def raft_set_commit_idx_def bind_eq_Some_conv split: if_splits)

lemma ae_conflicts_frame:
  assumes "srv_inv me" "lg_size (rs_log me) \<le> 2147483647" "ae_conflicts etys i c me = Some (out, rest, c', me')"
  shows "rs_commit_idx me' = rs_commit_idx me \<and> lg_base (rs_log me') = lg_base (rs_log me)"
  using assms(3)
proof (induction etys arbitrary: i c)
  case (Cons ety etys)
  then show ?case
    using coreD(4) [OF raft_delete_entry_core(1)] raft_delete_entry_spec(3) [OF assms(1,2)]
    by (fastforce simp: bind_eq_Some_conv split: option.splits if_splits)
qed simp

lemma ae_append_frame:
  "ae_append etys i c me = Some (e, c', me') \<Longrightarrow> rs_commit_idx me' = rs_commit_idx me"
proof (induction etys arbitrary: i c me)
  case (Cons ety etys)
  then obtain e1 m where a: "raft_append_entry ety me = Some (e1, m)"
    and r: "if e1 \<noteq> 0 then m = me' else ae_append etys (i + 1) i m = Some (e, c', me')"
    by (auto simp: bind_eq_Some_conv split: if_splits)
  have "rs_commit_idx m = rs_commit_idx me"
    using coreD(4) [OF raft_append_entry_core(1) [OF a]] by simp
  then show ?case
    using r Cons.IH by (auto split: if_splits)
qed simp

text \<open>The second loop when the first one may have found every entry in place.\<close>

lemma ae_append_rest:
  assumes "srv_inv me" "offer_keeps_term (rs_cb me)" "rest \<noteq> [] \<longrightarrow> raft_get_current_idx me = i - 1"
    "lg_base (rs_log me) < i" "ae_append rest i c me = Some (0, c', me')"
  shows "agrees rest i me' \<and> (\<forall>k < i. raft_get_entry_from_idx k me' = raft_get_entry_from_idx k me) \<and>
    c' = (if rest = [] then c else i + int (length rest) - 1) \<and> rs_commit_idx me' = rs_commit_idx me"
  using assms ae_append_spec [OF assms(1,2) _ assms(4,5)] ae_append_frame [OF assms(5)] by (cases rest) auto

lemma ae_store_spec:
  assumes "srv_inv me" "lg_size (rs_log me) \<le> 2147483647" "offer_keeps_term (rs_cb me)"
    "lg_base (rs_log me) \<le> ae_prev_log_idx ae" "ae_prev_log_idx ae \<le> raft_get_current_idx me"
    and "ae_store ae me = Some (0, c, me')"
  shows "agrees (ae_entries ae) (ae_prev_log_idx ae + 1) me'"
    "c = ae_prev_log_idx ae + int (length (ae_entries ae))"
    "k \<le> ae_prev_log_idx ae \<Longrightarrow> raft_get_entry_from_idx k me' = raft_get_entry_from_idx k me"
    "rs_commit_idx me < ae_leader_commit ae \<Longrightarrow> rs_commit_idx me' = min (raft_get_current_idx me') (ae_leader_commit ae)"
    "ae_leader_commit ae \<le> rs_commit_idx me \<Longrightarrow> rs_commit_idx me' = rs_commit_idx me"
proof -
  let ?p = "ae_prev_log_idx ae"
  obtain out rest c1 m1 where c: "ae_conflicts (ae_entries ae) (?p + 1) ?p me = Some (out, rest, c1, m1)"
    using assms(6) by (auto simp: ae_store_def Let_def bind_eq_Some_conv)
  have nz: "ae_conflicts etys i c0 me = Some (Some e, rest, c1, m1) \<Longrightarrow> e \<noteq> 0" for etys i c0 e
    by (induction etys arbitrary: i c0)
      (auto simp: bind_eq_Some_conv RAFT_ERR_SHUTDOWN_def split: option.splits if_splits)
  have "out = None"
    using assms(6) c nz [of "ae_entries ae" "?p + 1" ?p] by (cases out) (auto simp: ae_store_def Let_def)
  then have cn: "ae_conflicts (ae_entries ae) (?p + 1) ?p me = Some (None, rest, c1, m1)"
    using c by simp
  obtain dn where dn: "ae_entries ae = dn @ rest" "agrees dn (?p + 1) m1"
      "rest \<noteq> [] \<longrightarrow> raft_get_current_idx m1 = ?p + 1 + int (length dn) - 1"
      "\<forall>k < ?p + 1. raft_get_entry_from_idx k m1 = raft_get_entry_from_idx k me"
      "c1 = (if dn = [] then ?p else ?p + 1 + int (length dn) - 1)" "rs_cb m1 = rs_cb me"
    using ae_conflicts_spec [OF assms(1,2) _ _ cn] assms(4,5) by auto
  have g: "good me m1"
    using yieldsD [OF cn ae_conflicts_good [OF assms(1,2)]] by simp
  have com: "rs_commit_idx m1 = rs_commit_idx me" "lg_base (rs_log m1) = lg_base (rs_log me)"
    using ae_conflicts_frame [OF assms(1,2) cn] by auto
  let ?i = "?p + 1 + int (length dn)"
  obtain m2 where a: "ae_append rest ?i c1 m1 = Some (0, c, m2)" and cm: "ae_commit ae m2 = Some me'"
    using assms(6) cn dn(1)
    by (auto simp: ae_store_def bind_eq_Some_conv Let_def algebra_simps split: if_splits)
  have m2: "agrees rest ?i m2" "\<forall>k < ?i. raft_get_entry_from_idx k m2 = raft_get_entry_from_idx k m1"
      "c = (if rest = [] then c1 else ?i + int (length rest) - 1)" "rs_commit_idx m2 = rs_commit_idx m1"
    using ae_append_rest [OF good_inv [OF g] _ _ _ a] dn com assms(3,4) by auto
  have get: "raft_get_entry_from_idx k me' = raft_get_entry_from_idx k m2" for k
    using ae_commit_spec(1) [OF cm] by (simp add: raft_get_entry_from_idx_def)
  have "agrees dn (?p + 1) m2"
    by (rule agrees_cong [OF dn(2)]) (simp add: m2(2))
  then show "agrees (ae_entries ae) (?p + 1) me'"
    using m2(1) agrees_cong get unfolding dn(1) agrees_append by blast
  show "c = ?p + int (length (ae_entries ae))"
    using m2(3) dn(1,5) by auto
  show "raft_get_entry_from_idx k me' = raft_get_entry_from_idx k me" if "k \<le> ?p"
    using that get m2(2) dn(4) by simp
  show "rs_commit_idx me < ae_leader_commit ae \<Longrightarrow> rs_commit_idx me' = min (raft_get_current_idx me') (ae_leader_commit ae)"
    "ae_leader_commit ae \<le> rs_commit_idx me \<Longrightarrow> rs_commit_idx me' = rs_commit_idx me"
    using ae_commit_spec [OF cm] m2(4) com(1) by (simp_all add: raft_get_current_idx_def)
qed

lemma raft_set_current_term_core:
  assumes "raft_set_current_term t me = (0, me')" "rs_current_term me < t"
  shows "core me' = core (me\<lparr>rs_current_term := t, rs_voted_for := - 1\<rparr>)"
  using assms by (auto simp: raft_set_current_term_def core_def Let_def split: if_splits prod.splits)

lemma ae_check_term_pass:
  assumes "ae_check_term ae me = Some (None, m)"
  shows "\<exists>v st. core m = core (me\<lparr>rs_current_term := ae_term ae, rs_voted_for := v, rs_state := st\<rparr>)"
proof -
  consider "raft_is_candidate me" "rs_current_term me = ae_term ae" "raft_become_follower me = Some m"
    | m1 where "rs_current_term me < ae_term ae" "raft_set_current_term (ae_term ae) me = (0, m1)"
        "raft_become_follower m1 = Some m"
    | "rs_current_term me = ae_term ae" "m = me"
    using assms by (auto simp: ae_check_term_def bind_eq_Some_conv split: if_splits prod.splits)
  then show ?thesis
  proof cases
    case 1
    then show ?thesis
      using raft_become_follower_core [OF 1(3)]
      by (intro exI [of _ "rs_voted_for me"] exI [of _ RAFT_STATE_FOLLOWER]) (simp add: core_def)
  next
    case 2
    then show ?thesis
      using raft_become_follower_core [OF 2(3)] raft_set_current_term_core [OF 2(2,1)]
      by (intro exI [of _ "- 1"] exI [of _ RAFT_STATE_FOLLOWER]) (simp add: core_def)
  next
    case 3
    then show ?thesis
      by (intro exI [of _ "rs_voted_for me"] exI [of _ "rs_state me"]) (simp add: core_def)
  qed
qed

text \<open>A message that is answered with success went through all phases.\<close>

lemma recv_appendentries_phases:
  assumes "raft_recv_appendentries node ae me = Some (e, r, me')" "aer_success r = 1"
  shows "\<exists>m c. (\<exists>v st. core m = core (me\<lparr>rs_current_term := ae_term ae, rs_voted_for := v, rs_state := st\<rparr>)) \<and>
    ae_check_prev ae m = Some (None, m) \<and> ae_store ae m = Some (e, c, me') \<and> r = ae_response ae 1 c me'"
proof -
  obtain out m0 where t: "ae_check_term ae me = Some (out, m0)"
    using assms(1) by (auto simp: raft_recv_appendentries_def bind_eq_Some_conv)
  let ?m = "m0\<lparr>rs_current_leader := node, rs_timeout_elapsed := 0\<rparr>"
  have "out = None"
    using assms t by (cases out) (auto simp: raft_recv_appendentries_def ae_response_def)
  moreover obtain out2 m2 where p: "ae_check_prev ae ?m = Some (out2, m2)"
    using assms(1) t calculation by (auto simp: raft_recv_appendentries_def bind_eq_Some_conv)
  moreover have o2: "out2 = None"
    using assms t p calculation by (cases out2) (auto simp: raft_recv_appendentries_def ae_response_def)
  moreover have "m2 = ?m"
    using p o2 by (auto simp: ae_check_prev_def bind_eq_Some_conv split: if_splits option.splits)
  moreover obtain c where "ae_store ae ?m = Some (e, c, me')" "r = ae_response ae 1 c me'"
    using assms(1) t calculation by (auto simp: raft_recv_appendentries_def bind_eq_Some_conv)
  ultimately show ?thesis
    using ae_check_term_pass [of ae me m0] t by (intro exI [of _ ?m]) auto
qed

lemma ae_check_prev_pass:
  assumes "srv_inv m" "ae_check_prev ae m = Some (None, m)" "lg_base (rs_log m) \<le> ae_prev_log_idx ae"
  shows "ae_prev_log_idx ae \<le> raft_get_current_idx m"
proof -
  consider "ae_prev_log_idx ae \<le> 0" | "ae_prev_log_idx ae = rs_snapshot_last_idx m"
    | "raft_get_entry_from_idx (ae_prev_log_idx ae) m \<noteq> None"
    using assms(2) by (auto simp: ae_check_prev_def split: if_splits option.splits)
  then show ?thesis
    using assms(1) get_entry_iff [OF assms(1)] rl.last_idx_nonneg [of "rs_log m"]
    by cases (auto simp: srv_inv_def raft_get_current_idx_def)
qed

section \<open>A server to run\<close>

text \<open>A follower of a cluster of three, with a log of the initial capacity: first empty, then with
  two entries of term 1 of which one is committed.\<close>

definition demo_server :: "unit raft_server" where
  "demo_server = (zero_server [] [] ())\<lparr>rs_voted_for := - 1,
     rs_log := \<lparr>lg_size = 10, lg_count = 0, lg_front = 0, lg_back = 0, lg_base = 0,
                lg_entries = replicate 10 zero_entry\<rparr>,
     rs_state := RAFT_STATE_FOLLOWER, rs_nodes := [0, 1, 2], rs_election_timeout := 1000,
     rs_election_timeout_rand := 1000, rs_request_timeout := 200, rs_node := Some 0,
     rs_voting_cfg_change_log_idx := - 1,
     rs_store := [0 \<mapsto> raft_node_new 0 1, 1 \<mapsto> raft_node_new 0 2, 2 \<mapsto> raft_node_new 0 3], rs_fresh := 3\<rparr>"

definition demo_entry :: "raft_term_t \<Rightarrow> raft_entry" where
  "demo_entry t = zero_entry\<lparr>ety_term := t\<rparr>"

definition demo_follower :: "unit raft_server" where
  "demo_follower = demo_server\<lparr>rs_current_term := 1, rs_commit_idx := 1,
     rs_log := \<lparr>lg_size = 10, lg_count = 2, lg_front = 0, lg_back = 2, lg_base = 0,
                lg_entries = [demo_entry 1, demo_entry 1] @ replicate 8 zero_entry\<rparr>\<rparr>"

definition demo_ae :: msg_appendentries_t where
  "demo_ae = \<lparr>ae_term = 2, ae_prev_log_idx = 1, ae_prev_log_term = 1, ae_leader_commit = 2,
     ae_entries = [demo_entry 2]\<rparr>"

lemmas demo_defs = demo_server_def demo_follower_def demo_ae_def demo_entry_def zero_server_def no_callbacks_def

lemma demo_server_inv: "srv_inv demo_server"
  by (simp add: srv_inv_def demo_defs log_inv_def raft_get_current_idx_def log_get_current_idx_def)

lemma demo_follower_inv: "srv_inv demo_follower"
  by (simp add: srv_inv_def demo_defs log_inv_def raft_get_current_idx_def log_get_current_idx_def)

lemmas ae_eval = raft_recv_appendentries_def ae_check_term_def ae_check_prev_def ae_store_def ae_commit_def
  ae_response_def raft_is_candidate_def raft_set_current_term_def raft_become_follower_def raft_set_state_def
  raft_randomize_election_timeout_def raft_get_entry_from_idx_def log_get_at_idx_def
  raft_delete_entry_from_idx_def log_delete_def log_delete_loop.simps srv_hooks_def raft_pop_log_def
  raft_entry_is_cfg_change_def raft_entry_is_voting_cfg_change_def logtypes zero_entry_def log_mod_def
  raft_append_entry_def log_append_entry_def ensurecapacity_def raft_set_commit_idx_def
  raft_get_current_idx_def log_get_current_idx_def Let_def

lemma demo_follower_accepts:
  "\<exists>r me'. raft_recv_appendentries (Some 1) demo_ae demo_follower = Some (0, r, me') \<and> aer_success r = 1 \<and>
     lg_base (rs_log me') = 0"
  by (simp add: ae_eval demo_defs)

section \<open>Properties\<close>

text \<open>(C15) A follower that accepts an appendentries message ends with a log that agrees with the
  message. When \<^verbatim>\<open>raft_recv_appendentries\<close> returns 0 and answers success, every index of the
  message holds an entry of the leader's term, conflicting entries having been replaced; the
  entries up to \<^verbatim>\<open>prev_log_idx\<close> are unchanged; the answer names the last index of the message;
  the term is the leader's; and the commit index is the leader's, as far as the log reaches. The
  message must not start before the compacted part of the log.\<close>

theorem recv_appendentries_matches_leader:
  assumes "srv_inv me" "lg_size (rs_log me) \<le> 2147483647" "offer_keeps_term (rs_cb me)"
    and "lg_base (rs_log me) \<le> ae_prev_log_idx ae"
    and "raft_recv_appendentries node ae me = Some (0, r, me')" "aer_success r = 1"
  shows "agrees (ae_entries ae) (ae_prev_log_idx ae + 1) me' \<and>
    (\<forall>i \<le> ae_prev_log_idx ae. raft_get_entry_from_idx i me' = raft_get_entry_from_idx i me) \<and>
    aer_current_idx r = ae_prev_log_idx ae + int (length (ae_entries ae)) \<and>
    aer_term r = rs_current_term me' \<and>
    rs_commit_idx me' = (if rs_commit_idx me < ae_leader_commit ae
      then min (raft_get_current_idx me') (ae_leader_commit ae) else rs_commit_idx me)"
proof -
  obtain m c v st where m: "core m = core (me\<lparr>rs_current_term := ae_term ae, rs_voted_for := v, rs_state := st\<rparr>)"
      "ae_check_prev ae m = Some (None, m)" "ae_store ae m = Some (0, c, me')" "r = ae_response ae 1 c me'"
    using recv_appendentries_phases [OF assms(5,6)] by blast
  note md = coreD [OF m(1)]
  have inv: "srv_inv m"
    using assms(1) md by (simp add: srv_inv_def raft_get_current_idx_def)
  have prev: "ae_prev_log_idx ae \<le> raft_get_current_idx m"
    using ae_check_prev_pass [OF inv m(2)] assms(4) md by simp
  note st = ae_store_spec [OF inv _ _ _ prev m(3)]
  have get: "raft_get_entry_from_idx i m = raft_get_entry_from_idx i me" for i
    using md by (simp add: raft_get_entry_from_idx_def)
  show ?thesis
    using st assms(2,3,4) md m(4) by (auto simp: ae_response_def get)
qed

theorem recv_appendentries_matches_leader_witness:
  "\<exists>r me'. raft_recv_appendentries (Some 1) demo_ae demo_follower = Some (0, r, me') \<and>
     agrees [demo_entry 2] 2 me' \<and> raft_get_entry_from_idx 1 me' = Some (demo_entry 1) \<and> aer_current_idx r = 2"
proof -
  obtain r me' where a: "raft_recv_appendentries (Some 1) demo_ae demo_follower = Some (0, r, me')" "aer_success r = 1"
    using demo_follower_accepts by blast
  have "lg_size (rs_log demo_follower) \<le> 2147483647" "offer_keeps_term (rs_cb demo_follower)"
    "lg_base (rs_log demo_follower) \<le> ae_prev_log_idx demo_ae"
    "raft_get_entry_from_idx 1 demo_follower = Some (demo_entry 1)"
    by (simp_all add: demo_defs offer_keeps_term_def raft_get_entry_from_idx_def log_get_at_idx_def)
  then show ?thesis
    using a recv_appendentries_matches_leader [OF demo_follower_inv _ _ _ a] by (auto simp: demo_ae_def)
qed

lemma log_append_entry_room:
  assumes "log_inv lg" "lg_count lg < lg_size lg" "lh_offer lh = None"
  shows "\<exists>lg'. log_append_entry lh ety lg s = Some (0, lg', s)"
proof -
  have "0 \<le> lg_back lg \<and> nat (lg_back lg) < length (lg_entries lg)"
    using assms(1) by (simp add: log_inv_def nat_less_iff)
  then show ?thesis
    using assms(2,3) by (simp add: log_append_entry_def ensurecapacity_def Let_def)
qed

lemma raft_append_entry_room:
  assumes "srv_inv me" "lg_count (rs_log me) < lg_size (rs_log me)" "cb_log_offer (rs_cb me) = None"
  shows "\<exists>me'. raft_append_entry ety me = Some (0, me')"
proof -
  define m where "m = (if raft_entry_is_voting_cfg_change ety
    then me\<lparr>rs_voting_cfg_change_log_idx := raft_get_current_idx me\<rparr> else me)"
  have "lh_offer (srv_hooks (rs_cb m)) = None" "log_inv (rs_log m)" "lg_count (rs_log m) < lg_size (rs_log m)"
    using assms by (auto simp: m_def srv_hooks_def srv_inv_def)
  then obtain lg where "log_append_entry (srv_hooks (rs_cb m)) ety (rs_log m) m = Some (0, lg, m)"
    using log_append_entry_room by metis
  then show ?thesis
    by (simp add: raft_append_entry_def Let_def flip: m_def)
qed

text \<open>(C20) A message that starts before the compacted part of the log corrupts the log. A follower
  that has compacted its first entries and receives an old (delayed or duplicated) message of
  the current term with \<^verbatim>\<open>prev_log_idx\<close> 0 skips the consistency check, finds no entry at
  index 1, and appends the first entry of the message at the end of its log, at an index the
  entry never had, while it acknowledges index 1.\<close>

theorem recv_appendentries_below_base_appends:
  assumes "srv_inv me" "0 < lg_base (rs_log me)" "lg_count (rs_log me) < lg_size (rs_log me)"
    and "rs_state me = RAFT_STATE_FOLLOWER" "rs_current_term me = ae_term ae" "cb_log_offer (rs_cb me) = None"
    and "ae_prev_log_idx ae = 0" "ae_entries ae = [ety]" "ae_leader_commit ae \<le> rs_commit_idx me"
  shows "\<exists>r me'. raft_recv_appendentries node ae me = Some (0, r, me') \<and> aer_success r = 1 \<and> aer_current_idx r = 1 \<and>
    raft_get_entry_from_idx (raft_get_current_idx me + 1) me' = Some ety \<and> 1 < raft_get_current_idx me + 1"
proof -
  let ?m = "me\<lparr>rs_current_leader := node, rs_timeout_elapsed := 0\<rparr>"
  have li: "log_inv (rs_log me)" and inv: "srv_inv ?m"
    using assms(1) by (simp_all add: srv_inv_def raft_get_current_idx_def)
  have none: "raft_get_entry_from_idx 1 ?m = None"
    using assms(1,2) by (simp add: raft_get_entry_from_idx_def log_get_at_idx_def)
  obtain m' where a: "raft_append_entry ety ?m = Some (0, m')"
    using raft_append_entry_room [OF inv] assms(3,6) by auto
  have m': "raft_get_entry_from_idx (raft_get_current_idx me + 1) m' = Some ety" "rs_commit_idx m' = rs_commit_idx me"
    using raft_append_entry_spec(5) [OF inv a] coreD(4) [OF raft_append_entry_core(1) [OF a]] assms(6)
    by (auto simp: raft_get_current_idx_def)
  have "raft_recv_appendentries node ae me = Some (0, ae_response ae 1 1 m', m')"
    using assms none a m'(2)
    by (simp add: raft_recv_appendentries_def ae_check_term_def raft_is_candidate_def ae_check_prev_def
        ae_store_def ae_commit_def Let_def)
  moreover have "1 < raft_get_current_idx me + 1"
    using assms(1,2) by (simp add: srv_inv_def)
  ultimately show ?thesis
    using m'(1) by (simp add: ae_response_def)
qed

definition demo_compacted :: "unit raft_server" where
  "demo_compacted = demo_follower\<lparr>rs_commit_idx := 5, rs_last_applied_idx := 5, rs_snapshot_last_idx := 5,
     rs_log := (rs_log demo_follower)\<lparr>lg_base := 5\<rparr>\<rparr>"

theorem recv_appendentries_below_base_appends_witness:
  "\<exists>r me'. raft_recv_appendentries (Some 1) (demo_ae\<lparr>ae_term := 1, ae_prev_log_idx := 0\<rparr>) demo_compacted = Some (0, r, me') \<and>
     aer_current_idx r = 1 \<and> raft_get_entry_from_idx 8 me' = Some (demo_entry 2)"
proof -
  have "srv_inv demo_compacted" "raft_get_current_idx demo_compacted + 1 = 8"
    by (simp_all add: demo_compacted_def srv_inv_def demo_defs log_inv_def raft_get_current_idx_def log_get_current_idx_def)
  then show ?thesis
    using recv_appendentries_below_base_appends
      [of demo_compacted "demo_ae\<lparr>ae_term := 1, ae_prev_log_idx := 0\<rparr>" "demo_entry 2" "Some 1"]
    by (auto simp: demo_compacted_def demo_defs)
qed

text \<open>(C21) A snapshot at index 1 lets a leader stop a new follower. A leader that has compacted
  exactly its first entry sends a peer whose next index is 1 neither a snapshot nor an entry, but
  an empty message with \<^verbatim>\<open>prev_log_idx\<close> 0 and a positive commit index. A follower with an empty
  log accepts it, computes \<^verbatim>\<open>max(current_idx, 1)\<close> as its last index, and fails the assertion of
  \<^verbatim>\<open>raft_set_commit_idx\<close>.\<close>

theorem snapshot_at_first_index_stops_follower:
  assumes "cb_send_appendentries (rs_cb ld) = Some f" "rs_store ld p = Some nd" "rs_node ld \<noteq> Some p"
    and "nd_next_idx nd = 1" "lg_base (rs_log ld) = 1" "rs_snapshot_last_idx ld = 1" "1 \<le> rs_commit_idx ld"
    and "rs_current_term fw = rs_current_term ld" "rs_state fw = RAFT_STATE_FOLLOWER"
    and "raft_get_current_idx fw = 0" "rs_commit_idx fw = 0"
  shows "\<exists>ae. raft_send_appendentries p ld =
      Some (fst (f p ae (rs_udata ld)), ld\<lparr>rs_udata := snd (f p ae (rs_udata ld))\<rparr>) \<and>
    raft_recv_appendentries node ae fw = None"
proof -
  let ?ae = "\<lparr>ae_term = rs_current_term ld, ae_prev_log_idx = 0, ae_prev_log_term = 0,
    ae_leader_commit = rs_commit_idx ld, ae_entries = []\<rparr>"
  have "raft_send_appendentries p ld =
      Some (fst (f p ?ae (rs_udata ld)), ld\<lparr>rs_udata := snd (f p ?ae (rs_udata ld))\<rparr>)"
    using assms(1-6)
    by (simp add: raft_send_appendentries_def log_get_from_idx_def raft_get_entry_from_idx_def log_get_at_idx_def
        ae_prev_def Let_def case_prod_beta)
  moreover have "raft_recv_appendentries node ?ae fw = None"
    using assms(7-)
    by (simp add: raft_recv_appendentries_def ae_check_term_def raft_is_candidate_def ae_check_prev_def
        ae_store_def ae_commit_def raft_set_commit_idx_def raft_get_current_idx_def Let_def)
  ultimately show ?thesis
    by blast
qed

definition demo_leader :: "msg_appendentries_t list raft_server" where
  "demo_leader = (zero_server [] [] [])\<lparr>rs_current_term := 1, rs_state := RAFT_STATE_LEADER, rs_commit_idx := 2,
     rs_last_applied_idx := 2, rs_snapshot_last_idx := 1, rs_snapshot_last_term := 1, rs_node := Some 0,
     rs_log := \<lparr>lg_size = 10, lg_count = 1, lg_front = 1, lg_back = 2, lg_base = 1,
                lg_entries = [demo_entry 1, demo_entry 1] @ replicate 8 zero_entry\<rparr>,
     rs_cb := no_callbacks\<lparr>cb_send_appendentries := Some (\<lambda>_ ae u. (0, ae # u))\<rparr>,
     rs_nodes := [0, 1], rs_store := [0 \<mapsto> raft_node_new 0 1, 1 \<mapsto> raft_node_new 0 2]\<rparr>"

theorem snapshot_at_first_index_stops_follower_witness:
  "\<exists>ae. raft_send_appendentries 1 demo_leader = Some (0, demo_leader\<lparr>rs_udata := [ae]\<rparr>) \<and>
     raft_recv_appendentries (Some 2) ae (demo_server\<lparr>rs_current_term := 1\<rparr>) = None"
  using snapshot_at_first_index_stops_follower
    [of demo_leader "\<lambda>_ ae u. (0, ae # u)" 1 "raft_node_new 0 2" "demo_server\<lparr>rs_current_term := 1\<rparr>" "Some 2"]
  by (auto simp: demo_leader_def demo_defs raft_get_current_idx_def log_get_current_idx_def)

end
