(* ===== verification/Raft_Safety.thy ===== *)
theory Raft_Safety
  imports Raft_Replication
begin

section \<open>Runs of a server\<close>

text \<open>
  \<open>raft_step\<close> is the step relation of one server: any entry point may be called with any
  message, node, random number and callback behaviour. \<open>raft_run\<close> is a sequence of steps. Loading
  a snapshot is a step of \<open>raft_reachable\<close> only, because it overwrites the term.
\<close>

inductive raft_step :: "'u raft_server \<Rightarrow> 'u raft_server \<Rightarrow> bool" where
  periodic: "raft_periodic ms me = Some (e, me') \<Longrightarrow> raft_step me me'"
| appendentries: "lg_size (rs_log me) \<le> 2147483647 \<Longrightarrow>
    raft_recv_appendentries node ae me = Some (e, r, me') \<Longrightarrow> raft_step me me'"
| appendentries_response: "raft_recv_appendentries_response node aer me = Some (e, me') \<Longrightarrow> raft_step me me'"
| requestvote: "raft_recv_requestvote node vr me = Some (e, rr, me') \<Longrightarrow> raft_step me me'"
| requestvote_response: "raft_recv_requestvote_response node rv me = Some (e, me') \<Longrightarrow> raft_step me me'"
| client_entry: "raft_recv_entry ety me = Some (e, er, me') \<Longrightarrow> raft_step me me'"
| add_node: "raft_add_node u i slf me = Some (n, me') \<Longrightarrow> raft_step me me'"
| add_non_voting_node: "raft_add_non_voting_node u i slf me = Some (n, me') \<Longrightarrow> raft_step me me'"
| remove_node: "raft_remove_node n me = Some me' \<Longrightarrow> raft_step me me'"
| apply_all: "raft_apply_all me = Some (e, me') \<Longrightarrow> raft_step me me'"
| set_commit_idx: "raft_set_commit_idx idx me = Some me' \<Longrightarrow> raft_step me me'"
| set_current_term: "raft_set_current_term t me = (e, me') \<Longrightarrow> raft_step me me'"
| begin_snapshot: "raft_begin_snapshot flags me = Some (e, me') \<Longrightarrow> raft_step me me'"
| cancel_snapshot: "raft_cancel_snapshot me = (e, me') \<Longrightarrow> raft_step me me'"
| end_snapshot: "raft_end_snapshot me = Some (e, me') \<Longrightarrow> raft_step me me'"
| end_load_snapshot: "raft_end_load_snapshot me = Some (e, me') \<Longrightarrow> raft_step me me'"
| request_timeout: "raft_step me (raft_set_request_timeout ms me)"
| election_timeout: "raft_set_election_timeout ms me = Some me' \<Longrightarrow> raft_step me me'"
| callbacks: "raft_step me (raft_set_callbacks funcs u me)"

inductive raft_run :: "'u raft_server \<Rightarrow> 'u raft_server \<Rightarrow> bool" where
  run_refl: "raft_run me me"
| run_step: "raft_run me me1 \<Longrightarrow> raft_step me1 me2 \<Longrightarrow> raft_run me me2"

inductive raft_reachable :: "'u raft_server \<Rightarrow> bool" where
  reach_new: "raft_new rnd al u = Some (Some me) \<Longrightarrow> raft_reachable me"
| reach_step: "raft_reachable me \<Longrightarrow> raft_step me me' \<Longrightarrow> raft_reachable me'"
| reach_load: "raft_reachable me \<Longrightarrow> raft_begin_load_snapshot t i me = Some (e, me') \<Longrightarrow> raft_reachable me'"

lemma good_field_upd:
  "srv_inv me \<Longrightarrow> good me (me\<lparr>rs_cb := c\<rparr>)"
  "srv_inv me \<Longrightarrow> good me (me\<lparr>rs_request_timeout := i\<rparr>)"
  "srv_inv me \<Longrightarrow> good me (me\<lparr>rs_election_timeout := i\<rparr>)"
  by (simp_all add: good_def srv_inv_def evolves_def raft_get_current_idx_def raft_get_entry_from_idx_def)

lemma raft_step_good:
  assumes "raft_step me me'" "srv_inv me"
  shows "good me me'"
  using assms
proof (cases rule: raft_step.cases)
  case (periodic ms e)
  then show ?thesis using yieldsD [OF _ raft_periodic_good [OF assms(2)]] by fastforce
next
  case (appendentries node ae e r)
  then show ?thesis using yieldsD [OF _ raft_recv_appendentries_good [OF assms(2)]] by fastforce
next
  case (appendentries_response node aer e)
  then show ?thesis using yieldsD [OF _ raft_recv_appendentries_response_good [OF assms(2)]] by fastforce
next
  case (requestvote node vr e rr)
  then show ?thesis using yieldsD [OF _ raft_recv_requestvote_good [OF assms(2)]] by fastforce
next
  case (requestvote_response node rv e)
  then show ?thesis using yieldsD [OF _ raft_recv_requestvote_response_good [OF assms(2)]] by fastforce
next
  case (client_entry ety e er)
  then show ?thesis using yieldsD [OF _ raft_recv_entry_good [OF assms(2)]] by fastforce
next
  case (add_node u i slf n)
  then show ?thesis using good_core_refl [OF _ assms(2)] raft_add_node_core by fastforce
next
  case (add_non_voting_node u i slf n)
  then show ?thesis
    using good_core_refl [OF _ assms(2)] raft_add_non_voting_node_internal_core
    by (fastforce simp: raft_add_non_voting_node_def)
next
  case (remove_node n)
  then show ?thesis using good_core_refl [OF raft_remove_node_core assms(2)] by blast
next
  case (begin_snapshot flags e)
  then show ?thesis using yieldsD [OF _ raft_begin_snapshot_good [OF assms(2)]] by fastforce
next
  case (end_snapshot e)
  then show ?thesis using yieldsD [OF _ raft_end_snapshot_good [OF assms(2)]] by fastforce
next
  case (end_load_snapshot e)
  then show ?thesis using yieldsD [OF _ raft_end_load_snapshot_good [OF assms(2)]] by fastforce
next
  case (election_timeout ms)
  have "good me (me\<lparr>rs_election_timeout := ms\<rparr>)"
    using good_field_upd(3) [OF assms(2)] .
  then show ?thesis
    using good_stepI raft_randomize_core election_timeout by (metis raft_set_election_timeout_def)
qed (auto simp: raft_set_request_timeout_def raft_set_callbacks_def good_field_upd raft_apply_all_good
    raft_set_commit_idx_good raft_set_current_term_good raft_cancel_snapshot_good)

lemma raft_run_good: "raft_run me me' \<Longrightarrow> srv_inv me \<Longrightarrow> good me me'"
proof (induction rule: raft_run.induct)
  case (run_step me me1 me2)
  then show ?case
    using raft_step_good good_inv good_trans by metis
qed (simp add: good_refl)

lemma raft_new_yields: "yields (\<lambda>r. \<forall>me. r = Some me \<longrightarrow> srv_inv me) (raft_new rnd al u)"
proof (unfold raft_new_def, intro yields_rules, goal_cases)
  case (2 b m1 m2 x m3 lg m4)
  have m: "core m3 = core m2" "core m2 = core (m1\<lparr>rs_current_term := 0, rs_voted_for := - 1, rs_timeout_elapsed := 0,
       rs_request_timeout := 200, rs_election_timeout := 1000\<rparr>)" "core m1 = core (zero_server rnd al u)"
    using sh.new_keep [OF 2(4)] raft_randomize_core [OF 2(3)] raft_alloc_core [OF 2(1)] by simp_all
  then have "rs_commit_idx m3 = 0" "rs_last_applied_idx m3 = 0" "rs_snapshot_last_idx m3 = 0"
    by (simp_all add: core_def zero_server_def)
  moreover have "log_inv lg" "lg_base lg = 0" "log_get_current_idx lg = 0"
    using log_new_spec [of "srv_hooks (rs_cb m2)" m2 lg m3] 2(4,5) by (simp_all add: rl.last_idx_law)
  ultimately show ?case
    using 2(6)
    by (auto simp: raft_set_snapshot_metadata_def raft_set_state_def srv_inv_def raft_get_current_idx_def)
qed simp_all

lemma raft_new_inv: "raft_new rnd al u = Some (Some me) \<Longrightarrow> srv_inv me"
  by (drule yieldsD [OF _ raft_new_yields]) simp

lemma load_log_spec:
  assumes "log_inv l" "0 \<le> i" "log_load_from_snapshot lh i l s = (l', s')"
  shows "log_inv l' \<and> lg_base l' = i \<and> log_list l' = []"
  using assms by (auto simp: log_load_from_snapshot_def log_clear_def log_inv_def log_list_def)

definition loaded :: "raft_term_t \<Rightarrow> raft_index_t \<Rightarrow> 'u raft_server \<Rightarrow> 'u raft_server \<Rightarrow> bool" where
  "loaded t i me me' \<longleftrightarrow>
     rs_last_applied_idx me \<le> i \<and> raft_get_current_idx me \<le> i \<and>
     rs_current_term me' = t \<and> rs_voted_for me' = - 1 \<and> rs_state me' = RAFT_STATE_FOLLOWER \<and>
     log_inv (rs_log me') \<and> lg_base (rs_log me') = i \<and> raft_get_current_idx me' = i \<and>
     rs_commit_idx me' = i \<and> rs_last_applied_idx me' = i \<and>
     rs_snapshot_last_idx me' = i \<and> rs_saved_snapshot_last_idx me' = rs_snapshot_last_idx me"

lemma raft_begin_load_snapshot_yields:
  assumes "srv_inv me"
  shows "yields (\<lambda>r. if fst r = 0 then loaded t i me (snd r) else snd r = me) (raft_begin_load_snapshot t i me)"
proof (unfold raft_begin_load_snapshot_def, intro yields_rules, goal_cases)
  case (6 m0 m r lg m1 m2 m3 m4 m5 r2 k m6 x)
  have le: "0 \<le> i" "rs_commit_idx me \<le> i" "log_inv (rs_log me)"
    using 6(4) assms by (auto simp: srv_inv_def log_inv_def)
  have m: "rs_log m = rs_log me" "core m = core (me\<lparr>rs_current_term := t, rs_voted_for := - 1, rs_state := RAFT_STATE_FOLLOWER\<rparr>)"
    using 6(6,7) by (auto simp: raft_set_state_def core_def)
  have l: "log_load_from_snapshot (srv_hooks (rs_cb m)) i (rs_log m) m = (lg, m1)"
    using 6(8,9) by simp
  have lg: "log_inv lg" "lg_base lg = i" "log_get_current_idx lg = i"
    using load_log_spec [OF _ le(1) l] le(3) by (simp_all add: m rl.last_idx_law)
  have "core m1 = core m"
    using l sh.clear_entries_keep by (auto simp: log_load_from_snapshot_def)
  then have "core m3 = core (me\<lparr>rs_current_term := t, rs_voted_for := - 1, rs_state := RAFT_STATE_FOLLOWER,
      rs_log := lg, rs_commit_idx := i\<rparr>)"
    using 6(10,11) m(2) le(2) by (auto simp: raft_set_commit_idx_def bind_eq_Some_conv core_def split: if_splits)
  moreover have "core m6 = core m5" "m5 = raft_set_snapshot_metadata t i (m3\<lparr>rs_last_applied_idx := i\<rparr>)"
    using yieldsD [OF 6(14) load_nodes_yields] 6(12,13,15) by auto
  ultimately show ?case
    using 6(3,4) lg by (simp add: loaded_def core_def raft_set_snapshot_metadata_def raft_get_current_idx_def)
qed (simp_all add: RAFT_ERR_SNAPSHOT_ALREADY_LOADED_def)

lemmas raft_begin_load_snapshot_core = yieldsD [OF _ raft_begin_load_snapshot_yields]

lemma raft_begin_load_snapshot_inv:
  assumes "srv_inv me" "raft_begin_load_snapshot t i me = Some (e, me')"
  shows "srv_inv me'"
  using raft_begin_load_snapshot_core [OF assms(2,1)] assms(1) by (auto simp: srv_inv_def loaded_def split: if_splits)

section \<open>Properties\<close>


lemma raft_new_demo: "\<exists>me. raft_new [] [] () = Some (Some me) \<and> rs_state me = RAFT_STATE_FOLLOWER"
  by (simp add: raft_new_def zero_server_def raft_alloc_def raft_randomize_election_timeout_def log_new_def
      log_alloc_def srv_hooks_def raft_set_state_def raft_set_snapshot_metadata_def Let_def)



definition demo_vote :: "raft_node_id_t \<Rightarrow> msg_requestvote_t" where
  "demo_vote n = \<lparr>rv_term = 1, rv_candidate_id = n, rv_last_log_idx = 0, rv_last_log_term = 0\<rparr>"

definition demo_voted :: "unit raft_server" where
  "demo_voted = demo_server\<lparr>rs_current_term := 1, rs_voted_for := 2\<rparr>"

lemmas vote_eval = raft_recv_requestvote_def requestvote_handle_def requestvote_decide_def should_grant_vote_def
  my_node_is_voting_def raft_get_my_node_def raft_get_nodeid_def raft_set_current_term_def
  raft_become_follower_def raft_set_state_def raft_randomize_election_timeout_def raft_already_voted_def
  raft_vote_for_nodeid_def raft_is_leader_def raft_is_candidate_def raft_get_current_idx_def
  log_get_current_idx_def Let_def

lemma demo_server_votes:
  "raft_recv_requestvote (Some 1) (demo_vote 2) demo_server = Some (0, \<lparr>rvr_term = 1, rvr_vote_granted = 1\<rparr>, demo_voted)"
  by (simp add: vote_eval demo_defs demo_vote_def demo_voted_def)

lemma demo_voted_refuses:
  "\<exists>me'. raft_recv_requestvote (Some 2) (demo_vote 3) demo_voted = Some (0, \<lparr>rvr_term = 1, rvr_vote_granted = 0\<rparr>, me') \<and>
     rs_current_term me' = 1"
  by (simp add: vote_eval demo_defs demo_vote_def demo_voted_def)

lemma demo_voted_inv: "srv_inv demo_voted"
  using demo_server_inv by (simp add: demo_voted_def srv_inv_def raft_get_current_idx_def)


text \<open>(C14) Committed entries are never lost or replaced. Along every run the commit index does not go
  back, and an entry that was committed at the start is still found at its index as long as it
  has not been compacted into a snapshot.\<close>

theorem raft_committed_entries_stable:
  assumes "raft_run me me'" "srv_inv me"
  shows "rs_commit_idx me \<le> rs_commit_idx me' \<and>
    (\<forall>i. lg_base (rs_log me') < i \<longrightarrow> i \<le> rs_commit_idx me \<longrightarrow>
      raft_get_entry_from_idx i me' = raft_get_entry_from_idx i me \<and> raft_get_entry_from_idx i me' \<noteq> None)"
proof -
  have g: "good me me'"
    using raft_run_good [OF assms] .
  have "raft_get_entry_from_idx i me' \<noteq> None" if "lg_base (rs_log me') < i" "i \<le> rs_commit_idx me" for i
    using g that get_entry_iff [of me' i] by (auto simp: good_def evolves_def srv_inv_def)
  then show ?thesis
    using g by (simp add: good_def evolves_def)
qed

theorem raft_committed_entries_stable_witness:
  "\<exists>r me'. raft_recv_appendentries (Some 1) demo_ae demo_follower = Some (0, r, me') \<and>
     raft_get_entry_from_idx 1 me' = Some (demo_entry 1)"
proof -
  obtain r me' where a: "raft_recv_appendentries (Some 1) demo_ae demo_follower = Some (0, r, me')"
      and b: "lg_base (rs_log me') = 0"
    using demo_follower_accepts by blast
  have "lg_size (rs_log demo_follower) \<le> 2147483647"
    by (simp add: demo_defs)
  then have "raft_run demo_follower me'"
    using raft_run.intros raft_step.appendentries [OF _ a] by blast
  moreover have "raft_get_entry_from_idx 1 demo_follower = Some (demo_entry 1)" "rs_commit_idx demo_follower = 1"
    by (simp_all add: demo_defs raft_get_entry_from_idx_def log_get_at_idx_def)
  ultimately show ?thesis
    using a b raft_committed_entries_stable [OF _ demo_follower_inv, of me'] by auto
qed

lemma majority_iff: "raft_votes_is_majority n v \<longleftrightarrow> v \<le> n \<and> n < 2 * v"
  by (auto simp: raft_votes_is_majority_def Let_def)




definition demo_candidate :: "unit raft_server" where
  "demo_candidate = demo_server\<lparr>rs_current_term := 1, rs_voted_for := 1, rs_state := RAFT_STATE_CANDIDATE\<rparr>"

lemma vote_for_me_new [simp]:
  "raft_node_has_vote_for_me (raft_node_vote_for_me b nd) = b"
  by (rule fl_vote.is_on_turn)

lemma demo_candidate_wins:
  "\<exists>me'. raft_recv_requestvote_response (Some 1) \<lparr>rvr_term = 1, rvr_vote_granted = 1\<rparr> demo_candidate = Some (0, me') \<and>
     raft_is_leader me'"
  by (simp add: raft_recv_requestvote_response_def raft_is_candidate_def raft_is_leader_def upd_node_def
      requestvote_codes raft_get_nvotes_for_me_def raft_get_num_voting_nodes_def raft_get_nodeid_def majority_iff
      raft_become_leader_def raft_set_state_def leader_init_node_def raft_send_appendentries_def
      raft_node_set_next_idx_def raft_node_set_match_idx_def raft_get_current_idx_def
      demo_candidate_def demo_defs)


text \<open>(C19) Loading a snapshot installs it completely: the log is empty and starts after the snapshot,
  which is committed and applied. The term becomes the term of the snapshot and the vote is
  forgotten, whatever they were, so a server that is in a later term goes back and can vote
  again in terms it has voted in.\<close>

theorem load_snapshot_overwrites_term:
  assumes "srv_inv me" "raft_begin_load_snapshot t i me = Some (0, me')"
  shows "rs_current_term me' = t \<and> rs_voted_for me' = - 1 \<and> rs_state me' = RAFT_STATE_FOLLOWER \<and>
    raft_get_current_idx me' = i \<and> rs_commit_idx me' = i \<and> rs_last_applied_idx me' = i \<and>
    raft_get_current_idx me \<le> i \<and> (\<forall>k. raft_get_entry_from_idx k me' = None)"
proof -
  have l: "loaded t i me me'"
    using raft_begin_load_snapshot_core [OF assms(2,1)] by simp
  have "raft_get_entry_from_idx k me' = None" for k
    using l get_entry_iff [OF raft_begin_load_snapshot_inv [OF assms]] by (auto simp: loaded_def)
  then show ?thesis
    using l by (simp add: loaded_def)
qed

lemma demo_load: "\<exists>me'. raft_begin_load_snapshot 3 7 (demo_follower\<lparr>rs_current_term := 5\<rparr>) = Some (0, me')"
  by (simp add: raft_begin_load_snapshot_def log_load_from_snapshot_def log_clear_entries_def log_clear_def
      raft_set_state_def srv_hooks_def raft_set_commit_idx_def raft_set_snapshot_metadata_def
      raft_get_current_idx_def log_get_current_idx_def raft_get_nodeid_def upd_node_def demo_defs)

theorem load_snapshot_overwrites_term_witness:
  "\<exists>me'. raft_begin_load_snapshot 3 7 (demo_follower\<lparr>rs_current_term := 5\<rparr>) = Some (0, me') \<and>
     rs_current_term me' < rs_current_term (demo_follower\<lparr>rs_current_term := 5\<rparr>)"
proof -
  obtain me' where a: "raft_begin_load_snapshot 3 7 (demo_follower\<lparr>rs_current_term := 5\<rparr>) = Some (0, me')"
    using demo_load by blast
  have "srv_inv (demo_follower\<lparr>rs_current_term := 5\<rparr>)"
    using demo_follower_inv by (simp add: srv_inv_def raft_get_current_idx_def)
  then show ?thesis
    using load_snapshot_overwrites_term [OF _ a] a by auto
qed

lemma call_applylog_result:
  assumes "\<forall>f ety i u. cb_applylog (rs_cb me) = Some f \<longrightarrow> fst (f ety i u) \<noteq> RAFT_ERR_SHUTDOWN"
  shows "\<exists>e m. call_applylog ety me = (e, m) \<and> e \<noteq> RAFT_ERR_SHUTDOWN \<and>
    rs_voting_cfg_change_log_idx m = rs_voting_cfg_change_log_idx me"
  using assms
  by (auto simp: call_applylog_def with_udata_def Let_def case_prod_beta RAFT_ERR_SHUTDOWN_def split: option.split)

lemma raft_apply_entry_normal:
  assumes "srv_inv me" "raft_is_apply_allowed me" "rs_last_applied_idx me < rs_commit_idx me"
    and "\<forall>ety. raft_get_entry_from_idx (rs_last_applied_idx me + 1) me = Some ety \<longrightarrow> \<not> raft_entry_is_cfg_change ety"
    and "\<forall>f ety i u. cb_applylog (rs_cb me) = Some f \<longrightarrow> fst (f ety i u) \<noteq> RAFT_ERR_SHUTDOWN"
  shows "\<exists>me'. raft_apply_entry me = Some (0, me') \<and> rs_snapshot_flags me' = rs_snapshot_flags me"
proof -
  obtain ety where ety: "raft_get_entry_from_idx (rs_last_applied_idx me + 1) me = Some ety"
    using assms(1,3) get_entry_iff [OF assms(1), of "rs_last_applied_idx me + 1"] by (force simp: srv_inv_def)
  let ?m = "me\<lparr>rs_last_applied_idx := rs_last_applied_idx me + 1\<rparr>"
  obtain e m where c: "call_applylog ety ?m = (e, m)" "e \<noteq> RAFT_ERR_SHUTDOWN"
    using call_applylog_result [of ?m ety] assms(5) by auto
  have "rs_snapshot_flags m = rs_snapshot_flags me"
    using c(1) by (auto simp: call_applylog_def with_udata_def Let_def case_prod_beta split: option.splits)
  then show ?thesis
    using assms(2,3,4) ety c by (auto simp: raft_apply_entry_def)
qed





subsection \<open>The index of a pending voting change\<close>

text \<open>What the log's notifications do not touch besides the protocol state: the index of the pending
  voting change.\<close>

abbreviation vcfg :: "'u raft_server \<Rightarrow> raft_index_t" where
  "vcfg \<equiv> rs_voting_cfg_change_log_idx"

lemma node_vcfg:
  "upd_node p f me = Some me' \<Longrightarrow> vcfg me' = vcfg me"
  "set_node_voting p b me = Some me' \<Longrightarrow> vcfg me' = vcfg me"
  "cb_node_id ety idx me = Some (n, me') \<Longrightarrow> vcfg me' = vcfg me"
  "raft_alloc me = (c, me') \<Longrightarrow> vcfg me' = vcfg me"
  by (auto simp: upd_node_def set_node_voting_def cb_node_id_def raft_alloc_def bind_eq_Some_conv Let_def
      case_prod_beta split: list.splits)

lemma notify_vcfg [simp]: "vcfg (notify_membership n e t me) = vcfg me"
  by (simp add: notify_membership_def split: option.split)

lemma remove_vcfg: "raft_remove_node q me = Some me' \<Longrightarrow> vcfg me' = vcfg me"
  by (auto simp: raft_remove_node_def bind_eq_Some_conv Let_def)

lemma add_node_vcfg: "yields (\<lambda>r. vcfg (snd r) = vcfg me) (raft_add_node_internal ety u i slf me)"
  by (unfold raft_add_node_internal_def, intro yields_rules) (auto dest!: node_vcfg)

lemma add_non_voting_vcfg: "yields (\<lambda>r. vcfg (snd r) = vcfg me) (raft_add_non_voting_node_internal ety u i slf me)"
  by (unfold raft_add_non_voting_node_internal_def, intro yields_rules)
    (auto dest!: node_vcfg yieldsD [OF _ add_node_vcfg])

lemma offer_vcfg: "yields (\<lambda>m. vcfg m = vcfg me) (raft_offer_log ety i me)"
  by (unfold raft_offer_log_def, intro yields_rules)
    (auto simp: yields_def dest!: node_vcfg yieldsD [OF _ add_node_vcfg] yieldsD [OF _ add_non_voting_vcfg])

lemma pop_vcfg: "yields (\<lambda>m. vcfg m = vcfg me) (raft_pop_log ety i me)"
  by (unfold raft_pop_log_def, intro yields_rules) (auto simp: yields_def dest!: node_vcfg remove_vcfg)

interpretation shv: hooks_frame vcfg "srv_hooks cb" for cb :: "'u raft_cbs_t"
  by unfold_locales
    (auto simp: srv_hooks_def with_udata_def node_vcfg(4) yieldsD [OF _ offer_vcfg] yieldsD [OF _ pop_vcfg]
      Let_def split: prod.splits)

text \<open>(C22) A follower records a voting change at the wrong index. \<^verbatim>\<open>raft_append_entry\<close> sets
  \<^verbatim>\<open>voting_cfg_change_log_idx\<close> before it appends, so after a voting change has been stored at index
  \<open>n\<close> the recorded index is \<open>n - 1\<close>. (The leader corrects it in \<^verbatim>\<open>raft_recv_entry\<close>; a follower does
  not, so applying the entry before the change ends the change.)\<close>

theorem append_voting_change_records_previous_index:
  assumes "srv_inv me" "raft_entry_is_voting_cfg_change ety" "raft_append_entry ety me = Some (0, me')"
  shows "rs_voting_cfg_change_log_idx me' = raft_get_current_idx me' - 1"
proof -
  let ?m = "me\<lparr>rs_voting_cfg_change_log_idx := raft_get_current_idx me\<rparr>"
  obtain lg m where a: "log_append_entry (srv_hooks (rs_cb ?m)) ety (rs_log ?m) ?m = Some (0, lg, m)" "me' = m\<lparr>rs_log := lg\<rparr>"
    using assms(2,3) by (auto simp: raft_append_entry_def bind_eq_Some_conv Let_def)
  have "vcfg me' = raft_get_current_idx me"
    using shv.append_keep [OF a(1)] a(2) by simp
  then show ?thesis
    using raft_append_entry_spec(2) [OF assms(1,3)] by simp
qed

lemma demo_append: "\<exists>me'. raft_append_entry (demo_entry 1\<lparr>ety_type := RAFT_LOGTYPE_ADD_NODE\<rparr>) demo_follower = Some (0, me')"
  by (rule raft_append_entry_room [OF demo_follower_inv]) (simp_all add: demo_defs)

theorem append_voting_change_records_previous_index_witness:
  "\<exists>me'. raft_append_entry (demo_entry 1\<lparr>ety_type := RAFT_LOGTYPE_ADD_NODE\<rparr>) demo_follower = Some (0, me') \<and>
     rs_voting_cfg_change_log_idx me' = raft_get_current_idx me' - 1"
proof -
  obtain me' where a: "raft_append_entry (demo_entry 1\<lparr>ety_type := RAFT_LOGTYPE_ADD_NODE\<rparr>) demo_follower = Some (0, me')"
    using demo_append by blast
  have "raft_entry_is_voting_cfg_change (demo_entry 1\<lparr>ety_type := RAFT_LOGTYPE_ADD_NODE\<rparr>)"
    by (simp add: raft_entry_is_voting_cfg_change_def)
  then show ?thesis
    using append_voting_change_records_previous_index [OF demo_follower_inv _ a] a by blast
qed

end
