(* ===== verification/Timely.thy ===== *)
theory Timely
  imports Math_Utils Complex_Main
begin

section \<open>Timely congestion control\<close>

text \<open>
  Model of \<^verbatim>\<open>class Timely\<close> (src/src/cc/timely.h) with the parameters of
  src/src/cc/timely_sweep_params.h. Doubles are real numbers; time stamps are \<^verbatim>\<open>size_t\<close>, so their
  difference wraps. Recording and latency statistics are disabled in the source and left out.
\<close>

definition to_usec :: "nat \<Rightarrow> real \<Rightarrow> real" where
  "to_usec cycles freq_ghz = real cycles / (freq_ghz * 1000)"

definition kPatched :: bool where
  "kPatched = False"

definition kEwmaAlpha :: real where
  "kEwmaAlpha = 46 / 100"

definition kBeta :: real where
  "kBeta = 26 / 100"

definition kMinRate :: real where
  "kMinRate = 15 * 1000 * 1000"

definition kAddRate :: real where
  "kAddRate = 5 * 1000 * 1000"

definition kMinRTT :: real where
  "kMinRTT = 2"

definition kTLow :: real where
  "kTLow = 50"

definition kTHigh :: real where
  "kTHigh = 1000"

definition kHaiThresh :: nat where
  "kHaiThresh = 5"

record timely =
  ty_rate :: real
  ty_neg_gradient_count :: nat
  ty_prev_rtt :: real
  ty_avg_rtt_diff :: real
  ty_last_update_tsc :: nat
  ty_min_rtt_tsc :: real
  ty_t_low_tsc :: real
  ty_freq_ghz :: real
  ty_link_bandwidth :: real

definition Timely_new :: "real \<Rightarrow> real \<Rightarrow> nat \<Rightarrow> timely" where
  "Timely_new freq_ghz link_bandwidth now =
    \<lparr>ty_rate = link_bandwidth, ty_neg_gradient_count = 0, ty_prev_rtt = kMinRTT, ty_avg_rtt_diff = 0,
     ty_last_update_tsc = now, ty_min_rtt_tsc = kMinRTT * freq_ghz * 1000, ty_t_low_tsc = kTLow * freq_ghz * 1000,
     ty_freq_ghz = freq_ghz, ty_link_bandwidth = link_bandwidth\<rparr>"

definition w_func :: "real \<Rightarrow> real" where
  "w_func g = (if g \<le> - (1 / 4) then 0 else if 1 / 4 \<le> g then 1 else 2 * g + 1 / 2)"

text \<open>The rate computed from an RTT sample, before it is clamped. \<open>d\<close> is the scaled time since the last
  update.\<close>

definition sampled_rate :: "real \<Rightarrow> real \<Rightarrow> timely \<Rightarrow> real" where
  "sampled_rate d sample_rtt t =
    (let ai_factor = kAddRate * d in
     if sample_rtt < kTLow then ty_rate t + ai_factor
     else
       let md_factor = d * kBeta;
           norm_grad = ty_avg_rtt_diff t / kMinRTT
       in if sample_rtt \<le> kTHigh then
            (if kPatched then
               let wght = w_func norm_grad; err = (sample_rtt - kTLow) / kTLow
               in ty_rate t * (1 - md_factor * wght * err) + ai_factor * (1 - wght)
             else if norm_grad \<le> 0 then
               ty_rate t + (if kHaiThresh \<le> ty_neg_gradient_count t then 5 else 1) * ai_factor
             else ty_rate t * (1 - md_factor * norm_grad))
          else ty_rate t * (1 - md_factor * (1 - kTHigh / sample_rtt)))"

definition clamp_rate :: "real \<Rightarrow> timely \<Rightarrow> real" where
  "clamp_rate new_rate t = max (min (max new_rate (ty_rate t / 2)) (ty_link_bandwidth t)) kMinRate"

definition note_rtt :: "real \<Rightarrow> timely \<Rightarrow> timely" where
  "note_rtt sample_rtt t =
    (let rtt_diff = sample_rtt - ty_prev_rtt t
     in t\<lparr>ty_neg_gradient_count := (if rtt_diff < 0 then ty_neg_gradient_count t + 1 else 0),
           ty_avg_rtt_diff := (1 - kEwmaAlpha) * ty_avg_rtt_diff t + kEwmaAlpha * rtt_diff\<rparr>)"

definition update_rate :: "bool \<Rightarrow> nat \<Rightarrow> nat \<Rightarrow> timely \<Rightarrow> timely option" where
  "update_rate dbg now sample_rtt_tsc t = do {
     dassert dbg (1000000000 \<le> now \<and> ty_last_update_tsc t \<le> now);
     if ty_rate t = ty_link_bandwidth t \<and> real sample_rtt_tsc \<le> ty_t_low_tsc t then Some t
     else if real sample_rtt_tsc < ty_min_rtt_tsc t then Some t
     else
       let sample_rtt = to_usec sample_rtt_tsc (ty_freq_ghz t);
           t = note_rtt sample_rtt t;
           d = min (real (sz_sub now (ty_last_update_tsc t)) / ty_min_rtt_tsc t) 1
       in Some (t\<lparr>ty_rate := clamp_rate (sampled_rate d sample_rtt t) t, ty_prev_rtt := sample_rtt,
                  ty_last_update_tsc := now\<rparr>)
   }"

definition rate_to_gbps :: "real \<Rightarrow> real" where
  "rate_to_gbps r = (r / (1000 * 1000 * 1000)) * 8"

definition gbps_to_rate :: "real \<Rightarrow> real" where
  "gbps_to_rate r = (r / 8) * (1000 * 1000 * 1000)"

subsection \<open>Rate bounds\<close>

definition timely_ok :: "timely \<Rightarrow> bool" where
  "timely_ok t \<longleftrightarrow> 0 < ty_min_rtt_tsc t \<and> kMinRate \<le> ty_rate t \<and> ty_rate t \<le> ty_link_bandwidth t"

lemma Timely_new_ok: "0 < freq \<Longrightarrow> kMinRate \<le> bw \<Longrightarrow> timely_ok (Timely_new freq bw now)"
  by (simp add: timely_ok_def Timely_new_def kMinRTT_def)

lemma sampled_rate_le:
  assumes "0 \<le> d" "d \<le> 1" "0 \<le> ty_rate t"
  shows "sampled_rate d rtt t \<le> ty_rate t + 5 * kAddRate"
proof -
  have dec: "ty_rate t * (1 - x) \<le> ty_rate t" if "0 \<le> x" for x
    using assms(3) that by (simp add: mult_left_le)
  have inc: "kAddRate * d \<le> kAddRate" "0 \<le> kAddRate"
    using assms(1,2) by (simp_all add: kAddRate_def)
  consider "rtt < kTLow" | "kTLow \<le> rtt" "rtt \<le> kTHigh" "ty_avg_rtt_diff t / kMinRTT \<le> 0"
    | "kTLow \<le> rtt" "rtt \<le> kTHigh" "0 < ty_avg_rtt_diff t / kMinRTT" | "kTLow \<le> rtt" "kTHigh < rtt"
    by linarith
  then show ?thesis
  proof cases
    case 1
    then show ?thesis
      using inc by (simp add: sampled_rate_def Let_def)
  next
    case 2
    then show ?thesis
      using inc by (simp add: sampled_rate_def Let_def kPatched_def)
  next
    case 3
    then have "0 \<le> d * kBeta * (ty_avg_rtt_diff t / kMinRTT)"
      using assms(1) by (simp add: kBeta_def kMinRTT_def)
    then show ?thesis
      using 3 inc dec [of "d * kBeta * (ty_avg_rtt_diff t / kMinRTT)"] by (simp add: sampled_rate_def Let_def kPatched_def)
  next
    case 4
    then have "0 \<le> d * kBeta * (1 - kTHigh / rtt)"
      using assms(1) by (simp add: kBeta_def kTHigh_def)
    then show ?thesis
      using 4 inc dec [of "d * kBeta * (1 - kTHigh / rtt)"] by (simp add: sampled_rate_def Let_def)
  qed
qed

lemma note_rtt_simps [simp]:
  "ty_rate (note_rtt r t) = ty_rate t" "ty_link_bandwidth (note_rtt r t) = ty_link_bandwidth t"
  "ty_min_rtt_tsc (note_rtt r t) = ty_min_rtt_tsc t" "ty_last_update_tsc (note_rtt r t) = ty_last_update_tsc t"
  by (simp_all add: note_rtt_def Let_def)

text \<open>(C32) From a state in which the sending rate is between 15 MB/s and the link bandwidth, a rate update
  keeps it there; it at most halves the rate and at most adds 25 MB/s to it.\<close>

theorem update_rate_bounds:
  assumes "timely_ok t" "update_rate dbg now rtt t = Some t'"
  shows "timely_ok t' \<and> ty_link_bandwidth t' = ty_link_bandwidth t \<and> ty_rate t / 2 \<le> ty_rate t' \<and> ty_rate t' \<le> ty_rate t + 25 * 1000 * 1000"
proof -
  have pos: "0 < kMinRate"
    by (simp add: kMinRate_def)
  show ?thesis
  proof (cases "t' = t")
    case False
    let ?r = "to_usec rtt (ty_freq_ghz t)"
    let ?d = "min (real (sz_sub now (ty_last_update_tsc t)) / ty_min_rtt_tsc t) 1"
    let ?t1 = "note_rtt ?r t"
    have t': "t' = ?t1\<lparr>ty_rate := clamp_rate (sampled_rate ?d ?r ?t1) ?t1, ty_prev_rtt := ?r, ty_last_update_tsc := now\<rparr>"
      using assms(2) False by (simp add: update_rate_def Let_def bind_eq_Some_conv split: if_splits)
    have "sampled_rate ?d ?r ?t1 \<le> ty_rate t + 25 * 1000 * 1000"
      using sampled_rate_le [of ?d ?t1 ?r] assms(1) pos by (simp add: timely_ok_def kAddRate_def)
    then show ?thesis
      using assms(1) pos unfolding t' by (auto simp: clamp_rate_def timely_ok_def)
  qed (use assms pos in \<open>simp add: timely_ok_def\<close>)
qed

lemma update_rate_returns: "1000000000 \<le> now \<Longrightarrow> ty_last_update_tsc t \<le> now \<Longrightarrow> \<exists>t'. update_rate dbg now rtt t = Some t'"
  by (simp add: update_rate_def Let_def)

theorem update_rate_bounds_witness:
  "\<exists>t'. update_rate True 2000000000 3000000 (Timely_new 2 1000000000 1000000000) = Some t' \<and>
      timely_ok t' \<and> 500000000 \<le> ty_rate t' \<and> ty_rate t' \<le> 1000000000"
proof -
  let ?t = "Timely_new 2 1000000000 1000000000"
  have ok: "timely_ok ?t"
    by (rule Timely_new_ok) (simp_all add: kMinRate_def)
  obtain t' where t': "update_rate True 2000000000 3000000 ?t = Some t'"
    using update_rate_returns [of 2000000000 ?t] by (auto simp: Timely_new_def)
  show ?thesis
    using update_rate_bounds [OF ok t'] t' by (auto simp: timely_ok_def Timely_new_def)
qed

end
