(* ===== verification/Uri.thy ===== *)
theory Uri
  imports Math_Utils
begin

section \<open>Uniform resource identifiers of processes\<close>

text \<open>
  Model of the string helpers behind session management: \<^verbatim>\<open>split\<close>, \<^verbatim>\<open>is_valid_uri\<close> and the two
  \<^verbatim>\<open>extract\<close> functions (src/src/util/autorun_helpers.h), \<^verbatim>\<open>trim_hostname\<close> (src/src/common.h) and
  the decimal printing and parsing of the C++ library they use (\<^verbatim>\<open>std::to_string\<close>,
  \<^verbatim>\<open>std::stoi\<close>). A thrown exception is \<open>None\<close>.
\<close>

subsection \<open>Decimal numbers\<close>

definition digit_char :: "nat \<Rightarrow> char" where
  "digit_char n = char_of (48 + n)"

fun to_string :: "nat \<Rightarrow> string" where
  "to_string n = (if n < 10 then [digit_char n] else to_string (n div 10) @ [digit_char (n mod 10)])"

declare to_string.simps [simp del]

definition is_digit :: "char \<Rightarrow> bool" where
  "is_digit c \<longleftrightarrow> 48 \<le> (of_char c :: nat) \<and> (of_char c :: nat) \<le> 57"

definition is_space :: "char \<Rightarrow> bool" where
  "is_space c \<longleftrightarrow> (of_char c :: nat) \<in> {9, 10, 11, 12, 13, 32}"

definition digits_value :: "string \<Rightarrow> nat" where
  "digits_value s = foldl (\<lambda>v c. v * 10 + (of_char c - 48)) 0 s"

definition stoi :: "string \<Rightarrow> int option" where
  "stoi s =
    (let s = dropWhile is_space s;
         (neg, s) = (case s of c # t \<Rightarrow> if c = CHR ''-'' then (True, t) else if c = CHR ''+'' then (False, t) else (False, s)
                     | [] \<Rightarrow> (False, s));
         ds = takeWhile is_digit s;
         v = (if neg then - int (digits_value ds) else int (digits_value ds))
     in if ds = [] \<or> v < - (2 ^ 31) \<or> 2 ^ 31 \<le> v then None else Some v)"

subsection \<open>URIs\<close>

fun split_on :: "char \<Rightarrow> string \<Rightarrow> string list" where
  "split_on d [] = []"
| "split_on d (c # s) =
    (if c = d then [] # split_on d s
     else case split_on d s of
       [] \<Rightarrow> [[c]]
     | t # ts \<Rightarrow> (if s \<noteq> [] \<and> hd s = d then [c] # ts else (c # t) # ts))"

definition is_valid_uri :: "string \<Rightarrow> bool" where
  "is_valid_uri uri =
    (let splits = split_on (CHR '':'') uri
     in length splits = 2 \<and> 0 < length (splits ! 0) \<and> 0 < length (splits ! 1))"

definition extract_hostname_from_uri :: "bool \<Rightarrow> string \<Rightarrow> string option" where
  "extract_hostname_from_uri dbg uri = do {
     dassert dbg (is_valid_uri uri);
     Some (takeWhile (\<lambda>c. c \<noteq> CHR '':'') uri)
   }"

text \<open>Without a colon \<^verbatim>\<open>find\<close> returns \<^verbatim>\<open>npos\<close> and \<^verbatim>\<open>npos + 1\<close> is 0.\<close>

definition after_colon :: "string \<Rightarrow> string" where
  "after_colon uri = (if CHR '':'' \<in> set uri then tl (dropWhile (\<lambda>c. c \<noteq> CHR '':'') uri) else uri)"

definition extract_udp_port_from_uri :: "bool \<Rightarrow> string \<Rightarrow> nat option" where
  "extract_udp_port_from_uri dbg uri = do {
     dassert dbg (is_valid_uri uri);
     v \<leftarrow> stoi (after_colon uri);
     Some (nat (v mod 65536))
   }"

definition split_uri :: "bool \<Rightarrow> string \<Rightarrow> (string \<times> nat) option" where
  "split_uri dbg uri = do {
     dassert dbg (is_valid_uri uri);
     v \<leftarrow> stoi (after_colon uri);
     Some (takeWhile (\<lambda>c. c \<noteq> CHR '':'') uri, nat (v mod 65536))
   }"

fun has_substr :: "string \<Rightarrow> string \<Rightarrow> bool" where
  "has_substr p [] \<longleftrightarrow> p = []"
| "has_substr p (c # s) \<longleftrightarrow> take (length p) (c # s) = p \<or> has_substr p s"

definition trim_hostname :: "string \<Rightarrow> string" where
  "trim_hostname hostname =
    (if has_substr ''akalia'' hostname then takeWhile (\<lambda>c. c \<noteq> CHR ''.'') hostname else hostname)"

subsection \<open>Printing and parsing\<close>

lemma digit_char_is_digit [simp]: "d < 10 \<Longrightarrow> is_digit (digit_char d)"
  by (simp add: is_digit_def digit_char_def)

lemma digit_char_value [simp]: "d < 10 \<Longrightarrow> of_char (digit_char d) - (48 :: nat) = d"
  by (simp add: digit_char_def)

lemma to_string_digits: "c \<in> set (to_string n) \<Longrightarrow> is_digit c"
proof (induction n rule: to_string.induct)
  case (1 n)
  then show ?case
    by (subst (asm) (2) to_string.simps) (auto split: if_splits)
qed

lemma to_string_ne [simp]: "to_string n \<noteq> []"
  by (subst to_string.simps) simp

lemma digits_value_to_string: "digits_value (to_string n) = n"
proof (induction n rule: to_string.induct)
  case (1 n)
  show ?case
  proof (cases "n < 10")
    case False
    then show ?thesis
      using 1 by (subst to_string.simps) (simp add: digits_value_def)
  qed (subst to_string.simps, simp add: digits_value_def)
qed

lemma is_digit_not [simp]: "is_digit c \<Longrightarrow> \<not> is_space c" "\<not> is_digit CHR ''-''" "\<not> is_digit CHR ''+''" "\<not> is_digit CHR '':''"
  by (auto simp: is_digit_def is_space_def)

lemma stoi_to_string:
  assumes "n < 2 ^ 31"
  shows "stoi (to_string n) = Some (int n)"
proof -
  obtain c t where ct: "to_string n = c # t"
    by (cases "to_string n") auto
  have d: "\<forall>c \<in> set (to_string n). is_digit c"
    using to_string_digits by blast
  then have "dropWhile is_space (to_string n) = to_string n" "takeWhile is_digit (to_string n) = to_string n"
    "c \<noteq> CHR ''-''" "c \<noteq> CHR ''+''"
    by (auto simp: ct takeWhile_eq_all_conv)
  moreover have "int n < 2 ^ 31"
    using assms by (metis of_nat_less_iff of_nat_numeral of_nat_power)
  ultimately show ?thesis
    using digits_value_to_string [of n] by (simp add: stoi_def Let_def ct)
qed

lemma split_on_no_delim: "d \<notin> set s \<Longrightarrow> s \<noteq> [] \<Longrightarrow> split_on d s = [s]"
proof (induction s)
  case (Cons c s)
  then show ?case
    by (cases s) auto
qed simp

lemma split_on_two:
  assumes "d \<notin> set h" "h \<noteq> []" "d \<notin> set p" "p \<noteq> []"
  shows "split_on d (h @ d # p) = [h, p]"
  using assms(1,2)
proof (induction h)
  case (Cons c h)
  then show ?case
    using split_on_no_delim [OF assms(3,4)] by (cases h) auto
qed simp

end
