(* ===== verification/Sm_Types.thy ===== *)
theory Sm_Types
  imports Uri
begin

section \<open>Session management packets\<close>

text \<open>
  Model of src/src/sm_types.h: the states of a session, the packets of the session management
  protocol and the endpoints they carry. Enumerations are datatypes, so a value outside an
  enumeration, which the code would reject, does not occur. Routing information is an opaque array
  of bytes. \<^verbatim>\<open>strcpy\<close> into the 128-byte host name is undefined when the terminating zero does not
  fit.
\<close>

datatype session_state = St_ConnectInProgress | St_Connected | St_DisconnectInProgress | St_ResetInProgress

datatype sm_pkt_type = Sm_Unblock | Sm_PingReq | Sm_PingResp | Sm_ConnectReq | Sm_ConnectResp | Sm_DisconnectReq | Sm_DisconnectResp

datatype sm_err_type = Err_NoError | Err_SrvDisconnected | Err_RingExhausted | Err_OutOfMemory
  | Err_RoutingResolutionFailure | Err_InvalidRemoteRpcId | Err_InvalidTransport

datatype sm_event_type = Ev_Connected | Ev_ConnectFailed | Ev_Disconnected | Ev_DisconnectFailed

datatype transport_type = Tr_InfiniBand | Tr_Raw | Tr_DPDK | Tr_Fake | Tr_Invalid

definition kSessionCredits :: nat where
  "kSessionCredits = 32"

definition kSessionReqWindow :: nat where
  "kSessionReqWindow = 32"

definition kInvalidSessionNum :: nat where
  "kInvalidSessionNum = 65535"

definition kMaxRpcId :: nat where
  "kMaxRpcId = 254"

definition kInvalidRpcId :: nat where
  "kInvalidRpcId = kMaxRpcId + 1"

definition kMaxHostnameLen :: nat where
  "kMaxHostnameLen = 128"

subsection \<open>Packet types\<close>

fun session_state_str :: "session_state \<Rightarrow> string" where
  "session_state_str St_ConnectInProgress = ''[Connect in progress]''"
| "session_state_str St_Connected = ''[Connected]''"
| "session_state_str St_DisconnectInProgress = ''[Disconnect in progress]''"
| "session_state_str St_ResetInProgress = ''[Reset in progress]''"

fun sm_pkt_type_str :: "sm_pkt_type \<Rightarrow> string" where
  "sm_pkt_type_str Sm_Unblock = ''[Unblock SM thread request]''"
| "sm_pkt_type_str Sm_PingReq = ''[Heartbeat ping request]''"
| "sm_pkt_type_str Sm_PingResp = ''[Heartbeat ping response]''"
| "sm_pkt_type_str Sm_ConnectReq = ''[Connect request]''"
| "sm_pkt_type_str Sm_ConnectResp = ''[Connect response]''"
| "sm_pkt_type_str Sm_DisconnectReq = ''[Disconnect request]''"
| "sm_pkt_type_str Sm_DisconnectResp = ''[Disconnect response]''"

fun sm_pkt_type_is_req :: "sm_pkt_type \<Rightarrow> bool" where
  "sm_pkt_type_is_req Sm_PingReq = True"
| "sm_pkt_type_is_req Sm_ConnectReq = True"
| "sm_pkt_type_is_req Sm_DisconnectReq = True"
| "sm_pkt_type_is_req Sm_PingResp = False"
| "sm_pkt_type_is_req Sm_Unblock = False"
| "sm_pkt_type_is_req Sm_ConnectResp = False"
| "sm_pkt_type_is_req Sm_DisconnectResp = False"

fun sm_pkt_type_req_to_resp :: "sm_pkt_type \<Rightarrow> sm_pkt_type option" where
  "sm_pkt_type_req_to_resp Sm_PingReq = Some Sm_PingResp"
| "sm_pkt_type_req_to_resp Sm_ConnectReq = Some Sm_ConnectResp"
| "sm_pkt_type_req_to_resp Sm_DisconnectReq = Some Sm_DisconnectResp"
| "sm_pkt_type_req_to_resp Sm_PingResp = None"
| "sm_pkt_type_req_to_resp Sm_Unblock = None"
| "sm_pkt_type_req_to_resp Sm_ConnectResp = None"
| "sm_pkt_type_req_to_resp Sm_DisconnectResp = None"

fun sm_err_type_str :: "sm_err_type \<Rightarrow> string" where
  "sm_err_type_str Err_NoError = ''[No error]''"
| "sm_err_type_str Err_SrvDisconnected = ''[Server disconnected]''"
| "sm_err_type_str Err_RingExhausted = ''[Ring buffers exhausted]''"
| "sm_err_type_str Err_OutOfMemory = ''[Out of memory]''"
| "sm_err_type_str Err_RoutingResolutionFailure = ''[Routing resolution failure]''"
| "sm_err_type_str Err_InvalidRemoteRpcId = ''[Invalid remote Rpc ID]''"
| "sm_err_type_str Err_InvalidTransport = ''[Invalid transport]''"

fun sm_event_type_str :: "sm_event_type \<Rightarrow> string" where
  "sm_event_type_str Ev_Connected = ''[Connected]''"
| "sm_event_type_str Ev_ConnectFailed = ''[Connect failed]''"
| "sm_event_type_str Ev_Disconnected = ''[Disconnected]''"
| "sm_event_type_str Ev_DisconnectFailed = ''[kDisconnect failed]''"

subsection \<open>Endpoints\<close>

type_synonym rinfo = "u8 list"

record session_endpoint =
  ep_transport_type :: transport_type
  ep_hostname :: string
  ep_sm_udp_port :: nat
  ep_rpc_id :: nat
  ep_session_num :: nat
  ep_routing_info :: rinfo

text \<open>The constructor leaves the transport type uninitialised.\<close>

definition SessionEndpoint_new :: "transport_type \<Rightarrow> session_endpoint" where
  "SessionEndpoint_new t =
    \<lparr>ep_transport_type = t, ep_hostname = '''', ep_sm_udp_port = 0, ep_rpc_id = kInvalidRpcId,
     ep_session_num = kInvalidSessionNum, ep_routing_info = replicate 48 0\<rparr>"

definition strcpy_hostname :: "string \<Rightarrow> session_endpoint \<Rightarrow> session_endpoint option" where
  "strcpy_hostname s e = do {
     cassert (length s + 1 \<le> kMaxHostnameLen);
     Some (e\<lparr>ep_hostname := s\<rparr>)
   }"

definition ep_uri :: "session_endpoint \<Rightarrow> string" where
  "ep_uri e = ep_hostname e @ '':'' @ to_string (ep_sm_udp_port e)"

definition ep_name :: "session_endpoint \<Rightarrow> string" where
  "ep_name e =
    (let session_num_str = (if ep_session_num e = kInvalidSessionNum then ''XX'' else to_string (ep_session_num e))
     in ''[H: '' @ trim_hostname (ep_hostname e) @ '':'' @ to_string (ep_sm_udp_port e) @ '', R: '' @
        to_string (ep_rpc_id e) @ '', S: '' @ session_num_str @ '']'')"

definition ep_rpc_name :: "session_endpoint \<Rightarrow> string" where
  "ep_rpc_name e =
    ''[H: '' @ trim_hostname (ep_hostname e) @ '':'' @ to_string (ep_sm_udp_port e) @ '', R: '' @ to_string (ep_rpc_id e) @ '']''"

text \<open>\<^verbatim>\<open>operator==\<close>, which leaves the routing information out.\<close>

definition endpoint_eq :: "session_endpoint \<Rightarrow> session_endpoint \<Rightarrow> bool" where
  "endpoint_eq e f \<longleftrightarrow> ep_transport_type e = ep_transport_type f \<and> ep_hostname e = ep_hostname f \<and>
     ep_sm_udp_port e = ep_sm_udp_port f \<and> ep_rpc_id e = ep_rpc_id f \<and> ep_session_num e = ep_session_num f"

lemma endpoint_eq_refl [simp]: "endpoint_eq e e"
  by (simp add: endpoint_eq_def)

lemma endpoint_eq_routing [simp]: "endpoint_eq (e\<lparr>ep_routing_info := r\<rparr>) f = endpoint_eq e f"
  "endpoint_eq e (f\<lparr>ep_routing_info := r\<rparr>) = endpoint_eq e f"
  by (simp_all add: endpoint_eq_def)

subsection \<open>Packets\<close>

record sm_pkt =
  sp_pkt_type :: sm_pkt_type
  sp_err_type :: sm_err_type
  sp_uniq_token :: nat
  sp_client :: session_endpoint
  sp_server :: session_endpoint

definition sp_to_string :: "sm_pkt \<Rightarrow> string" where
  "sp_to_string p =
    (if sp_pkt_type p \<noteq> Sm_Unblock
     then sm_pkt_type_str (sp_pkt_type p) @ '', '' @ sm_err_type_str (sp_err_type p) @ '', client: '' @
          ep_name (sp_client p) @ '', server: '' @ ep_name (sp_server p)
     else sm_pkt_type_str (sp_pkt_type p))"

definition make_ping_resp :: "sm_pkt \<Rightarrow> sm_pkt" where
  "make_ping_resp ping_req = ping_req\<lparr>sp_pkt_type := Sm_PingResp\<rparr>"

definition make_unblock_req :: "sm_pkt \<Rightarrow> sm_pkt" where
  "make_unblock_req uninit = uninit\<lparr>sp_pkt_type := Sm_Unblock\<rparr>"

definition sp_is_req :: "sm_pkt \<Rightarrow> bool" where
  "sp_is_req p = sm_pkt_type_is_req (sp_pkt_type p)"

definition sp_is_resp :: "sm_pkt \<Rightarrow> bool" where
  "sp_is_resp p = (\<not> sp_is_req p)"

definition sm_construct_resp :: "sm_pkt \<Rightarrow> sm_err_type \<Rightarrow> sm_pkt option" where
  "sm_construct_resp req_sm_pkt err_type = do {
     t \<leftarrow> sm_pkt_type_req_to_resp (sp_pkt_type req_sm_pkt);
     Some (req_sm_pkt\<lparr>sp_pkt_type := t, sp_err_type := err_type\<rparr>)
   }"

datatype sm_work_item = SmWork (wi_rpc_id: nat) (wi_sm_pkt: sm_pkt) | SmReset (wi_hostname: string)

definition wi_is_reset :: "sm_work_item \<Rightarrow> bool" where
  "wi_is_reset wi = (case wi of SmReset _ \<Rightarrow> True | _ \<Rightarrow> False)"

section \<open>Properties\<close>

text \<open>(C31) The URI that an endpoint prints is a valid URI, and parsing it gives back the host name and
  the port, for a host name without a colon and a 16-bit port.\<close>

theorem uri_roundtrip:
  assumes "CHR '':'' \<notin> set (ep_hostname e)" "ep_hostname e \<noteq> ''''" "ep_sm_udp_port e < 65536"
  shows "is_valid_uri (ep_uri e) \<and> extract_hostname_from_uri dbg (ep_uri e) = Some (ep_hostname e) \<and>
    extract_udp_port_from_uri dbg (ep_uri e) = Some (ep_sm_udp_port e)"
proof -
  let ?p = "to_string (ep_sm_udp_port e)"
  have nc: "CHR '':'' \<notin> set ?p"
    using to_string_digits by force
  have split: "split_on (CHR '':'') (ep_uri e) = [ep_hostname e, ?p]"
    using split_on_two [OF assms(1,2) nc] by (simp add: ep_uri_def)
  have valid: "is_valid_uri (ep_uri e)"
    using assms(2) by (simp add: is_valid_uri_def split)
  have pre: "takeWhile (\<lambda>c. c \<noteq> CHR '':'') (ep_uri e) = ep_hostname e" "after_colon (ep_uri e) = ?p"
    using assms(1) by (auto simp: ep_uri_def after_colon_def takeWhile_append dropWhile_append)
  have "stoi ?p = Some (int (ep_sm_udp_port e))"
    using assms(3) by (intro stoi_to_string) simp
  then show ?thesis
    using valid pre assms(3) by (simp add: extract_hostname_from_uri_def extract_udp_port_from_uri_def)
qed

theorem uri_roundtrip_witness:
  "extract_udp_port_from_uri True ''node1:31850'' = Some 31850"
proof -
  have "ep_uri ((SessionEndpoint_new Tr_Raw)\<lparr>ep_hostname := ''node1'', ep_sm_udp_port := 31850\<rparr>) = ''node1:31850''"
    by (simp add: ep_uri_def SessionEndpoint_new_def to_string.simps digit_char_def char_of_def bit_0)
  then show ?thesis
    using uri_roundtrip [of "(SessionEndpoint_new Tr_Raw)\<lparr>ep_hostname := ''node1'', ep_sm_udp_port := 31850\<rparr>" True]
    by (simp add: SessionEndpoint_new_def)
qed

end
