(* ===== verification/Containers.thy ===== *)
theory Containers
  imports Math_Utils
begin

section \<open>Containers\<close>

text \<open>
  Models of \<^verbatim>\<open>FixedVector\<close>, \<^verbatim>\<open>FixedQueue\<close>, \<^verbatim>\<open>MtQueue\<close> and \<^verbatim>\<open>FastRand\<close> (src/src/util/). A fixed
  vector is its array and the index of the first free place; what its clients rely on is the
  locale \<open>bounded_stack\<close>, interpreted below on the vector. The operations of \<^verbatim>\<open>MtQueue\<close> take a lock,
  so they are atomic here. Pushing to a full vector and popping an empty one or queue are undefined
  or thrown, hence \<open>None\<close>.
\<close>

subsection \<open>FixedVector\<close>

record 'a fixed_vector =
  fv_arr :: "'a list"
  fv_free_index :: nat

definition fv_push_back :: "'a \<Rightarrow> 'a fixed_vector \<Rightarrow> 'a fixed_vector option" where
  "fv_push_back t v = do {
     cassert (fv_free_index v < length (fv_arr v));
     Some (v\<lparr>fv_arr := (fv_arr v)[fv_free_index v := t], fv_free_index := fv_free_index v + 1\<rparr>)
   }"

definition fv_pop_back :: "'a fixed_vector \<Rightarrow> ('a \<times> 'a fixed_vector) option" where
  "fv_pop_back v = do {
     cassert (0 < fv_free_index v);
     Some (fv_arr v ! (fv_free_index v - 1), v\<lparr>fv_free_index := fv_free_index v - 1\<rparr>)
   }"

definition fv_size :: "'a fixed_vector \<Rightarrow> nat" where
  "fv_size v = fv_free_index v"

definition fv_at :: "bool \<Rightarrow> 'a fixed_vector \<Rightarrow> nat \<Rightarrow> 'a option" where
  "fv_at dbg v i = do {
     dassert dbg (i < fv_free_index v);
     cassert (i < length (fv_arr v));
     Some (fv_arr v ! i)
   }"

definition fv_wf :: "nat \<Rightarrow> 'a fixed_vector \<Rightarrow> bool" where
  "fv_wf n v \<longleftrightarrow> length (fv_arr v) = n \<and> fv_free_index v \<le> n"

definition fv_list :: "'a fixed_vector \<Rightarrow> 'a list" where
  "fv_list v = take (fv_free_index v) (fv_arr v)"

locale bounded_stack =
  fixes wf :: "'s \<Rightarrow> bool" and elems :: "'s \<Rightarrow> 'a list" and cap :: nat
    and push :: "'a \<Rightarrow> 's \<Rightarrow> 's option" and pop :: "'s \<Rightarrow> ('a \<times> 's) option" and count :: "'s \<Rightarrow> nat"
  assumes push_room: "wf s \<Longrightarrow> length (elems s) < cap \<Longrightarrow> \<exists>s'. push x s = Some s' \<and> wf s' \<and> elems s' = elems s @ [x]"
    and push_full: "wf s \<Longrightarrow> cap \<le> length (elems s) \<Longrightarrow> push x s = None"
    and pop_some: "wf s \<Longrightarrow> elems s \<noteq> [] \<Longrightarrow> \<exists>s'. pop s = Some (last (elems s), s') \<and> wf s' \<and> elems s' = butlast (elems s)"
    and pop_empty: "wf s \<Longrightarrow> elems s = [] \<Longrightarrow> pop s = None"
    and count_elems: "wf s \<Longrightarrow> count s = length (elems s)"
begin

lemma pop_inv:
  assumes "wf s" "pop s = Some (x, s')"
  shows "wf s'" "elems s = elems s' @ [x]"
proof -
  have "elems s \<noteq> []"
    using assms pop_empty by fastforce
  then show "wf s'" "elems s = elems s' @ [x]"
    using pop_some [OF assms(1)] assms(2) by auto
qed

lemma push_inv:
  assumes "wf s" "push x s = Some s'"
  shows "wf s'" "elems s' = elems s @ [x]"
proof -
  have "length (elems s) < cap"
    using assms push_full by fastforce
  then show "wf s'" "elems s' = elems s @ [x]"
    using push_room [OF assms(1)] assms(2) by (metis option.inject)+
qed

lemma push_pop: "wf s \<Longrightarrow> push x s = Some s' \<Longrightarrow> \<exists>s''. pop s' = Some (x, s'') \<and> elems s'' = elems s"
  using push_inv [of s x s'] pop_some [of s'] by auto

text \<open>A stack of free resources never hands out one that is taken.\<close>

lemma pop_distinct: "wf s \<Longrightarrow> distinct (elems s) \<Longrightarrow> pop s = Some (x, s') \<Longrightarrow> distinct (elems s') \<and> x \<notin> set (elems s')"
  using pop_inv by fastforce

lemma push_distinct: "wf s \<Longrightarrow> distinct (elems s) \<Longrightarrow> x \<notin> set (elems s) \<Longrightarrow> push x s = Some s' \<Longrightarrow> distinct (elems s')"
  using push_inv by fastforce

end

interpretation fv: bounded_stack "fv_wf n" fv_list n fv_push_back fv_pop_back fv_size for n
proof unfold_locales
  fix s :: "'a fixed_vector" and x
  assume wf: "fv_wf n s"
  then have len: "length (fv_list s) = fv_free_index s"
    by (simp add: fv_list_def fv_wf_def)
  show "fv_size s = length (fv_list s)"
    by (simp add: fv_size_def len)
  show "n \<le> length (fv_list s) \<Longrightarrow> fv_push_back x s = None"
    using wf len by (simp add: fv_push_back_def fv_wf_def)
  show "fv_list s = [] \<Longrightarrow> fv_pop_back s = None"
    using len by (simp add: fv_pop_back_def)
  show "\<exists>s'. fv_push_back x s = Some s' \<and> fv_wf n s' \<and> fv_list s' = fv_list s @ [x]" if "length (fv_list s) < n"
  proof -
    have "fv_free_index s < n"
      using that len by simp
    then show ?thesis
      using wf by (simp add: fv_push_back_def fv_wf_def fv_list_def take_Suc_conv_app_nth)
  qed
  show "\<exists>s'. fv_pop_back s = Some (last (fv_list s), s') \<and> fv_wf n s' \<and> fv_list s' = butlast (fv_list s)"
    if "fv_list s \<noteq> []"
  proof -
    have p: "0 < fv_free_index s" "fv_free_index s \<le> length (fv_arr s)"
      using that len wf by (auto simp: fv_wf_def simp flip: length_greater_0_conv)
    moreover have "last (fv_list s) = fv_arr s ! (fv_free_index s - 1)"
      using p that len by (simp add: last_conv_nth fv_list_def)
    ultimately show ?thesis
      using wf by (auto simp: fv_pop_back_def fv_wf_def fv_list_def butlast_take)
  qed
qed

subsection \<open>FixedQueue\<close>

definition fq_push :: "nat \<Rightarrow> 'a \<Rightarrow> 'a list \<Rightarrow> 'a list" where
  "fq_push n t q = (if length q = n then tl q else q) @ [t]"

definition fq_pop :: "'a list \<Rightarrow> ('a \<times> 'a list) option" where
  "fq_pop q = do { cassert (q \<noteq> []); Some (hd q, tl q) }"

lemma fq_push_bound: "0 < n \<Longrightarrow> length q \<le> n \<Longrightarrow> length (fq_push n t q) \<le> n"
  by (simp add: fq_push_def)

subsection \<open>MtQueue\<close>

record 'a mt_queue =
  mq_queue :: "'a list"
  mq_size :: nat

definition MtQueue_new :: "'a mt_queue" where
  "MtQueue_new = \<lparr>mq_queue = [], mq_size = 0\<rparr>"

definition unlocked_push :: "'a \<Rightarrow> 'a mt_queue \<Rightarrow> 'a mt_queue" where
  "unlocked_push t q = q\<lparr>mq_queue := mq_queue q @ [t], mq_size := mq_size q + 1\<rparr>"

definition unlocked_pop :: "'a mt_queue \<Rightarrow> ('a \<times> 'a mt_queue) option" where
  "unlocked_pop q = do {
     cassert (mq_queue q \<noteq> []);
     Some (hd (mq_queue q), q\<lparr>mq_queue := tl (mq_queue q), mq_size := mq_size q - 1\<rparr>)
   }"

definition mq_wf :: "'a mt_queue \<Rightarrow> bool" where
  "mq_wf q \<longleftrightarrow> mq_size q = length (mq_queue q)"

lemma mq_wf_ops:
  "mq_wf MtQueue_new" "mq_wf q \<Longrightarrow> mq_wf (unlocked_push t q)"
  "mq_wf q \<Longrightarrow> unlocked_pop q = Some (t, q') \<Longrightarrow> mq_wf q' \<and> mq_queue q = t # mq_queue q'"
  by (auto simp: mq_wf_def MtQueue_new_def unlocked_push_def unlocked_pop_def)

lemma unlocked_pop_some: "mq_wf q \<Longrightarrow> 0 < mq_size q \<Longrightarrow> \<exists>t q'. unlocked_pop q = Some (t, q') \<and> mq_size q' < mq_size q"
  by (auto simp: mq_wf_def unlocked_pop_def)

subsection \<open>FastRand\<close>

definition next_u32 :: "u64 \<Rightarrow> u32 \<times> u64" where
  "next_u32 seed = (let seed = seed * 1103515245 + 12345 in (ucast (drop_bit 32 seed), seed))"

end
