(* ===== verification/Pkthdr.thy ===== *)
theory Pkthdr
  imports Math_Utils
begin

section \<open>Packet headers\<close>

text \<open>
  Model of src/src/pkthdr.h. A header is a record of numbers; its bit-fields keep their width because
  every write goes through \<open>bf w\<close>, the truncation to \<open>w\<close> bits that an assignment to a bit-field of
  that width does. The two bits of the packet type hold exactly the four types.
\<close>

datatype pkt_type = kReq | kRFR | kExplCR | kResp

definition bf :: "nat \<Rightarrow> nat \<Rightarrow> nat" where
  "bf w n = n mod 2 ^ w"

definition kPktHdrMagic :: nat where
  "kPktHdrMagic = 11"

record pkthdr =
  ph_headroom :: "u8 list"
  ph_req_type :: nat
  ph_msg_size :: nat
  ph_dest_session_num :: nat
  ph_pkt_type :: pkt_type
  ph_pkt_num :: nat
  ph_req_num :: nat
  ph_magic :: nat
  ph_lkey :: nat
  ph_total_pkt :: nat
  ph_this_msg_size :: nat

definition ph_wf :: "pkthdr \<Rightarrow> bool" where
  "ph_wf h \<longleftrightarrow> ph_req_type h < 2 ^ 8 \<and> ph_msg_size h < 2 ^ 24 \<and> ph_dest_session_num h < 2 ^ 4 \<and> ph_pkt_num h < 2 ^ 16 \<and>
     ph_req_num h < 2 ^ 32 \<and> ph_magic h < 2 ^ 16 \<and> ph_lkey h < 2 ^ 32 \<and> ph_total_pkt h < 2 ^ 16 \<and> ph_this_msg_size h < 2 ^ 16"

fun pkt_type_str :: "pkt_type \<Rightarrow> string" where
  "pkt_type_str kReq = ''REQ''"
| "pkt_type_str kRFR = ''RFR''"
| "pkt_type_str kExplCR = ''CR''"
| "pkt_type_str kResp = ''RESP''"

definition ph_format :: "nat \<Rightarrow> nat \<Rightarrow> nat \<Rightarrow> pkt_type \<Rightarrow> nat \<Rightarrow> nat \<Rightarrow> pkthdr \<Rightarrow> pkthdr" where
  "ph_format req_type msg_size dest_session_num ptype pkt_num req_num h =
    h\<lparr>ph_req_type := bf 8 req_type, ph_msg_size := bf 24 msg_size, ph_dest_session_num := bf 4 dest_session_num,
      ph_pkt_type := ptype, ph_pkt_num := bf 16 pkt_num, ph_req_num := bf 32 req_num, ph_magic := bf 16 kPktHdrMagic\<rparr>"

definition ph_matches :: "pkt_type \<Rightarrow> nat \<Rightarrow> pkthdr \<Rightarrow> bool" where
  "ph_matches ptype pkt_num h \<longleftrightarrow> ph_pkt_type h = ptype \<and> ph_pkt_num h = pkt_num"

definition check_magic :: "pkthdr \<Rightarrow> bool" where
  "check_magic h \<longleftrightarrow> ph_magic h = kPktHdrMagic"

definition ph_is_req :: "pkthdr \<Rightarrow> bool" where
  "ph_is_req h \<longleftrightarrow> ph_pkt_type h = kReq"

lemma bf_less [simp]: "bf w n < 2 ^ w"
  by (simp add: bf_def)

lemma bf_id [simp]: "n < 2 ^ w \<Longrightarrow> bf w n = n"
  by (simp add: bf_def)

lemma ph_format_wf: "ph_wf h \<Longrightarrow> ph_wf (ph_format rt ms ds pt pn rn h)"
  using bf_less [of 8 rt] bf_less [of 24 ms] bf_less [of 4 ds] bf_less [of 16 pn] bf_less [of 32 rn] bf_less [of 16 kPktHdrMagic]
  by (simp add: ph_wf_def ph_format_def)

end
