(* ===== verification/Session.thy ===== *)
theory Session
  imports Serialization Timely Sm_Types Containers Pkthdr
begin

section \<open>Sessions and session slots\<close>

text \<open>
  Model of src/src/sslot.h and src/src/session.h. Pointers are values of reference types:
  \<open>slot_ref\<close> for session slots (a session is named by its index in the session vector of its Rpc,
  which never moves or reuses an index, and the active list has two sentinel slots), \<open>ser_ptr\<close> for
  Serializer objects (those of the application, those of the Rpc for control packets, and the two
  inside each slot). The union of a slot is a datatype: reading the member that was not written last
  is undefined, hence \<open>None\<close>. Continuations are named by numbers, the application is a parameter.
\<close>

datatype slot_ref = RootSentinel | TailSentinel | Slot (sref_session: nat) (sref_index: nat)

datatype ser_ptr = UserSer nat | CtrlSer nat | PreResp nat nat | DynResp nat nat

record client_info =
  ci_resp_msgbuf :: nat
  ci_cont_func :: nat
  ci_tag :: nat
  ci_num_tx :: nat
  ci_num_rx :: nat
  ci_progress_tsc :: nat
  ci_cont_etid :: nat
  ci_prev :: "slot_ref option"
  ci_next :: "slot_ref option"
  ci_in_wheel :: "bool list"
  ci_wheel_count :: nat
  ci_tx_ts :: "nat list"

datatype req_func_type = kForeground | kBackground

record server_info =
  si_req_type :: nat
  si_req_func_type :: req_func_type
  si_num_rx :: nat
  si_sav_num_req_pkts :: nat

datatype slot_info = ClientInfo (the_ci: client_info) | ServerInfo (the_si: server_info)

record sslot =
  sl_context :: nat
  sl_is_client :: bool
  sl_index :: nat
  sl_tx_msgbuf :: "ser_ptr option"
  sl_cur_req_num :: nat
  sl_info :: slot_info

record enq_req_args =
  ra_session_num :: nat
  ra_req_type :: nat
  ra_req_msgbuf :: ser_ptr
  ra_resp_msgbuf :: nat
  ra_cont_func :: nat
  ra_tag :: nat
  ra_cont_etid :: nat

record enq_resp_args =
  pa_req_handle :: slot_ref
  pa_resp_msgbuf :: ser_ptr

record session =
  ss_is_client :: bool
  ss_uniq_token :: nat
  ss_freq_ghz :: real
  ss_link_bandwidth :: real
  ss_state :: session_state
  ss_client :: session_endpoint
  ss_server :: session_endpoint
  ss_sslot_arr :: "sslot list"
  ss_local_session_num :: nat
  ss_remote_session_num :: nat
  ss_credits :: nat
  ss_sslot_free_vec :: "nat fixed_vector"
  ss_enq_req_backlog :: "enq_req_args list"
  ss_num_re_tx :: nat
  ss_timely :: timely
  ss_prev_desired_tx_tsc :: nat
  ss_sm_req_ts :: nat

definition kInvalidReqType :: nat where
  "kInvalidReqType = 255"

subsection \<open>Construction\<close>

definition zero_client_info :: client_info where
  "zero_client_info =
    \<lparr>ci_resp_msgbuf = 0, ci_cont_func = 0, ci_tag = 0, ci_num_tx = 0, ci_num_rx = 0, ci_progress_tsc = 0, ci_cont_etid = 0,
     ci_prev = None, ci_next = None, ci_in_wheel = replicate kSessionCredits False, ci_wheel_count = 0,
     ci_tx_ts = replicate kSessionCredits 0\<rparr>"

definition zero_server_info :: server_info where
  "zero_server_info =
    \<lparr>si_req_type = kInvalidReqType, si_req_func_type = kForeground, si_num_rx = 0, si_sav_num_req_pkts = 0\<rparr>"

definition new_sslot :: "bool \<Rightarrow> nat \<Rightarrow> sslot" where
  "new_sslot is_client sslot_i =
    \<lparr>sl_context = 0, sl_is_client = is_client, sl_index = sslot_i, sl_tx_msgbuf = None, sl_cur_req_num = sslot_i,
     sl_info = (if is_client then ClientInfo zero_client_info else ServerInfo zero_server_info)\<rparr>"

fun push_free_slots :: "nat list \<Rightarrow> nat fixed_vector \<Rightarrow> nat fixed_vector option" where
  "push_free_slots [] v = Some v"
| "push_free_slots (i # is) v = do { v \<leftarrow> fv_push_back (kSessionReqWindow - 1 - i) v; push_free_slots is v }"

text \<open>\<open>uninit\<close> stands for the fields the constructor does not set.\<close>

definition Session_new :: "session \<Rightarrow> bool \<Rightarrow> nat \<Rightarrow> real \<Rightarrow> real \<Rightarrow> nat \<Rightarrow> session option" where
  "Session_new uninit is_client uniq_token freq_ghz link_bandwidth now = do {
     free_vec \<leftarrow> push_free_slots [0..<kSessionReqWindow] \<lparr>fv_arr = replicate kSessionReqWindow 0, fv_free_index = 0\<rparr>;
     Some (uninit\<lparr>ss_is_client := is_client, ss_uniq_token := uniq_token, ss_freq_ghz := freq_ghz,
        ss_link_bandwidth := link_bandwidth,
        ss_client := SessionEndpoint_new (ep_transport_type (ss_client uninit)),
        ss_server := SessionEndpoint_new (ep_transport_type (ss_server uninit)),
        ss_sslot_arr := map (new_sslot is_client) [0..<kSessionReqWindow],
        ss_credits := kSessionCredits, ss_sslot_free_vec := free_vec, ss_enq_req_backlog := [], ss_num_re_tx := 0,
        ss_timely := (if is_client then Timely_new freq_ghz link_bandwidth now else ss_timely uninit)\<rparr>)
   }"

subsection \<open>Queries and pacing\<close>

definition ss_is_connected :: "session \<Rightarrow> bool" where
  "ss_is_connected s \<longleftrightarrow> ss_state s = St_Connected"

definition ss_remote_routing_info :: "session \<Rightarrow> rinfo" where
  "ss_remote_routing_info s = (if ss_is_client s then ep_routing_info (ss_server s) else ep_routing_info (ss_client s))"

definition ns_to_cycles :: "real \<Rightarrow> real \<Rightarrow> nat" where
  "ns_to_cycles ns freq_ghz = nat \<lfloor>ns * freq_ghz\<rfloor>"

definition cc_getupdate_tx_tsc :: "nat \<Rightarrow> nat \<Rightarrow> session \<Rightarrow> nat \<times> session" where
  "cc_getupdate_tx_tsc ref_tsc pkt_size s =
    (let ns_delta = 1000000000 * (real pkt_size / ty_rate (ss_timely s));
         cycle_delta = ns_to_cycles ns_delta (ss_freq_ghz s);
         desired_tx_tsc = max (ss_prev_desired_tx_tsc s + cycle_delta) ref_tsc
     in (desired_tx_tsc, s\<lparr>ss_prev_desired_tx_tsc := desired_tx_tsc\<rparr>))"

definition is_uncongested :: "session \<Rightarrow> bool" where
  "is_uncongested s \<longleftrightarrow> ty_rate (ss_timely s) = ss_link_bandwidth s"

definition get_remote_hostname :: "session \<Rightarrow> string" where
  "get_remote_hostname s =
    (if ss_is_client s then trim_hostname (ep_hostname (ss_server s)) else trim_hostname (ep_hostname (ss_client s)))"

subsection \<open>The invariant of a session\<close>

text \<open>The slots have their index, belong to the side of the session and carry request numbers of their
  residue class; the free slots are distinct, and on the client a slot is free exactly when it has
  no request.\<close>

definition sslot_ok :: "bool \<Rightarrow> nat \<Rightarrow> sslot \<Rightarrow> bool" where
  "sslot_ok is_client i sl \<longleftrightarrow> sl_index sl = i \<and> sl_is_client sl = is_client \<and> sl_cur_req_num sl mod kSessionReqWindow = i \<and>
     (case sl_info sl of ClientInfo ci \<Rightarrow> is_client \<and> length (ci_in_wheel ci) = kSessionCredits \<and> length (ci_tx_ts ci) = kSessionCredits
      | ServerInfo si \<Rightarrow> \<not> is_client)"

definition session_ok :: "session \<Rightarrow> bool" where
  "session_ok s \<longleftrightarrow> length (ss_sslot_arr s) = kSessionReqWindow \<and>
     (\<forall>i < kSessionReqWindow. sslot_ok (ss_is_client s) i (ss_sslot_arr s ! i)) \<and>
     fv_wf kSessionReqWindow (ss_sslot_free_vec s) \<and> distinct (fv_list (ss_sslot_free_vec s)) \<and>
     set (fv_list (ss_sslot_free_vec s)) \<subseteq> {0..<kSessionReqWindow} \<and>
     (ss_is_client s \<longrightarrow> (\<forall>i < kSessionReqWindow. sl_tx_msgbuf (ss_sslot_arr s ! i) = None \<longleftrightarrow> i \<in> set (fv_list (ss_sslot_free_vec s))))"

lemma push_free_slots_spec:
  assumes "fv_wf n v" "length (fv_list v) + length is \<le> n"
  shows "\<exists>v'. push_free_slots is v = Some v' \<and> fv_wf n v' \<and> fv_list v' = fv_list v @ map (\<lambda>i. kSessionReqWindow - 1 - i) is"
  using assms
proof (induction "is" arbitrary: v)
  case (Cons i "is")
  then obtain v1 where v1: "fv_push_back (kSessionReqWindow - 1 - i) v = Some v1" "fv_wf n v1"
    "fv_list v1 = fv_list v @ [kSessionReqWindow - 1 - i]"
    using fv.push_room [of n v "kSessionReqWindow - 1 - i"] by auto
  then show ?case
    using Cons.IH [of v1] Cons.prems(2) by auto
qed simp

lemma rev_slots: "map (\<lambda>i. n - 1 - i) [0..<n] = rev [0..<n]" for n :: nat
  by (rule nth_equalityI) (auto simp: rev_nth)

lemma new_sslot_wf: "i < kSessionReqWindow \<Longrightarrow> sslot_ok c i (new_sslot c i)"
  by (simp add: sslot_ok_def new_sslot_def zero_client_info_def)

lemma Session_new_spec:
  obtains s where "Session_new u c tok freq bw now = Some s" "session_ok s" "ss_is_client s = c" "ss_uniq_token s = tok"
    "fv_list (ss_sslot_free_vec s) = rev [0..<kSessionReqWindow]" "ss_credits s = kSessionCredits" "ss_enq_req_backlog s = []"
    "ss_state s = ss_state u" "ss_remote_session_num s = ss_remote_session_num u"
    "ss_client s = SessionEndpoint_new (ep_transport_type (ss_client u))"
    "ss_server s = SessionEndpoint_new (ep_transport_type (ss_server u))"
    "ss_sslot_arr s = map (new_sslot c) [0..<kSessionReqWindow]"
proof -
  let ?v = "\<lparr>fv_arr = replicate kSessionReqWindow 0, fv_free_index = 0\<rparr>"
  have "fv_wf kSessionReqWindow ?v" "fv_list ?v = []"
    by (simp_all add: fv_wf_def fv_list_def)
  then obtain v where v: "push_free_slots [0..<kSessionReqWindow] ?v = Some v" "fv_wf kSessionReqWindow v"
    "fv_list v = rev [0..<kSessionReqWindow]"
    using push_free_slots_spec [of kSessionReqWindow ?v "[0..<kSessionReqWindow]"] rev_slots by auto
  obtain s where s: "Session_new u c tok freq bw now = Some s"
    "s = u\<lparr>ss_is_client := c, ss_uniq_token := tok, ss_freq_ghz := freq, ss_link_bandwidth := bw,
        ss_client := SessionEndpoint_new (ep_transport_type (ss_client u)),
        ss_server := SessionEndpoint_new (ep_transport_type (ss_server u)),
        ss_sslot_arr := map (new_sslot c) [0..<kSessionReqWindow],
        ss_credits := kSessionCredits, ss_sslot_free_vec := v, ss_enq_req_backlog := [], ss_num_re_tx := 0,
        ss_timely := (if c then Timely_new freq bw now else ss_timely u)\<rparr>"
    using v(1) by (simp add: Session_new_def)
  have "session_ok s"
    using v(2,3) new_sslot_wf [of _ c] by (auto simp: s(2) session_ok_def new_sslot_def)
  then show thesis
    using that [OF s(1)] v(3) by (simp add: s(2))
qed

end
