(* ===== verification/Ib_Transport.thy ===== *)
theory Ib_Transport
  imports Session
begin

section \<open>The InfiniBand transport\<close>

text \<open>
  Model of the datapath of the InfiniBand transport
  (src/src/transport_impl/infiniband/ib_transport_datapath.cc, and the initialisation of its work
  requests in ib_transport.cc) and of the two functions of the Serializer it uses to find the header
  and the data of a packet (src/src/huibuffer/serialization.h). Headers live in a store from addresses
  to headers, Serializer objects in a store from pointers to objects. The verbs library is not part of
  the repository: what the transport asks of it is recorded in a log, whether a call of
  \<^verbatim>\<open>ibv_post_send\<close> or \<^verbatim>\<open>ibv_post_recv\<close> succeeds is a parameter, and polling for a completion is a log
  entry. \<open>route\<close> follows the pointer to the routing information of a session.
\<close>

record tx_item =
  ti_session :: nat
  ti_msg_buffer :: ser_ptr
  ti_pkt_idx :: nat
  ti_tx_ts :: "(slot_ref \<times> nat) option"
  ti_drop :: bool

record sge =
  sg_addr :: nat
  sg_length :: nat
  sg_lkey :: nat

datatype wr_opcode = IBV_WR_SEND | IBV_WR_SEND_WITH_IMM

record send_wr =
  wr_signaled :: bool
  wr_inline :: bool
  wr_sgl :: "sge list"
  wr_dest :: "rinfo option"

datatype nic_event = PollSend | PostSend "send_wr list" | PostRecv nat nat | PostRecvFast nat

record ib_transport =
  tr_opcode :: wr_opcode
  tr_use_fast_recv :: bool
  tr_nb_tx :: nat
  tr_recv_head :: nat
  tr_recvs_to_post :: nat
  tr_tx_flush_count :: nat
  tr_log :: "nic_event list"

definition kPostlist :: nat where
  "kPostlist = 16"

definition kUnsigBatch :: nat where
  "kUnsigBatch = 64"

definition kSQDepth :: nat where
  "kSQDepth = 128"

definition kRecvSlack :: nat where
  "kRecvSlack = 32"

definition kNumRxRingEntries :: nat where
  "kNumRxRingEntries = 16384 * 2"

definition log_nic :: "nic_event \<Rightarrow> ib_transport \<Rightarrow> ib_transport" where
  "log_nic e t = t\<lparr>tr_log := tr_log t @ [e]\<rparr>"

definition init_sends :: "ib_transport \<Rightarrow> ib_transport" where
  "init_sends t = t\<lparr>tr_opcode := IBV_WR_SEND\<rparr>"

subsection \<open>Header and data of a packet\<close>

definition get_n_hdr :: "bool \<Rightarrow> (nat \<Rightarrow> pkthdr) \<Rightarrow> serializer \<Rightarrow> nat \<Rightarrow> nat option" where
  "get_n_hdr dbg hdrs s n = do {
     e0 \<leftarrow> iv_at (sr_iov s) 0;
     dassert dbg (n \<le> ph_total_pkt (hdrs (iov_base e0)));
     e \<leftarrow> iv_at (sr_iov s) n;
     Some (iov_base e)
   }"

subsection \<open>Sending\<close>

definition get_signaled_flag :: "ib_transport \<Rightarrow> bool \<times> ib_transport" where
  "get_signaled_flag t =
    (let (signaled, t) =
       (if tr_nb_tx t mod kUnsigBatch = 0
        then (True, if tr_nb_tx t \<noteq> 0 then log_nic PollSend t else t)
        else (False, t))
     in (signaled, t\<lparr>tr_nb_tx := tr_nb_tx t + 1\<rparr>))"

definition fill_wr ::
  "bool \<Rightarrow> (nat \<Rightarrow> pkthdr) \<Rightarrow> nat \<Rightarrow> (ser_ptr \<Rightarrow> serializer) \<Rightarrow> (nat \<Rightarrow> rinfo option) \<Rightarrow> bool \<Rightarrow> tx_item \<Rightarrow> send_wr option" where
  "fill_wr dbg hdrs sizeof_pkthdr sers route signaled item = do {
     let msg_buffer = sers (ti_msg_buffer item);
     pkthdr \<leftarrow> get_n_hdr dbg hdrs msg_buffer (ti_pkt_idx item);
     let lkey = ph_lkey (hdrs pkthdr);
     let sgl0 = \<lparr>sg_addr = pkthdr, sg_length = sizeof_pkthdr, sg_lkey = lkey\<rparr>;
     (sgl, inl) \<leftarrow>
       (if ph_this_msg_size (hdrs pkthdr) \<noteq> 0 then do {
          (i, iovec_len) \<leftarrow> get_n_data (ti_pkt_idx item) msg_buffer;
          cassert (i + iovec_len \<le> length (iv_iovs (sr_iov msg_buffer)));
          let iov = take iovec_len (drop i (iv_iovs (sr_iov msg_buffer)));
          cassert (length iov + 1 \<le> 16);
          Some (sgl0 # map (\<lambda>e. \<lparr>sg_addr = iov_base e, sg_length = iov_len e, sg_lkey = lkey\<rparr>) iov, False)
        } else Some ([sgl0], True));
     rinfo \<leftarrow> route (ti_session item);
     Some \<lparr>wr_signaled = signaled, wr_inline = inl, wr_sgl = sgl, wr_dest = Some rinfo\<rparr>
   }"

fun tx_burst_loop ::
  "bool \<Rightarrow> (nat \<Rightarrow> pkthdr) \<Rightarrow> nat \<Rightarrow> (ser_ptr \<Rightarrow> serializer) \<Rightarrow> (nat \<Rightarrow> rinfo option) \<Rightarrow> tx_item list \<Rightarrow> ib_transport \<Rightarrow>
    (send_wr list \<times> ib_transport) option" where
  "tx_burst_loop dbg hdrs sz sers route [] t = Some ([], t)"
| "tx_burst_loop dbg hdrs sz sers route (item # items) t = do {
     dassert dbg (tr_opcode t = IBV_WR_SEND);
     let (signaled, t) = get_signaled_flag t;
     wr \<leftarrow> fill_wr dbg hdrs sz sers route signaled item;
     (wrs, t) \<leftarrow> tx_burst_loop dbg hdrs sz sers route items t;
     Some (wr # wrs, t)
   }"

definition tx_burst ::
  "bool \<Rightarrow> (nat \<Rightarrow> bool) \<Rightarrow> (nat \<Rightarrow> pkthdr) \<Rightarrow> nat \<Rightarrow> (ser_ptr \<Rightarrow> serializer) \<Rightarrow> (nat \<Rightarrow> rinfo option) \<Rightarrow> tx_item list \<Rightarrow>
    ib_transport \<Rightarrow> ib_transport option" where
  "tx_burst dbg post_ok hdrs sz sers route items t = do {
     cassert (items \<noteq> [] \<and> length items \<le> kPostlist);
     (wrs, t) \<leftarrow> tx_burst_loop dbg hdrs sz sers route items t;
     cassert (post_ok (length (tr_log t)));
     Some (log_nic (PostSend wrs) t)
   }"

definition tx_flush :: "bool \<Rightarrow> (nat \<Rightarrow> bool) \<Rightarrow> ib_transport \<Rightarrow> ib_transport option" where
  "tx_flush dbg post_ok t =
    (if tr_nb_tx t = 0 then Some t
     else do {
       let t = log_nic PollSend t;
       dassert dbg (tr_opcode t = IBV_WR_SEND_WITH_IMM);
       cassert (post_ok (length (tr_log t)));
       let t = log_nic (PostSend [\<lparr>wr_signaled = True, wr_inline = True,
         wr_sgl = [\<lparr>sg_addr = 0, sg_length = 1, sg_lkey = 0\<rparr>], wr_dest = None\<rparr>]) t;
       let t = log_nic PollSend t;
       Some (t\<lparr>tr_nb_tx := 0, tr_tx_flush_count := tr_tx_flush_count t + 1\<rparr>)
     })"

subsection \<open>Receiving\<close>

text \<open>\<^verbatim>\<open>ibv_poll_cq\<close> returns at most the number of entries asked for.\<close>

definition rx_burst :: "nat \<Rightarrow> nat option" where
  "rx_burst polled = do { cassert (polled \<le> kPostlist); Some polled }"

definition post_recvs :: "bool \<Rightarrow> (nat \<Rightarrow> bool) \<Rightarrow> nat \<Rightarrow> ib_transport \<Rightarrow> ib_transport option" where
  "post_recvs dbg post_ok num_recvs t = do {
     dassert dbg (num_recvs \<le> kNumRxRingEntries);
     dassert dbg (tr_recvs_to_post t < kRecvSlack);
     let t = t\<lparr>tr_recvs_to_post := tr_recvs_to_post t + num_recvs\<rparr>;
     if tr_recvs_to_post t < kRecvSlack then Some t
     else if tr_use_fast_recv t then do {
       cassert (post_ok (length (tr_log t)));
       Some ((log_nic (PostRecvFast (tr_recvs_to_post t)) t)\<lparr>tr_recvs_to_post := 0\<rparr>)
     } else do {
       let first_wr_i = tr_recv_head t;
       let last_wr_i = first_wr_i + (tr_recvs_to_post t - 1);
       let last_wr_i = (if kNumRxRingEntries \<le> last_wr_i then last_wr_i - kNumRxRingEntries else last_wr_i);
       cassert (first_wr_i < kNumRxRingEntries \<and> last_wr_i < kNumRxRingEntries);
       cassert (post_ok (length (tr_log t)));
       let t = log_nic (PostRecv first_wr_i (tr_recvs_to_post t)) t;
       Some (t\<lparr>tr_recv_head := (last_wr_i + 1) mod kNumRxRingEntries, tr_recvs_to_post := 0\<rparr>)
     }
   }"

subsection \<open>The receive buffers\<close>

text \<open>The descriptor of receive buffer \<open>i\<close>: the header and the body of a packet go to two arrays in one
  allocation. \<open>sz\<close> is the size of a packet header, \<open>base\<close> the address of the allocation.\<close>

definition kMTU :: nat where
  "kMTU = 4096"

definition kRecvSize :: nat where
  "kRecvSize = kMTU + 64"

definition kGRHBytes :: nat where
  "kGRHBytes = 40"

definition kMaxDataPerPkt :: "nat \<Rightarrow> nat" where
  "kMaxDataPerPkt sz = kMTU - sz"

record recv_desc =
  rd_hdr :: sge
  rd_body :: sge
  rd_wr_id :: nat
  rd_next :: nat
  rd_ring_hdr :: nat
  rd_ring_body :: nat

definition ring_extent_size :: nat where
  "ring_extent_size = kNumRxRingEntries * kRecvSize"

definition init_recv :: "nat \<Rightarrow> nat \<Rightarrow> nat \<Rightarrow> nat \<Rightarrow> recv_desc" where
  "init_recv sz base lkey i =
    (let grh_hdr_size = sz + 64;
         offset_hdr = i * grh_hdr_size;
         offset_body = grh_hdr_size * kNumRxRingEntries + i * kMaxDataPerPkt sz
     in \<lparr>rd_hdr = \<lparr>sg_addr = base + offset_hdr, sg_length = grh_hdr_size - 24, sg_lkey = lkey\<rparr>,
         rd_body = \<lparr>sg_addr = base + offset_body, sg_length = kMaxDataPerPkt sz, sg_lkey = lkey\<rparr>,
         rd_wr_id = base + offset_hdr + kGRHBytes,
         rd_next = (if i < kNumRxRingEntries - 1 then i + 1 else 0),
         rd_ring_hdr = base + offset_hdr + kGRHBytes, rd_ring_body = base + offset_body\<rparr>)"

definition init_recvs :: "nat \<Rightarrow> nat \<Rightarrow> nat \<Rightarrow> recv_desc list" where
  "init_recvs sz base lkey = map (init_recv sz base lkey) [0..<kNumRxRingEntries]"

subsection \<open>The send queue\<close>

text \<open>What the send queue holds, as the list of the signal flags of the requests that are not known to
  have completed: a completion of a signaled request tells that all requests before it completed too.
  It is stuck (\<open>None\<close>) when the transport polls for a completion that cannot come, or posts more
  requests than the queue has room for.\<close>

definition sq_event :: "nic_event \<Rightarrow> bool list \<Rightarrow> bool list option" where
  "sq_event e out =
    (case e of
       PollSend \<Rightarrow> if True \<in> set out then Some (tl (dropWhile Not out)) else None
     | PostSend wrs \<Rightarrow> if length out + length wrs \<le> kSQDepth then Some (out @ map wr_signaled wrs) else None
     | _ \<Rightarrow> Some out)"

fun sq_run :: "nic_event list \<Rightarrow> bool list \<Rightarrow> bool list option" where
  "sq_run [] out = Some out"
| "sq_run (e # es) out = sq_event e out \<bind> sq_run es"

definition sq_start :: "nat \<Rightarrow> nat" where
  "sq_start n = (if n \<le> kUnsigBatch then 0 else ((n - 1) div kUnsigBatch - 1) * kUnsigBatch + 1)"

definition sq_flags :: "nat \<Rightarrow> nat \<Rightarrow> bool list" where
  "sq_flags a b = map (\<lambda>i. i mod kUnsigBatch = 0) [a..<b]"

definition sq_ok :: "ib_transport \<Rightarrow> bool" where
  "sq_ok t \<longleftrightarrow> sq_run (tr_log t) [] = Some (sq_flags (sq_start (tr_nb_tx t)) (tr_nb_tx t))"

lemma sq_run_append: "sq_run (es @ fs) out = sq_run es out \<bind> sq_run fs"
  by (induction es arbitrary: out) (auto split: Option.bind_splits)

lemma sq_run_snoc [simp]: "sq_run (es @ [e]) out = sq_run es out \<bind> sq_event e"
  by (cases "sq_run es out") (auto simp: sq_run_append split: Option.bind_splits)

lemma sq_flags_append: "a \<le> b \<Longrightarrow> b \<le> c \<Longrightarrow> sq_flags a b @ sq_flags b c = sq_flags a c"
  using upt_add_eq_append [of a b "c - b"] by (simp add: sq_flags_def)

lemma sq_flags_poll:
  assumes "a \<le> m" "m < b" "m mod kUnsigBatch = 0" "\<And>i. a \<le> i \<Longrightarrow> i < m \<Longrightarrow> i mod kUnsigBatch \<noteq> 0"
  shows "sq_event PollSend (sq_flags a b) = Some (sq_flags (m + 1) b)"
proof -
  have split: "sq_flags a b = sq_flags a m @ True # sq_flags (m + 1) b"
    using assms(1-3) sq_flags_append [of a m b] by (simp add: sq_flags_def upt_conv_Cons)
  have "set (sq_flags a m) \<subseteq> {False}"
    using assms(4) by (simp add: sq_flags_def image_subset_iff)
  then have "dropWhile Not (sq_flags a m @ True # sq_flags (m + 1) b) = True # sq_flags (m + 1) b"
    by (subst dropWhile_append2) auto
  then show ?thesis
    by (simp add: sq_event_def split)
qed

lemma sq_start_poll:
  assumes "n mod kUnsigBatch = 0" "n \<noteq> 0"
  shows "sq_start n \<le> n - kUnsigBatch" "(n - kUnsigBatch) mod kUnsigBatch = 0" "sq_start (n + 1) = n - kUnsigBatch + 1"
    "sq_start n \<le> i \<Longrightarrow> i < n - kUnsigBatch \<Longrightarrow> i mod kUnsigBatch \<noteq> 0"
proof -
  obtain k where n: "n = kUnsigBatch * k" "0 < k"
    using assms by (auto simp: mod_eq_0_iff_dvd)
  then obtain j where j: "k = Suc j"
    by (cases k) auto
  have "(n - 1) div kUnsigBatch = j"
    by (simp add: n j kUnsigBatch_def)
  then have start: "sq_start n = (if j = 0 then 0 else (j - 1) * kUnsigBatch + 1)" "n - kUnsigBatch = j * kUnsigBatch"
    by (simp_all add: sq_start_def n j kUnsigBatch_def)
  then show "sq_start n \<le> n - kUnsigBatch" "(n - kUnsigBatch) mod kUnsigBatch = 0" "sq_start (n + 1) = n - kUnsigBatch + 1"
    by (auto simp: sq_start_def n j kUnsigBatch_def)
  show "i mod kUnsigBatch \<noteq> 0" if "sq_start n \<le> i" "i < n - kUnsigBatch"
  proof
    assume "i mod kUnsigBatch = 0"
    then obtain l where l: "i = kUnsigBatch * l"
      by (auto simp: mod_eq_0_iff_dvd)
    then show False
      using that unfolding start by (cases "j = 0") (auto simp: kUnsigBatch_def)
  qed
qed

lemma pred_div:
  assumes "n mod b \<noteq> 0" "0 < b"
  shows "(n - 1) div b = n div (b :: nat)"
proof -
  have "n - 1 = (n mod b - 1) + n div b * b"
    using assms(1) div_mult_mod_eq [of n b] by simp
  moreover have "n mod b - 1 < b"
    using assms(2) mod_less_divisor [of b n] by linarith
  ultimately show ?thesis
    using assms(2) by simp
qed

lemma pred_bounds:
  assumes "0 < n" "0 < b"
  shows "(n - 1) div b * b < n" "n \<le> (n - 1) div b * b + (b :: nat)"
proof -
  have "(n - 1) div b * b + (n - 1) mod b = n - 1" "(n - 1) mod b < b"
    using assms(2) by simp_all
  then show "(n - 1) div b * b < n" "n \<le> (n - 1) div b * b + b"
    using assms(1) by linarith+
qed

lemma sq_start_step:
  assumes "n mod kUnsigBatch \<noteq> 0 \<or> n = 0"
  shows "sq_start (n + 1) = sq_start n"
proof (cases "n = 0")
  case False
  then have m: "n mod 64 \<noteq> 0"
    using assms by (simp add: kUnsigBatch_def)
  then have "n div 64 = (n - 1) div 64"
    using pred_div [of n 64] by simp
  moreover have "n \<noteq> 64"
    using m by auto
  ultimately show ?thesis
    by (simp add: sq_start_def kUnsigBatch_def)
qed (simp add: sq_start_def kUnsigBatch_def)

lemma kUnsigBatch_pos [simp]: "0 < kUnsigBatch"
  by (simp add: kUnsigBatch_def)

lemma sq_start_large:
  assumes "kUnsigBatch < n"
  shows "sq_start n + kUnsigBatch = (n - 1) div kUnsigBatch * kUnsigBatch + 1"
proof -
  have "1 \<le> (n - 1) div kUnsigBatch"
    using assms by (simp add: kUnsigBatch_def div_greater_zero_iff Suc_le_eq)
  then show ?thesis
    using assms by (simp add: sq_start_def diff_mult_distrib)
qed

lemma sq_room: "length (sq_flags (sq_start n) n) \<le> 2 * kUnsigBatch"
proof (cases "n \<le> kUnsigBatch")
  case False
  then show ?thesis
    using pred_bounds(2) [of n kUnsigBatch] sq_start_large [of n] by (simp add: sq_flags_def)
qed (simp add: sq_flags_def sq_start_def)

lemma fill_wr_signaled: "fill_wr dbg hdrs sz sers route sig item = Some wr \<Longrightarrow> wr_signaled wr = sig"
  by (auto simp: fill_wr_def Let_def bind_eq_Some_conv)

text \<open>In the loop of \<^verbatim>\<open>tx_burst\<close> the first \<open>p\<close> requests are posted and less than a batch is prepared.\<close>

lemma tx_burst_loop_sq:
  assumes "tx_burst_loop dbg hdrs sz sers route items t = Some (wrs, t')"
    and "sq_run (tr_log t) [] = Some (sq_flags (sq_start (tr_nb_tx t)) p)" "p \<le> tr_nb_tx t"
    and "tr_nb_tx t + length items < p + kUnsigBatch"
  shows "sq_run (tr_log t') [] = Some (sq_flags (sq_start (tr_nb_tx t')) p) \<and> tr_nb_tx t' = tr_nb_tx t + length items \<and>
    map wr_signaled wrs = sq_flags (tr_nb_tx t) (tr_nb_tx t') \<and> tr_recv_head t' = tr_recv_head t \<and>
    tr_recvs_to_post t' = tr_recvs_to_post t \<and> tr_opcode t' = tr_opcode t"
  using assms
proof (induction items arbitrary: t wrs)
  case (Cons item items)
  let ?n = "tr_nb_tx t"
  obtain sig t1 where g: "get_signaled_flag t = (sig, t1)"
    by fastforce
  have t1: "tr_nb_tx t1 = ?n + 1" "sig \<longleftrightarrow> ?n mod kUnsigBatch = 0" "tr_recv_head t1 = tr_recv_head t"
    "tr_recvs_to_post t1 = tr_recvs_to_post t" "tr_opcode t1 = tr_opcode t"
    "tr_log t1 = tr_log t @ (if ?n mod kUnsigBatch = 0 \<and> ?n \<noteq> 0 then [PollSend] else [])"
    using g by (auto simp: get_signaled_flag_def log_nic_def split: if_splits)
  obtain wr wrs1 where w: "wr_signaled wr = sig" "tx_burst_loop dbg hdrs sz sers route items t1 = Some (wrs1, t')" "wrs = wr # wrs1"
    using Cons.prems(1) g fill_wr_signaled [of dbg hdrs sz sers route sig item] by (auto simp: bind_eq_Some_conv)
  have "sq_run (tr_log t1) [] = Some (sq_flags (sq_start (?n + 1)) p)"
  proof (cases "?n mod kUnsigBatch = 0 \<and> ?n \<noteq> 0")
    case True
    note poll = sq_start_poll [of ?n, OF conjunct1 [OF True] conjunct2 [OF True]]
    have "?n - kUnsigBatch < p"
      using Cons.prems(4) True by (auto simp: kUnsigBatch_def)
    from sq_flags_poll [OF poll(1) this poll(2,4)] show ?thesis
      using True Cons.prems(2) poll(3) by (simp add: t1(6))
  next
    case False
    then show ?thesis
      using Cons.prems(2) sq_start_step [of ?n] by (auto simp: t1(6))
  qed
  from Cons.IH [OF w(2)] this t1 Cons.prems(3,4)
  have IH: "sq_run (tr_log t') [] = Some (sq_flags (sq_start (tr_nb_tx t')) p) \<and> tr_nb_tx t' = tr_nb_tx t1 + length items \<and>
    map wr_signaled wrs1 = sq_flags (tr_nb_tx t1) (tr_nb_tx t') \<and> tr_recv_head t' = tr_recv_head t1 \<and>
    tr_recvs_to_post t' = tr_recvs_to_post t1 \<and> tr_opcode t' = tr_opcode t1"
    by simp
  then have "?n < tr_nb_tx t'"
    using t1(1) by simp
  then have "sq_flags ?n (tr_nb_tx t') = sig # sq_flags (?n + 1) (tr_nb_tx t')"
    using t1(2) by (simp add: sq_flags_def upt_conv_Cons del: upt_Suc)
  moreover note IH
  ultimately show ?case
    using w t1 by simp
qed (simp add: sq_flags_def)

lemma tx_burst_sq:
  assumes "tx_burst dbg post_ok hdrs sz sers route items t = Some t'" "sq_ok t"
  shows "sq_ok t'"
proof -
  obtain wrs t1 where l: "tx_burst_loop dbg hdrs sz sers route items t = Some (wrs, t1)" "t' = log_nic (PostSend wrs) t1"
    "items \<noteq> []" "length items \<le> kPostlist"
    using assms(1) by (auto simp: tx_burst_def bind_eq_Some_conv)
  let ?n = "tr_nb_tx t" let ?n1 = "tr_nb_tx t1"
  have t1: "sq_run (tr_log t1) [] = Some (sq_flags (sq_start ?n1) ?n)" "?n1 = ?n + length items"
    "map wr_signaled wrs = sq_flags ?n ?n1"
    using tx_burst_loop_sq [OF l(1) assms(2) [unfolded sq_ok_def]] l(4) by (auto simp: kPostlist_def kUnsigBatch_def)
  have "sq_start ?n1 \<le> ?n"
  proof (cases "?n1 \<le> kUnsigBatch")
    case False
    then show ?thesis
      using t1(2) l(4) pred_bounds(1) [of ?n1 kUnsigBatch] sq_start_large [of ?n1] by (simp add: kUnsigBatch_def kPostlist_def)
  qed (simp add: sq_start_def)
  then have app: "sq_flags (sq_start ?n1) ?n @ sq_flags ?n ?n1 = sq_flags (sq_start ?n1) ?n1"
    using t1(2) by (intro sq_flags_append) simp_all
  have "length wrs = length (sq_flags ?n ?n1)"
    using t1(3) by (metis length_map)
  then have "length (sq_flags (sq_start ?n1) ?n) + length wrs = length (sq_flags (sq_start ?n1) ?n1)"
    unfolding app [symmetric] by simp
  then have "length (sq_flags (sq_start ?n1) ?n) + length wrs \<le> kSQDepth"
    using sq_room [of ?n1] by (simp add: kSQDepth_def kUnsigBatch_def)
  then show ?thesis
    using t1 app by (simp add: sq_ok_def l(2) log_nic_def sq_event_def)
qed

lemma multiple_between: "(q - 1) * kUnsigBatch + 1 \<le> i \<Longrightarrow> i < q * kUnsigBatch \<Longrightarrow> i mod kUnsigBatch \<noteq> 0"
proof
  assume a: "(q - 1) * kUnsigBatch + 1 \<le> i" "i < q * kUnsigBatch" "i mod kUnsigBatch = 0"
  then have i: "i = i div kUnsigBatch * kUnsigBatch"
    using div_mult_mod_eq [of i kUnsigBatch] by simp
  have "(q - 1) * kUnsigBatch < i div kUnsigBatch * kUnsigBatch" "i div kUnsigBatch * kUnsigBatch < q * kUnsigBatch"
    using a(1,2) i by linarith+
  then show False
    by simp
qed

lemma tx_flush_sq:
  assumes "tx_flush dbg post_ok t = Some t'" "sq_ok t"
  shows "sq_ok t'"
proof (cases "tr_nb_tx t = 0")
  case False
  let ?n = "tr_nb_tx t" let ?wr = "\<lparr>wr_signaled = True, wr_inline = True, wr_sgl = [\<lparr>sg_addr = 0, sg_length = 1, sg_lkey = 0\<rparr>], wr_dest = None\<rparr>"
  have log: "tr_log t' = tr_log t @ [PollSend, PostSend [?wr], PollSend]" "tr_nb_tx t' = 0"
    using assms(1) False by (auto simp: tx_flush_def log_nic_def Let_def bind_eq_Some_conv)
  let ?m = "(?n - 1) div kUnsigBatch * kUnsigBatch"
  have m: "?m < ?n" "?m mod kUnsigBatch = 0" "?n \<le> ?m + kUnsigBatch"
    using False pred_bounds [of ?n kUnsigBatch] by (simp_all add: kUnsigBatch_def)
  define q where "q = (?n - 1) div kUnsigBatch"
  have start: "sq_start ?n = (if q = 0 then 0 else (q - 1) * kUnsigBatch + 1)"
    by (auto simp: sq_start_def q_def kUnsigBatch_def)
  have "sq_start ?n \<le> ?m"
    unfolding start q_def [symmetric] by (cases q) (auto simp: kUnsigBatch_def)
  moreover have "i mod kUnsigBatch \<noteq> 0" if "sq_start ?n \<le> i" "i < ?m" for i
    using that multiple_between [of q i] unfolding start q_def [symmetric] by (cases q) auto
  ultimately
  have first: "sq_event PollSend (sq_flags (sq_start ?n) ?n) = Some (sq_flags (?m + 1) ?n)"
    using sq_flags_poll [OF _ m(1,2)] by blast
  have none: "set (sq_flags (?m + 1) ?n) \<subseteq> {False}"
  proof -
    have "i mod kUnsigBatch \<noteq> 0" if "?m + 1 \<le> i" "i < ?n" for i
      using that m(3) multiple_between [of "q + 1" i] by (simp add: q_def)
    then show ?thesis
      by (simp add: sq_flags_def image_subset_iff)
  qed
  have "length (sq_flags (?m + 1) ?n) < kSQDepth"
    using m(3) by (simp add: sq_flags_def kSQDepth_def kUnsigBatch_def)
  moreover have "dropWhile Not (sq_flags (?m + 1) ?n @ [True]) = [True]"
    using none by (subst dropWhile_append2) auto
  ultimately have "sq_run [PollSend, PostSend [?wr], PollSend] (sq_flags (sq_start ?n) ?n) = Some []"
    using first by (simp add: sq_event_def)
  then show ?thesis
    using assms(2) by (simp add: sq_ok_def log sq_run_append sq_flags_def del: sq_run.simps)
qed (use assms in \<open>simp add: tx_flush_def\<close>)

subsection \<open>The receive queue\<close>

text \<open>The receive requests form a ring that is posted in order. \<open>pos\<close> counts the requests posted so far;
  a request posted out of turn is an error.\<close>

definition rq_event :: "nic_event \<Rightarrow> nat \<Rightarrow> nat option" where
  "rq_event e pos =
    (case e of
       PostRecv first n \<Rightarrow> if first = pos mod kNumRxRingEntries then Some (pos + n) else None
     | PostRecvFast n \<Rightarrow> Some (pos + n)
     | _ \<Rightarrow> Some pos)"

fun rq_run :: "nic_event list \<Rightarrow> nat \<Rightarrow> nat option" where
  "rq_run [] pos = Some pos"
| "rq_run (e # es) pos = rq_event e pos \<bind> rq_run es"

lemma rq_run_append: "rq_run (es @ fs) pos = rq_run es pos \<bind> rq_run fs"
  by (induction es arbitrary: pos) (auto split: Option.bind_splits)

lemma rq_run_snoc [simp]: "rq_run (es @ [e]) pos = rq_run es pos \<bind> rq_event e"
  by (cases "rq_run es pos") (auto simp: rq_run_append split: Option.bind_splits)

definition rq_ok :: "nat \<Rightarrow> ib_transport \<Rightarrow> bool" where
  "rq_ok rx t \<longleftrightarrow> tr_recvs_to_post t \<le> rx \<and> tr_recvs_to_post t < kRecvSlack \<and>
     rq_run (tr_log t) 0 = Some (rx - tr_recvs_to_post t) \<and>
     (\<not> tr_use_fast_recv t \<longrightarrow> tr_recv_head t = (rx - tr_recvs_to_post t) mod kNumRxRingEntries)"

lemma ring_advance:
  assumes "0 < k" "k < n"
  shows "((let l = pos mod n + (k - 1) in if n \<le> l then l - n else l) + 1) mod n = (pos + k) mod (n :: nat)"
proof -
  have "(pos + k) mod n = (pos mod n + k) mod n"
    by (simp add: mod_add_left_eq)
  moreover have "n \<le> pos mod n + (k - 1) \<Longrightarrow> pos mod n + (k - 1) - n + 1 = pos mod n + k - n"
    "pos mod n + (k - 1) + 1 = pos mod n + k"
    using assms(1) by linarith+
  ultimately show ?thesis
    by (cases "n \<le> pos mod n + (k - 1)") (simp_all only: Let_def if_True if_False le_mod_geq [of n "pos mod n + k"])
qed

lemma tx_burst_loop_rq:
  assumes "tx_burst_loop dbg hdrs sz sers route items t = Some (wrs, t')"
  shows "rq_run (tr_log t') 0 = rq_run (tr_log t) 0 \<and> tr_use_fast_recv t' = tr_use_fast_recv t \<and>
    tr_recv_head t' = tr_recv_head t \<and> tr_recvs_to_post t' = tr_recvs_to_post t"
  using assms
proof (induction items arbitrary: t wrs)
  case (Cons item items)
  obtain sig t1 where g: "get_signaled_flag t = (sig, t1)"
    by fastforce
  obtain wrs1 where "tx_burst_loop dbg hdrs sz sers route items t1 = Some (wrs1, t')"
    using Cons.prems g by (auto simp: bind_eq_Some_conv)
  from Cons.IH [OF this] g show ?case
    by (cases "rq_run (tr_log t) 0") (auto simp: get_signaled_flag_def log_nic_def rq_event_def split: if_splits)
qed simp

lemma tx_rq:
  "tx_burst dbg post_ok hdrs sz sers route items t = Some t' \<Longrightarrow> rq_ok rx t \<Longrightarrow> rq_ok rx t'"
  "tx_flush dbg post_ok t = Some t' \<Longrightarrow> rq_ok rx t \<Longrightarrow> rq_ok rx t'"
  by (auto simp: tx_burst_def tx_flush_def rq_ok_def log_nic_def Let_def bind_eq_Some_conv rq_event_def rq_run_append
      dest!: tx_burst_loop_rq split: if_splits)

lemma post_recvs_rq:
  assumes "post_recvs dbg post_ok n t = Some t'" "rq_ok rx t" "n \<le> kPostlist"
  shows "rq_ok (rx + n) t'"
proof -
  let ?k = "tr_recvs_to_post t + n"
  have k: "?k < kNumRxRingEntries" "kRecvSlack \<le> ?k \<Longrightarrow> 0 < ?k"
    using assms(2,3) by (auto simp: rq_ok_def kRecvSlack_def kPostlist_def kNumRxRingEntries_def)
  let ?pos = "rx - tr_recvs_to_post t"
  have pos: "?pos + ?k = rx + n" "?pos mod kNumRxRingEntries < kNumRxRingEntries"
    using assms(2) by (auto simp: rq_ok_def kNumRxRingEntries_def)
  consider "?k < kRecvSlack" "t' = t\<lparr>tr_recvs_to_post := ?k\<rparr>"
    | "kRecvSlack \<le> ?k" "tr_use_fast_recv t" "t' = (log_nic (PostRecvFast ?k) t)\<lparr>tr_recvs_to_post := 0\<rparr>"
    | "kRecvSlack \<le> ?k" "\<not> tr_use_fast_recv t"
      "t' = (log_nic (PostRecv (tr_recv_head t) ?k) t)\<lparr>tr_recvs_to_post := 0, tr_recv_head :=
        ((let l = tr_recv_head t + (?k - 1) in if kNumRxRingEntries \<le> l then l - kNumRxRingEntries else l) + 1) mod kNumRxRingEntries\<rparr>"
    using assms(1) by (auto simp: post_recvs_def Let_def log_nic_def bind_eq_Some_conv not_less split: if_splits)
  then show ?thesis
  proof cases
    case 1
    then show ?thesis
      using assms(2) by (auto simp: rq_ok_def)
  next
    case 2
    then show ?thesis
      using assms(2) pos by (auto simp: rq_ok_def log_nic_def rq_event_def kRecvSlack_def)
  next
    case 3
    then show ?thesis
      using assms(2) pos(1) ring_advance [OF k(2) k(1), of ?pos]
      by (auto simp: rq_ok_def log_nic_def rq_event_def kRecvSlack_def)
  qed
qed

section \<open>Properties\<close>

text \<open>The transports that a run of the datapath can reach; \<open>rx\<close> counts the packets received.\<close>

inductive tr_reach :: "bool \<Rightarrow> (nat \<Rightarrow> bool) \<Rightarrow> nat \<Rightarrow> ib_transport \<Rightarrow> bool" for dbg post_ok where
  start: "tr_reach dbg post_ok 0 (init_sends \<lparr>tr_opcode = op, tr_use_fast_recv = fast, tr_nb_tx = 0, tr_recv_head = 0,
    tr_recvs_to_post = 0, tr_tx_flush_count = 0, tr_log = []\<rparr>)"
| burst: "tr_reach dbg post_ok rx t \<Longrightarrow> tx_burst dbg post_ok hdrs sz sers route items t = Some t' \<Longrightarrow> tr_reach dbg post_ok rx t'"
| flush: "tr_reach dbg post_ok rx t \<Longrightarrow> tx_flush dbg post_ok t = Some t' \<Longrightarrow> tr_reach dbg post_ok rx t'"
| recvs: "tr_reach dbg post_ok rx t \<Longrightarrow> rx_burst polled = Some n \<Longrightarrow> post_recvs dbg post_ok n t = Some t' \<Longrightarrow>
    tr_reach dbg post_ok (rx + n) t'"

text \<open>(C33) Along every run of the datapath, whatever it sends and receives, every poll of the send queue
  finds a signaled request that is still out, the send queue never holds more than its 128 entries,
  and the receive requests are posted in ring order, with less than 32 received packets not yet
  posted again.\<close>

theorem transport_queues_safe:
  assumes "tr_reach dbg post_ok rx t"
  shows "(\<exists>out. sq_run (tr_log t) [] = Some out \<and> length out \<le> kSQDepth) \<and>
    rq_run (tr_log t) 0 = Some (rx - tr_recvs_to_post t) \<and> tr_recvs_to_post t \<le> rx \<and> tr_recvs_to_post t < kRecvSlack"
proof -
  have "sq_ok t \<and> rq_ok rx t"
    using assms
  proof induction
    case (start op fast)
    then show ?case
      by (simp add: sq_ok_def rq_ok_def init_sends_def sq_flags_def kRecvSlack_def)
  next
    case (burst rx t hdrs sz sers route items t')
    then show ?case
      using tx_burst_sq tx_rq(1) by blast
  next
    case (flush rx t t')
    then show ?case
      using tx_flush_sq tx_rq(2) by blast
  next
    case (recvs rx t polled n t')
    then have "n \<le> kPostlist"
      by (auto simp: rx_burst_def bind_eq_Some_conv)
    moreover have "tr_log t' = tr_log t \<and> tr_nb_tx t' = tr_nb_tx t \<or> (\<exists>e. tr_log t' = tr_log t @ [e] \<and> tr_nb_tx t' = tr_nb_tx t \<and>
        (\<forall>out. sq_event e out = Some out))"
      using recvs.hyps(3) by (auto simp: post_recvs_def Let_def log_nic_def bind_eq_Some_conv sq_event_def split: if_splits)
    ultimately show ?case
      using recvs post_recvs_rq by (auto simp: sq_ok_def)
  qed
  then show ?thesis
    using sq_room [of "tr_nb_tx t"] by (auto simp: sq_ok_def rq_ok_def kSQDepth_def kUnsigBatch_def)
qed

definition sge_disjoint :: "sge \<Rightarrow> sge \<Rightarrow> bool" where
  "sge_disjoint a b \<longleftrightarrow> sg_addr a + sg_length a \<le> sg_addr b \<or> sg_addr b + sg_length b \<le> sg_addr a"



text \<open>A run that sends one request of one packet, with the header at address 1000 and no data.\<close>

definition hdr_ex :: pkthdr where
  "hdr_ex = \<lparr>ph_headroom = [], ph_req_type = 3, ph_msg_size = 0, ph_dest_session_num = 0, ph_pkt_type = kReq, ph_pkt_num = 0,
     ph_req_num = 32, ph_magic = 11, ph_lkey = 7, ph_total_pkt = 1, ph_this_msg_size = 0\<rparr>"

definition ser_ex :: serializer where
  "ser_ex = \<lparr>sr_iov = \<lparr>iv_capacity = 2300, iv_begin = 0, iv_end = 1, iv_nbases = 0,
       iv_iovs = [\<lparr>iov_base = 1000, iov_len = 64\<rparr>]\<rparr>,
     sr_total_pkg = 1, sr_t_iov = iovector_new [] 0 0, sr_data_pkg_index = [0, 0], sr_iovfull = False, sr_is_sick = False,
     sr_used_size = 0, sr_new_buff = None\<rparr>"

theorem transport_queues_safe_witness:
  "\<exists>t. tr_reach False (\<lambda>_. True) 0 t \<and> tr_nb_tx t = 1 \<and> (\<exists>out. sq_run (tr_log t) [] = Some out \<and> length out \<le> kSQDepth)"
proof -
  let ?t = "init_sends \<lparr>tr_opcode = IBV_WR_SEND, tr_use_fast_recv = False, tr_nb_tx = 0, tr_recv_head = 0,
    tr_recvs_to_post = 0, tr_tx_flush_count = 0, tr_log = []\<rparr>"
  let ?item = "\<lparr>ti_session = 0, ti_msg_buffer = UserSer 0, ti_pkt_idx = 0, ti_tx_ts = None, ti_drop = False\<rparr>"
  obtain t where t: "tx_burst False (\<lambda>_. True) (\<lambda>_. hdr_ex) 64 (\<lambda>_. ser_ex) (\<lambda>_. Some []) [?item] ?t = Some t"
    "tr_nb_tx t = 1"
    by (simp add: tx_burst_def init_sends_def get_signaled_flag_def fill_wr_def get_n_hdr_def iv_at_def iv_do_assert_def
        INT_MAX_def ser_ex_def hdr_ex_def log_nic_def kPostlist_def)
  then have "tr_reach False (\<lambda>_. True) 0 t"
    using tr_reach.burst [OF tr_reach.start] by blast
  then show ?thesis
    using transport_queues_safe [of False "\<lambda>_. True" 0 t] t(2) by blast
qed

end
