(* ===== verification/Timing_Wheel.thy ===== *)
theory Timing_Wheel
  imports Math_Utils Complex_Main
begin

section \<open>The timing wheel\<close>

text \<open>
  Model of \<^verbatim>\<open>class TimingWheel\<close> (src/src/cc/timing_wheel.h) and of the pool behind it
  (src/src/util/mempool.h). A wheel slot is a chain of buckets of five entries; slot \<open>i\<close> is the
  bucket at address \<open>i\<close> and further buckets come from the pool. The buckets are a store from
  addresses to buckets, so that \<^verbatim>\<open>next_\<close> and \<^verbatim>\<open>last_\<close> are pointers as in the code. \<open>raw k\<close> is the
  address of the \<open>k\<close>-th array of buckets that the hugepage allocator gives the pool, or \<open>None\<close>
  when it fails. The number of slots, their width and the horizon are computed from floating
  point constants at construction and are fields here. The bit-fields of a bucket (3 bits for
  the number of entries, 61 for the time) are truncated where they are written.

  The abstract wheel is the list of the slots' entries starting at the current slot; the
  operations refine it.
\<close>

record 'e wheel_bkt =
  wb_num_entries :: nat
  wb_tx_tsc :: nat
  wb_last :: nat
  wb_next :: "nat option"
  wb_entry :: "nat \<Rightarrow> 'e"

record mempool =
  mp_num_to_alloc :: nat
  mp_pool :: "nat list"
  mp_calls :: nat

record 'e timing_wheel =
  tw_wslot_width_tsc :: nat
  tw_horizon_tsc :: nat
  tw_num_wslots :: nat
  tw_bkts :: "nat \<Rightarrow> 'e wheel_bkt"
  tw_cur_wslot :: nat
  tw_bkt_pool :: mempool
  tw_ready_queue :: "'e list"

definition kWheelBucketCap :: nat where
  "kWheelBucketCap = 5"

definition tsc61 :: "nat \<Rightarrow> nat" where
  "tsc61 t = t mod 2 ^ 61"

definition upd_bkt :: "nat \<Rightarrow> ('e wheel_bkt \<Rightarrow> 'e wheel_bkt) \<Rightarrow> 'e timing_wheel \<Rightarrow> 'e timing_wheel" where
  "upd_bkt a f w = w\<lparr>tw_bkts := (tw_bkts w)(a := f (tw_bkts w a))\<rparr>"

subsection \<open>The pool\<close>

definition extend_pool :: "(nat \<Rightarrow> nat option) \<Rightarrow> mempool \<Rightarrow> mempool option" where
  "extend_pool raw p = do {
     b \<leftarrow> raw (mp_calls p);
     Some (p\<lparr>mp_pool := mp_pool p @ [b..<b + mp_num_to_alloc p], mp_num_to_alloc := mp_num_to_alloc p * 2,
              mp_calls := mp_calls p + 1\<rparr>)
   }"

definition pool_alloc :: "(nat \<Rightarrow> nat option) \<Rightarrow> mempool \<Rightarrow> (nat \<times> mempool) option" where
  "pool_alloc raw p = do {
     p \<leftarrow> (if mp_pool p = [] then extend_pool raw p else Some p);
     cassert (mp_pool p \<noteq> []);
     Some (last (mp_pool p), p\<lparr>mp_pool := butlast (mp_pool p)\<rparr>)
   }"

definition pool_free :: "nat \<Rightarrow> mempool \<Rightarrow> mempool" where
  "pool_free t p = p\<lparr>mp_pool := mp_pool p @ [t]\<rparr>"

subsection \<open>Buckets\<close>

definition reset_bkt :: "nat \<Rightarrow> 'e timing_wheel \<Rightarrow> 'e timing_wheel" where
  "reset_bkt a w = upd_bkt a (\<lambda>b. b\<lparr>wb_next := None, wb_num_entries := 0\<rparr>) w"

definition alloc_bkt :: "(nat \<Rightarrow> nat option) \<Rightarrow> 'e timing_wheel \<Rightarrow> (nat \<times> 'e timing_wheel) option" where
  "alloc_bkt raw w = do {
     (a, p) \<leftarrow> pool_alloc raw (tw_bkt_pool w);
     Some (a, reset_bkt a (w\<lparr>tw_bkt_pool := p\<rparr>))
   }"

definition insert_into_wslot ::
  "bool \<Rightarrow> (nat \<Rightarrow> nat option) \<Rightarrow> nat \<Rightarrow> 'e \<Rightarrow> 'e timing_wheel \<Rightarrow> 'e timing_wheel option" where
  "insert_into_wslot dbg raw ws_i ent w = do {
     let last_bkt = wb_last (tw_bkts w ws_i);
     let n = wb_num_entries (tw_bkts w last_bkt);
     dassert dbg (wb_next (tw_bkts w last_bkt) = None);
     cassert (n < kWheelBucketCap);
     let w = upd_bkt last_bkt (\<lambda>b. b\<lparr>wb_entry := (wb_entry b)(n := ent), wb_num_entries := (n + 1) mod 2 ^ 3\<rparr>) w;
     if wb_num_entries (tw_bkts w last_bkt) = kWheelBucketCap then do {
       (new_bkt, w) \<leftarrow> alloc_bkt raw w;
       let w = upd_bkt last_bkt (\<lambda>b. b\<lparr>wb_next := Some new_bkt\<rparr>) w;
       Some (upd_bkt ws_i (\<lambda>b. b\<lparr>wb_last := new_bkt\<rparr>) w)
     } else Some w
   }"

partial_function (option) reap_chain :: "nat \<Rightarrow> nat option \<Rightarrow> 'e timing_wheel \<Rightarrow> 'e timing_wheel option" where
  "reap_chain ws_i bkt w =
    (case bkt of
       None \<Rightarrow> Some w
     | Some a \<Rightarrow>
         let b = tw_bkts w a;
             w = w\<lparr>tw_ready_queue := tw_ready_queue w @ map (wb_entry b) [0..<wb_num_entries b]\<rparr>;
             w = reset_bkt a w;
             w = (if a \<noteq> ws_i then w\<lparr>tw_bkt_pool := pool_free a (tw_bkt_pool w)\<rparr> else w)
         in reap_chain ws_i (wb_next b) w)"

definition reap_wslot :: "nat \<Rightarrow> 'e timing_wheel \<Rightarrow> 'e timing_wheel option" where
  "reap_wslot ws_i w = do {
     w \<leftarrow> reap_chain ws_i (Some ws_i) w;
     Some (upd_bkt ws_i (\<lambda>b. b\<lparr>wb_last := ws_i\<rparr>) w)
   }"

subsection \<open>The wheel\<close>

text \<open>One iteration of the loop of \<^verbatim>\<open>reap\<close>.\<close>

definition reap_one :: "'e timing_wheel \<Rightarrow> 'e timing_wheel option" where
  "reap_one w = do {
     let c = tw_cur_wslot w;
     w \<leftarrow> reap_wslot c w;
     let w = upd_bkt c (\<lambda>b. b\<lparr>wb_tx_tsc := tsc61 (wb_tx_tsc b + tw_wslot_width_tsc w * tw_num_wslots w)\<rparr>) w;
     Some (w\<lparr>tw_cur_wslot := (if c + 1 = tw_num_wslots w then 0 else c + 1)\<rparr>)
   }"

partial_function (option) reap :: "nat \<Rightarrow> 'e timing_wheel \<Rightarrow> 'e timing_wheel option" where
  "reap reap_tsc w =
    (if wb_tx_tsc (tw_bkts w (tw_cur_wslot w)) \<le> reap_tsc
     then do { w \<leftarrow> reap_one w; reap reap_tsc w }
     else Some w)"

text \<open>\<open>rdtsc k\<close> is the \<open>k\<close>-th reading of the time stamp counter.\<close>

partial_function (option) catchup :: "(nat \<Rightarrow> nat) \<Rightarrow> nat \<Rightarrow> 'e timing_wheel \<Rightarrow> (nat \<times> 'e timing_wheel) option" where
  "catchup rdtsc k w =
    (if wb_tx_tsc (tw_bkts w (tw_cur_wslot w)) < rdtsc k
     then do { w \<leftarrow> reap (rdtsc (k + 1)) w; catchup rdtsc (k + 2) w }
     else Some (k + 1, w))"

definition wheel_insert ::
  "bool \<Rightarrow> (nat \<Rightarrow> nat option) \<Rightarrow> 'e \<Rightarrow> nat \<Rightarrow> nat \<Rightarrow> 'e timing_wheel \<Rightarrow> 'e timing_wheel option" where
  "wheel_insert dbg raw ent ref_tsc desired_tx_tsc w = do {
     dassert dbg (ref_tsc \<le> desired_tx_tsc);
     dassert dbg (desired_tx_tsc - ref_tsc \<le> tw_horizon_tsc w);
     w \<leftarrow> reap ref_tsc w;
     let c = tw_cur_wslot w;
     let cur_tx = wb_tx_tsc (tw_bkts w c);
     dassert dbg (ref_tsc < cur_tx);
     dst_wslot \<leftarrow>
       (if desired_tx_tsc \<le> cur_tx then Some c
        else do {
          cassert (tw_wslot_width_tsc w \<noteq> 0);
          let wslot_delta = 1 + (desired_tx_tsc - cur_tx) div tw_wslot_width_tsc w;
          dassert dbg (wslot_delta < tw_num_wslots w);
          let d = c + wslot_delta;
          Some (if tw_num_wslots w \<le> d then d - tw_num_wslots w else d)
        });
     cassert (dst_wslot < tw_num_wslots w);
     insert_into_wslot dbg raw dst_wslot ent w
   }"

definition TimingWheel_new :: "nat \<Rightarrow> nat \<Rightarrow> nat \<Rightarrow> (nat \<Rightarrow> 'e wheel_bkt) \<Rightarrow> nat \<Rightarrow> 'e timing_wheel" where
  "TimingWheel_new width horizon n garbage base_tsc =
    \<lparr>tw_wslot_width_tsc = width, tw_horizon_tsc = horizon, tw_num_wslots = n,
     tw_bkts = (\<lambda>a. if a < n
                    then (garbage a)\<lparr>wb_next := None, wb_num_entries := 0,
                                     wb_tx_tsc := tsc61 (base_tsc + (a + 1) * width), wb_last := a\<rparr>
                    else garbage a),
     tw_cur_wslot = 0,
     tw_bkt_pool = \<lparr>mp_num_to_alloc = 2 * 1024 * 1024 div 64, mp_pool = [], mp_calls = 0\<rparr>,
     tw_ready_queue = []\<rparr>"

text \<open>The derived constants, with real numbers for the doubles: \<open>mtu\<close> is the transport's MTU.\<close>

definition us_to_cycles :: "real \<Rightarrow> real \<Rightarrow> nat" where
  "us_to_cycles us freq_ghz = nat \<lfloor>us * 1000 * freq_ghz\<rfloor>"

definition kWheelSlotWidthUs :: real where
  "kWheelSlotWidthUs = 1 / 2"

definition kWheelHorizonUs :: "nat \<Rightarrow> real" where
  "kWheelHorizonUs mtu = 1000000 * (32 * real mtu) / (15 * 1000 * 1000)"

definition erpc_ceil :: "real \<Rightarrow> nat" where
  "erpc_ceil num = (if real (nat \<lfloor>num\<rfloor>) = num then nat \<lfloor>num\<rfloor> else nat \<lfloor>num\<rfloor> + (if 0 < num then 1 else 0))"

definition kWheelNumWslots :: "nat \<Rightarrow> nat" where
  "kWheelNumWslots mtu = 1 + erpc_ceil (kWheelHorizonUs mtu / kWheelSlotWidthUs)"

definition TimingWheel_make :: "real \<Rightarrow> nat \<Rightarrow> (nat \<Rightarrow> 'e wheel_bkt) \<Rightarrow> nat \<Rightarrow> 'e timing_wheel" where
  "TimingWheel_make freq_ghz mtu garbage base_tsc =
    TimingWheel_new (us_to_cycles kWheelSlotWidthUs freq_ghz) (us_to_cycles (kWheelHorizonUs mtu) freq_ghz)
      (kWheelNumWslots mtu) garbage base_tsc"

section \<open>Chains of buckets\<close>

lemma upd_bkt_simps [simp]:
  "tw_bkts (upd_bkt a f w) = (tw_bkts w)(a := f (tw_bkts w a))"
  "tw_ready_queue (upd_bkt a f w) = tw_ready_queue w" "tw_bkt_pool (upd_bkt a f w) = tw_bkt_pool w"
  "tw_cur_wslot (upd_bkt a f w) = tw_cur_wslot w" "tw_num_wslots (upd_bkt a f w) = tw_num_wslots w"
  "tw_wslot_width_tsc (upd_bkt a f w) = tw_wslot_width_tsc w" "tw_horizon_tsc (upd_bkt a f w) = tw_horizon_tsc w"
  by (simp_all add: upd_bkt_def)

fun chain :: "(nat \<Rightarrow> 'e wheel_bkt) \<Rightarrow> nat option \<Rightarrow> nat list \<Rightarrow> bool" where
  "chain f p [] \<longleftrightarrow> p = None"
| "chain f p (a # as) \<longleftrightarrow> p = Some a \<and> chain f (wb_next (f a)) as"

definition bents :: "(nat \<Rightarrow> 'e wheel_bkt) \<Rightarrow> nat \<Rightarrow> 'e list" where
  "bents f a = map (wb_entry (f a)) [0..<wb_num_entries (f a)]"

definition ents :: "(nat \<Rightarrow> 'e wheel_bkt) \<Rightarrow> nat list \<Rightarrow> 'e list" where
  "ents f as = concat (map (bents f) as)"

lemma chain_cong: "(\<And>a. a \<in> set as \<Longrightarrow> wb_next (f a) = wb_next (g a)) \<Longrightarrow> chain f p as \<longleftrightarrow> chain g p as"
  by (induction as arbitrary: p) auto

lemma ents_cong: "(\<And>a. a \<in> set as \<Longrightarrow> wb_entry (f a) = wb_entry (g a) \<and> wb_num_entries (f a) = wb_num_entries (g a)) \<Longrightarrow>
    ents f as = ents g as"
  by (auto simp: ents_def bents_def intro!: arg_cong [of _ _ concat])

lemma chain_extend:
  "chain f p as \<Longrightarrow> as \<noteq> [] \<Longrightarrow> distinct as \<Longrightarrow> a \<notin> set as \<Longrightarrow> wb_next (f a) = None \<Longrightarrow>
    chain (f(last as := (f (last as))\<lparr>wb_next := Some a\<rparr>)) p (as @ [a])"
proof (induction as arbitrary: p)
  case (Cons b as)
  then show ?case
    by (cases "as = []") (auto simp: fun_upd_def)
qed simp

lemma chain_last_next: "chain f p as \<Longrightarrow> as \<noteq> [] \<Longrightarrow> wb_next (f (last as)) = None"
  by (induction as arbitrary: p) (auto split: if_splits)

definition reaped :: "nat \<Rightarrow> nat list \<Rightarrow> 'e timing_wheel \<Rightarrow> 'e timing_wheel" where
  "reaped ws as w = w\<lparr>tw_ready_queue := tw_ready_queue w @ ents (tw_bkts w) as,
    tw_bkts := (\<lambda>a. if a \<in> set as then (tw_bkts w a)\<lparr>wb_next := None, wb_num_entries := 0\<rparr> else tw_bkts w a),
    tw_bkt_pool := (tw_bkt_pool w)\<lparr>mp_pool := mp_pool (tw_bkt_pool w) @ filter (\<lambda>a. a \<noteq> ws) as\<rparr>\<rparr>"

lemma reap_chain_spec:
  assumes "chain (tw_bkts w) p as" "distinct as"
  shows "reap_chain ws p w = Some (reaped ws as w)"
  using assms
proof (induction as arbitrary: p w)
  case Nil
  then show ?case
    by (subst reap_chain.simps) (simp add: ents_def reaped_def)
next
  case (Cons a as)
  let ?b = "tw_bkts w a"
  let ?w1 = "(reset_bkt a (w\<lparr>tw_ready_queue := tw_ready_queue w @ bents (tw_bkts w) a\<rparr>))
    \<lparr>tw_bkt_pool := (if a \<noteq> ws then pool_free a (tw_bkt_pool w) else tw_bkt_pool w)\<rparr>"
  have step: "reap_chain ws p w = reap_chain ws (wb_next ?b) ?w1"
    using Cons.prems(1) by (subst reap_chain.simps) (simp add: Let_def bents_def reset_bkt_def upd_bkt_def)
  have same: "b \<in> set as \<Longrightarrow> tw_bkts ?w1 b = tw_bkts w b" for b
    using Cons.prems(2) by (auto simp: reset_bkt_def)
  have "chain (tw_bkts ?w1) (wb_next ?b) as"
    using Cons.prems(1) chain_cong [of as "tw_bkts ?w1" "tw_bkts w" "wb_next ?b"] same by simp
  then have "reap_chain ws (wb_next ?b) ?w1 = Some (reaped ws as ?w1)"
    using Cons.IH Cons.prems(2) by simp
  moreover have ents: "ents (tw_bkts ?w1) as = ents (tw_bkts w) as"
    using same by (intro ents_cong) simp
  have "reaped ws as ?w1 = reaped ws (a # as) w"
  proof (rule timing_wheel.equality)
    show "tw_bkts (reaped ws as ?w1) = tw_bkts (reaped ws (a # as) w)"
      using Cons.prems(2) by (auto simp: reaped_def reset_bkt_def fun_eq_iff)
    show "tw_ready_queue (reaped ws as ?w1) = tw_ready_queue (reaped ws (a # as) w)"
      using ents by (simp add: reaped_def) (simp add: ents_def reset_bkt_def)
  qed (auto simp: reaped_def reset_bkt_def pool_free_def upd_bkt_def)
  ultimately show ?case
    using step by simp
qed

subsection \<open>The invariant\<close>

definition slot_ok :: "(nat \<Rightarrow> 'e wheel_bkt) \<Rightarrow> nat \<Rightarrow> nat list \<Rightarrow> bool" where
  "slot_ok f i as \<longleftrightarrow> as \<noteq> [] \<and> chain f (Some i) as \<and> wb_last (f i) = last as \<and>
     (\<forall>a \<in> set (butlast as). wb_num_entries (f a) = kWheelBucketCap) \<and> wb_num_entries (f (last as)) < kWheelBucketCap"

definition raw_range :: "(nat \<Rightarrow> nat option) \<Rightarrow> nat \<Rightarrow> nat set" where
  "raw_range raw k = (case raw k of None \<Rightarrow> {} | Some b \<Rightarrow> {b..<b + 32768 * 2 ^ k})"

text \<open>What the wheel relies on: the arrays the allocator hands out are disjoint from the wheel and
  from each other.\<close>

definition raw_ok :: "(nat \<Rightarrow> nat option) \<Rightarrow> nat \<Rightarrow> bool" where
  "raw_ok raw n \<longleftrightarrow> (\<forall>k. raw k \<noteq> None \<and> raw_range raw k \<inter> {0..<n} = {}) \<and>
     (\<forall>k l. k \<noteq> l \<longrightarrow> raw_range raw k \<inter> raw_range raw l = {})"

definition pool_ok :: "(nat \<Rightarrow> nat option) \<Rightarrow> nat set \<Rightarrow> nat \<Rightarrow> mempool \<Rightarrow> bool" where
  "pool_ok raw used n p \<longleftrightarrow> distinct (mp_pool p) \<and> set (mp_pool p) \<inter> used = {} \<and>
     mp_num_to_alloc p = 32768 * 2 ^ mp_calls p \<and>
     used \<union> set (mp_pool p) \<subseteq> {0..<n} \<union> (\<Union>k < mp_calls p. raw_range raw k)"

definition wh_ok :: "(nat \<Rightarrow> nat option) \<Rightarrow> (nat \<Rightarrow> nat list) \<Rightarrow> 'e timing_wheel \<Rightarrow> bool" where
  "wh_ok raw ch w \<longleftrightarrow> tw_cur_wslot w < tw_num_wslots w \<and>
     (\<forall>i < tw_num_wslots w. slot_ok (tw_bkts w) i (ch i) \<and> distinct (ch i)) \<and>
     (\<forall>i < tw_num_wslots w. \<forall>j < tw_num_wslots w. i \<noteq> j \<longrightarrow> set (ch i) \<inter> set (ch j) = {}) \<and>
     pool_ok raw (\<Union>i < tw_num_wslots w. set (ch i)) (tw_num_wslots w) (tw_bkt_pool w)"

lemma slot_ok_cong:
  assumes "\<And>a. a \<in> set as \<Longrightarrow> wb_next (f a) = wb_next (g a) \<and> wb_num_entries (f a) = wb_num_entries (g a)"
    and "wb_last (f i) = wb_last (g i)"
  shows "slot_ok f i as \<longleftrightarrow> slot_ok g i as"
proof -
  have "a \<in> set (butlast as) \<Longrightarrow> wb_num_entries (f a) = wb_num_entries (g a)" for a
    using assms(1) by (auto dest: in_set_butlastD)
  moreover have "as \<noteq> [] \<Longrightarrow> wb_num_entries (f (last as)) = wb_num_entries (g (last as))"
    using assms(1) by simp
  ultimately show ?thesis
    using chain_cong [of as f g "Some i"] assms by (auto simp: slot_ok_def)
qed

lemma slot_ok_hd: "slot_ok f i as \<Longrightarrow> i \<in> set as"
  by (cases as) (auto simp: slot_ok_def)

lemma pool_alloc_spec:
  assumes "pool_ok raw used n p" "raw_ok raw n"
  obtains a p' where "pool_alloc raw p = Some (a, p')" "a \<notin> used" "pool_ok raw (insert a used) n p'"
proof (cases "mp_pool p = []")
  case False
  have sub: "mp_pool p = butlast (mp_pool p) @ [last (mp_pool p)]"
    using False by simp
  have "distinct (butlast (mp_pool p) @ [last (mp_pool p)])"
    using assms(1) sub by (simp add: pool_ok_def)
  then have "last (mp_pool p) \<notin> set (butlast (mp_pool p))" "distinct (butlast (mp_pool p))"
    by simp_all
  moreover have mem: "last (mp_pool p) \<in> set (mp_pool p)"
    using False by simp
  then have "last (mp_pool p) \<notin> used" "set (butlast (mp_pool p)) \<inter> used = {}"
    using assms(1) by (auto simp: pool_ok_def dest: in_set_butlastD)
  ultimately have "pool_ok raw (insert (last (mp_pool p)) used) n (p\<lparr>mp_pool := butlast (mp_pool p)\<rparr>)"
    using assms(1) mem unfolding pool_ok_def by (auto simp del: Un_iff dest: in_set_butlastD)
  then show thesis
    using that False \<open>last (mp_pool p) \<notin> used\<close> by (simp add: pool_alloc_def)
next
  case True
  obtain b where b: "raw (mp_calls p) = Some b"
    using assms(2) unfolding raw_ok_def by blast
  let ?n = "mp_num_to_alloc p"
  have n: "?n = 32768 * 2 ^ mp_calls p"
    using assms(1) by (simp add: pool_ok_def)
  have range: "raw_range raw (mp_calls p) = {b..<b + ?n}"
    by (simp add: raw_range_def b n)
  have fresh: "{b..<b + ?n} \<inter> used = {}"
  proof -
    have "raw_range raw (mp_calls p) \<inter> raw_range raw k = {}" if "k < mp_calls p" for k
      using assms(2) that unfolding raw_ok_def by (metis less_irrefl)
    moreover have "raw_range raw (mp_calls p) \<inter> {0..<n} = {}"
      using assms(2) unfolding raw_ok_def by blast
    ultimately have "raw_range raw (mp_calls p) \<inter> ({0..<n} \<union> (\<Union>k < mp_calls p. raw_range raw k)) = {}"
      by blast
    then show ?thesis
      using assms(1) unfolding range pool_ok_def by blast
  qed
  have "0 < ?n"
    by (simp add: n)
  then obtain m where m: "?n = Suc m"
    using gr0_implies_Suc by blast
  let ?p = "p\<lparr>mp_pool := [b..<b + m], mp_num_to_alloc := ?n * 2, mp_calls := mp_calls p + 1\<rparr>"
  have "pool_alloc raw p = Some (b + m, ?p)"
    using True b m by (simp add: pool_alloc_def extend_pool_def)
  moreover have "b + m \<notin> used" "set [b..<b + m] \<inter> insert (b + m) used = {}"
    using fresh by (auto simp: m disjoint_iff)
  moreover have "insert (b + m) used \<union> set [b..<b + m] \<subseteq> {0..<n} \<union> (\<Union>k < mp_calls p + 1. raw_range raw k)"
  proof -
    have "insert (b + m) (set [b..<b + m]) \<subseteq> raw_range raw (mp_calls p)"
      unfolding range m by auto
    then show ?thesis
      using assms(1) unfolding pool_ok_def Suc_eq_plus1 [symmetric] lessThan_Suc by blast
  qed
  ultimately show thesis
    using n that [of "b + m" ?p] by (simp add: pool_ok_def)
qed

subsection \<open>Adding an entry to a slot\<close>

text \<open>What an operation on one slot leaves alone.\<close>

definition same_wheel :: "'e timing_wheel \<Rightarrow> 'e timing_wheel \<Rightarrow> bool" where
  "same_wheel w w' \<longleftrightarrow> tw_num_wslots w' = tw_num_wslots w \<and> tw_wslot_width_tsc w' = tw_wslot_width_tsc w \<and>
     tw_horizon_tsc w' = tw_horizon_tsc w \<and> tw_cur_wslot w' = tw_cur_wslot w \<and>
     (\<forall>i < tw_num_wslots w. wb_tx_tsc (tw_bkts w' i) = wb_tx_tsc (tw_bkts w i))"

lemma bents_snoc:
  "wb_num_entries b = n \<Longrightarrow>
    bents (f(a := b\<lparr>wb_entry := (wb_entry b)(n := e), wb_num_entries := Suc n\<rparr>)) a = map (wb_entry b) [0..<n] @ [e]"
  by (simp add: bents_def)

lemma ents_last_snoc:
  assumes "as \<noteq> []" "distinct as" "\<And>a. a \<in> set (butlast as) \<Longrightarrow> bents g a = bents f a"
    and "bents g (last as) = bents f (last as) @ [e]"
  shows "ents g as = ents f as @ [e]"
proof -
  obtain bs b where "as = bs @ [b]"
    using assms(1) by (cases as rule: rev_cases) auto
  then show ?thesis
    using assms(3,4) by (simp add: ents_def cong: map_cong)
qed

lemma ents_unaffected:
  "(\<And>a. a \<in> set as \<Longrightarrow> g a = f a) \<Longrightarrow> ents g as = ents f as"
  by (intro ents_cong) simp

lemma last_notin_butlast: "distinct as \<Longrightarrow> as \<noteq> [] \<Longrightarrow> last as \<notin> set (butlast as)"
  by (cases as rule: rev_cases) auto

lemma in_butlast: "b \<in> set as \<Longrightarrow> b \<noteq> last as \<Longrightarrow> b \<in> set (butlast as)"
  by (cases as rule: rev_cases) auto

lemma slot_push:
  assumes ok: "slot_ok f i as" "distinct as" and n: "wb_num_entries (f (last as)) = n" "Suc n < kWheelBucketCap"
    and g: "g = f(last as := (f (last as))\<lparr>wb_entry := (wb_entry (f (last as)))(n := e), wb_num_entries := Suc n\<rparr>)"
  shows "slot_ok g i as" "ents g as = ents f as @ [e]"
proof -
  have ne: "as \<noteq> []"
    using ok(1) by (simp add: slot_ok_def)
  have notin: "last as \<notin> set (butlast as)"
    by (rule last_notin_butlast [OF ok(2) ne])
  have "chain g (Some i) as" "wb_last (g i) = wb_last (f i)"
    using ok(1) chain_cong [of as g f "Some i"] by (auto simp: slot_ok_def g)
  moreover have "a \<in> set (butlast as) \<Longrightarrow> g a = f a" for a
    using notin by (auto simp: g)
  ultimately show "slot_ok g i as"
    using ok(1) n ne by (auto simp: slot_ok_def g)
  show "ents g as = ents f as @ [e]"
    by (rule ents_last_snoc [OF ne ok(2)]) (use notin n(1) in \<open>auto simp: bents_def g\<close>)
qed

lemma slot_push_full:
  assumes ok: "slot_ok f i as" "distinct as" and n: "wb_num_entries (f (last as)) = n" "Suc n = kWheelBucketCap"
    and a: "a \<notin> set as"
    and g1: "g1 = f(last as := (f (last as))\<lparr>wb_entry := (wb_entry (f (last as)))(n := e), wb_num_entries := Suc n\<rparr>)"
    and g2: "g2 = g1(a := (g1 a)\<lparr>wb_next := None, wb_num_entries := 0\<rparr>)"
    and g3: "g3 = g2(last as := (g2 (last as))\<lparr>wb_next := Some a\<rparr>)"
    and g: "g = g3(i := (g3 i)\<lparr>wb_last := a\<rparr>)"
  shows "slot_ok g i (as @ [a])" "ents g (as @ [a]) = ents f as @ [e]"
proof -
  have ne: "as \<noteq> []"
    using ok(1) by (simp add: slot_ok_def)
  have notin: "last as \<notin> set (butlast as)"
    by (rule last_notin_butlast [OF ok(2) ne])
  have L: "last as \<noteq> a" "i \<noteq> a" "last as \<in> set as"
    using a ne slot_ok_hd [OF ok(1)] by auto
  have "b \<in> set as \<Longrightarrow> wb_next (g2 b) = wb_next (f b)" for b
    using a by (auto simp: g1 g2)
  then have "chain g2 (Some i) as"
    using ok(1) chain_cong [of as g2 f "Some i"] by (simp add: slot_ok_def)
  then have "chain g3 (Some i) (as @ [a])"
    unfolding g3 using ne ok(2) a by (intro chain_extend) (auto simp: g2)
  then have "chain g (Some i) (as @ [a])"
    using chain_cong [of "as @ [a]" g g3 "Some i"] by (simp add: g)
  moreover have nums: "wb_num_entries (g b) = (if b = a then 0 else if b = last as then Suc n else wb_num_entries (f b))" for b
    using L by (simp add: g g3 g2 g1)
  have "wb_num_entries (g b) = kWheelBucketCap" if "b \<in> set as" for b
  proof (cases "b = last as")
    case False
    then have "b \<in> set (butlast as)"
      using that by (intro in_butlast)
    then show ?thesis
      using ok(1) nums False that a by (auto simp: slot_ok_def)
  qed (use nums L n(2) in simp)
  ultimately show "slot_ok g i (as @ [a])"
    using nums [of a] by (simp add: slot_ok_def g kWheelBucketCap_def)
  have entry: "wb_entry (g b) = (if b = last as then (wb_entry (f b))(n := e) else wb_entry (f b))" for b
    using L by (simp add: g g3 g2 g1)
  have "ents g as = ents f as @ [e]"
    by (rule ents_last_snoc [OF ne ok(2)])
      (use notin n(1) L a in \<open>auto simp: bents_def nums entry dest: in_set_butlastD\<close>)
  moreover have "bents g a = []"
    by (simp add: bents_def nums)
  ultimately show "ents g (as @ [a]) = ents f as @ [e]"
    by (simp add: ents_def)
qed

lemma slot_ok_unaffected:
  assumes "slot_ok f i as" "\<And>a. a \<in> set as \<Longrightarrow> g a = f a"
  shows "slot_ok g i as"
  using assms slot_ok_hd [OF assms(1)] slot_ok_cong [of as g f i] by simp

lemma wh_okD:
  assumes "wh_ok raw ch w" "i < tw_num_wslots w"
  shows "slot_ok (tw_bkts w) i (ch i)" "distinct (ch i)"
    "j < tw_num_wslots w \<Longrightarrow> i \<noteq> j \<Longrightarrow> set (ch i) \<inter> set (ch j) = {}"
  using assms by (auto simp: wh_ok_def)

lemma wh_ok_last:
  assumes "wh_ok raw ch w" "i < tw_num_wslots w"
  shows "wb_last (tw_bkts w i) = last (ch i)" "wb_next (tw_bkts w (last (ch i))) = None"
    "wb_num_entries (tw_bkts w (last (ch i))) < 5"
    "j < tw_num_wslots w \<Longrightarrow> j \<noteq> i \<Longrightarrow> last (ch i) \<notin> set (ch j) \<and> i \<notin> set (ch j)"
proof -
  note si = wh_okD [OF assms]
  have "last (ch i) \<in> set (ch i)"
    using si(1) by (simp add: slot_ok_def)
  then show "j < tw_num_wslots w \<Longrightarrow> j \<noteq> i \<Longrightarrow> last (ch i) \<notin> set (ch j) \<and> i \<notin> set (ch j)"
    using si(3) [of j] slot_ok_hd [OF si(1)] by auto
  show "wb_last (tw_bkts w i) = last (ch i)" "wb_next (tw_bkts w (last (ch i))) = None"
    "wb_num_entries (tw_bkts w (last (ch i))) < 5"
    using si(1) chain_last_next [of "tw_bkts w" "Some i" "ch i"] by (auto simp: slot_ok_def kWheelBucketCap_def)
qed

definition inserted :: "(nat \<Rightarrow> nat option) \<Rightarrow> (nat \<Rightarrow> nat list) \<Rightarrow> 'e timing_wheel \<Rightarrow> nat \<Rightarrow> 'e \<Rightarrow>
    (nat \<Rightarrow> nat list) \<Rightarrow> 'e timing_wheel \<Rightarrow> bool" where
  "inserted raw ch w i e ch' w' \<longleftrightarrow> wh_ok raw ch' w' \<and> same_wheel w w' \<and> tw_ready_queue w' = tw_ready_queue w \<and>
     (\<forall>j < tw_num_wslots w. ents (tw_bkts w') (ch' j) = ents (tw_bkts w) (ch j) @ (if j = i then [e] else []))"

lemma insert_with_room:
  assumes ok: "wh_ok raw ch w" and i: "i < tw_num_wslots w"
    and n: "wb_num_entries (tw_bkts w (last (ch i))) = n" "Suc n < kWheelBucketCap"
    and w': "w' = upd_bkt (last (ch i)) (\<lambda>b. b\<lparr>wb_entry := (wb_entry b)(n := e), wb_num_entries := Suc n\<rparr>) w"
  shows "inserted raw ch w i e ch w'"
proof -
  note push = slot_push [OF wh_okD(1,2) [OF ok i] n refl, of e]
  have un: "j < tw_num_wslots w \<Longrightarrow> j \<noteq> i \<Longrightarrow> a \<in> set (ch j) \<Longrightarrow> tw_bkts w' a = tw_bkts w a" for j a
    using wh_ok_last(4) [OF ok i] by (auto simp: w')
  have "slot_ok (tw_bkts w') j (ch j)" if "j < tw_num_wslots w" for j
  proof (cases "j = i")
    case False
    then show ?thesis
      by (rule slot_ok_unaffected [OF wh_okD(1) [OF ok that] un [OF that]])
  qed (use push(1) in \<open>simp add: w'\<close>)
  then have "wh_ok raw ch w'"
    using ok by (simp add: wh_ok_def w')
  moreover have "ents (tw_bkts w') (ch j) = ents (tw_bkts w) (ch j) @ (if j = i then [e] else [])"
    if "j < tw_num_wslots w" for j
  proof (cases "j = i")
    case False
    then show ?thesis
      using ents_unaffected [OF un [OF that]] by simp
  qed (use push(2) in \<open>simp add: w'\<close>)
  ultimately show ?thesis
    by (simp add: inserted_def same_wheel_def w')
qed

lemma insert_full:
  assumes ok: "wh_ok raw ch w" and i: "i < tw_num_wslots w"
    and n: "wb_num_entries (tw_bkts w (last (ch i))) = n" "Suc n = kWheelBucketCap"
    and a: "a \<notin> (\<Union>i < tw_num_wslots w. set (ch i))"
    and p: "pool_ok raw (insert a (\<Union>i < tw_num_wslots w. set (ch i))) (tw_num_wslots w) p"
    and w1: "w1 = upd_bkt (last (ch i)) (\<lambda>b. b\<lparr>wb_entry := (wb_entry b)(n := e), wb_num_entries := Suc n\<rparr>) w"
    and w2: "w2 = reset_bkt a (w1\<lparr>tw_bkt_pool := p\<rparr>)"
    and w3: "w3 = upd_bkt (last (ch i)) (\<lambda>b. b\<lparr>wb_next := Some a\<rparr>) w2"
    and w': "w' = upd_bkt i (\<lambda>b. b\<lparr>wb_last := a\<rparr>) w3"
  shows "inserted raw ch w i e (ch(i := ch i @ [a])) w'"
proof -
  let ?ch = "ch(i := ch i @ [a])"
  have notin: "j < tw_num_wslots w \<Longrightarrow> a \<notin> set (ch j)" for j
    using a by auto
  note push = slot_push_full [OF wh_okD(1,2) [OF ok i] n notin [OF i] refl refl refl refl, of e]
  have un: "j < tw_num_wslots w \<Longrightarrow> j \<noteq> i \<Longrightarrow> b \<in> set (ch j) \<Longrightarrow> tw_bkts w' b = tw_bkts w b" for j b
    using wh_ok_last(4) [OF ok i] notin by (auto simp: w' w3 w2 w1 reset_bkt_def)
  have pi: "slot_ok (tw_bkts w') i (ch i @ [a])" "ents (tw_bkts w') (ch i @ [a]) = ents (tw_bkts w) (ch i) @ [e]"
    using push by (simp_all add: w' w3 w2 w1 reset_bkt_def)
  have slots: "slot_ok (tw_bkts w') j (?ch j) \<and> distinct (?ch j)" if "j < tw_num_wslots w" for j
    using pi(1) notin [OF that] wh_okD(1,2) [OF ok that] slot_ok_unaffected [OF wh_okD(1) [OF ok that] un [OF that]]
    by (cases "j = i") auto
  have "(\<Union>k < tw_num_wslots w. set (?ch k)) = insert a (\<Union>k < tw_num_wslots w. set (ch k))"
    using i by (auto split: if_splits)
  moreover have "set (?ch j) \<inter> set (?ch k) = {}" if "j < tw_num_wslots w" "k < tw_num_wslots w" "j \<noteq> k" for j k
    using wh_okD(3) [OF ok that(1,2)] that notin by auto
  ultimately have "wh_ok raw ?ch w'"
    using ok p slots by (simp add: wh_ok_def w' w3 w2 w1 reset_bkt_def)
  moreover have "ents (tw_bkts w') (?ch j) = ents (tw_bkts w) (ch j) @ (if j = i then [e] else [])"
    if "j < tw_num_wslots w" for j
    using pi(2) ents_unaffected [OF un [OF that]] by (cases "j = i") auto
  ultimately show ?thesis
    by (simp add: inserted_def same_wheel_def w' w3 w2 w1 reset_bkt_def)
qed

lemma insert_into_wslot_spec:
  assumes ok: "wh_ok raw ch w" "raw_ok raw (tw_num_wslots w)" and i: "i < tw_num_wslots w"
  obtains w' ch' where "insert_into_wslot dbg raw i e w = Some w'" "inserted raw ch w i e ch' w'"
proof -
  define n where "n = wb_num_entries (tw_bkts w (last (ch i)))"
  note L = wh_ok_last [OF ok(1) i, folded n_def]
  have n8: "(n + 1) mod 2 ^ 3 = Suc n"
    using L(3) by simp
  show thesis
  proof (cases "Suc n = kWheelBucketCap")
    case False
    then have "Suc n < kWheelBucketCap"
      using L(3) by (simp add: kWheelBucketCap_def)
    from insert_with_room [OF ok(1) i n_def [symmetric] this refl] show thesis
      using that False L n8 by (auto simp: insert_into_wslot_def Let_def kWheelBucketCap_def simp flip: n_def)
  next
    case True
    have "pool_ok raw (\<Union>i < tw_num_wslots w. set (ch i)) (tw_num_wslots w) (tw_bkt_pool w)"
      using ok(1) by (simp add: wh_ok_def)
    from pool_alloc_spec [OF this ok(2)] obtain a p' where a: "pool_alloc raw (tw_bkt_pool w) = Some (a, p')"
      "a \<notin> (\<Union>i < tw_num_wslots w. set (ch i))"
      "pool_ok raw (insert a (\<Union>i < tw_num_wslots w. set (ch i))) (tw_num_wslots w) p'" .
    from insert_full [OF ok(1) i n_def [symmetric] True a(2,3) refl refl refl refl] show thesis
      using that True L n8 a(1)
      by (auto simp: insert_into_wslot_def alloc_bkt_def Let_def kWheelBucketCap_def simp flip: n_def)
  qed
qed

subsection \<open>Reaping\<close>

lemma pool_ok_release:
  assumes "pool_ok raw used n p" "set as \<subseteq> used" "distinct as" "c \<in> set as" "set as \<inter> rest = {}" "used = set as \<union> rest"
  shows "pool_ok raw (insert c rest) n (p\<lparr>mp_pool := mp_pool p @ filter (\<lambda>a. a \<noteq> c) as\<rparr>)"
  using assms by (auto simp: pool_ok_def)

lemma reap_wslot_spec:
  assumes ok: "wh_ok raw ch w" and c: "c < tw_num_wslots w"
  obtains w' where "reap_wslot c w = Some w'" "wh_ok raw (ch(c := [c])) w'" "same_wheel w w'"
    "tw_ready_queue w' = tw_ready_queue w @ ents (tw_bkts w) (ch c)"
    "\<forall>j < tw_num_wslots w. ents (tw_bkts w') ((ch(c := [c])) j) = (if j = c then [] else ents (tw_bkts w) (ch j))"
proof -
  let ?ch = "ch(c := [c])"
  let ?w' = "upd_bkt c (\<lambda>b. b\<lparr>wb_last := c\<rparr>) (reaped c (ch c) w)"
  note si = wh_okD [OF ok c]
  have cc: "c \<in> set (ch c)"
    by (rule slot_ok_hd [OF si(1)])
  have chn: "chain (tw_bkts w) (Some c) (ch c)"
    using si(1) by (simp add: slot_ok_def)
  have res: "reap_wslot c w = Some ?w'"
    by (simp add: reap_wslot_def reap_chain_spec [OF chn si(2)])
  have un: "j < tw_num_wslots w \<Longrightarrow> j \<noteq> c \<Longrightarrow> b \<in> set (ch j) \<Longrightarrow> tw_bkts ?w' b = tw_bkts w b" for j b
    using si(3) [of j] cc by (auto simp: reaped_def)
  have slots: "slot_ok (tw_bkts ?w') j (?ch j) \<and> distinct (?ch j)" if "j < tw_num_wslots w" for j
  proof (cases "j = c")
    case False
    then show ?thesis
      using wh_okD(2) [OF ok that] slot_ok_unaffected [OF wh_okD(1) [OF ok that] un [OF that]]
      by (simp add: fun_upd_def)
  qed (use cc in \<open>simp add: slot_ok_def reaped_def kWheelBucketCap_def\<close>)
  let ?rest = "\<Union>k \<in> {..<tw_num_wslots w} - {c}. set (ch k)"
  have used: "(\<Union>k < tw_num_wslots w. set (ch k)) = set (ch c) \<union> ?rest"
    "(\<Union>k < tw_num_wslots w. set (?ch k)) = insert c ?rest"
    using c by (auto split: if_splits)
  have "set (ch c) \<inter> ?rest = {}"
    using si(3) by blast
  then have "pool_ok raw (insert c ?rest) (tw_num_wslots w) (tw_bkt_pool ?w')"
    using ok pool_ok_release [of raw "set (ch c) \<union> ?rest" "tw_num_wslots w" "tw_bkt_pool w" "ch c" c ?rest] si(2) cc
    unfolding wh_ok_def used(1) by (simp add: reaped_def)
  then have "pool_ok raw (\<Union>k < tw_num_wslots w. set (?ch k)) (tw_num_wslots w) (tw_bkt_pool ?w')"
    unfolding used(2) .
  moreover have "set (?ch j) \<inter> set (?ch k) = {}" if "j < tw_num_wslots w" "k < tw_num_wslots w" "j \<noteq> k" for j k
    using wh_okD(3) [OF ok that(1,2)] that cc by auto
  ultimately have "wh_ok raw ?ch ?w'"
    using ok slots by (simp add: wh_ok_def reaped_def)
  moreover have "ents (tw_bkts ?w') (?ch j) = (if j = c then [] else ents (tw_bkts w) (ch j))" if "j < tw_num_wslots w" for j
  proof (cases "j = c")
    case False
    have "ents (tw_bkts ?w') (ch j) = ents (tw_bkts w) (ch j)"
      by (intro ents_cong conjI) (simp_all only: un [OF that False])
    then show ?thesis
      using False by (simp only: fun_upd_other if_False simp_thms)
  qed (use cc in \<open>simp add: ents_def bents_def reaped_def\<close>)
  ultimately show thesis
    using that res by (simp add: same_wheel_def reaped_def)
qed

section \<open>The abstract wheel\<close>

text \<open>Row \<open>k\<close> of the abstract wheel is due at \<open>aw_tx + k * width\<close>.\<close>

record 'e awheel =
  aw_tx :: nat
  aw_rows :: "'e list list"
  aw_ready :: "'e list"

definition aw_step :: "nat \<Rightarrow> 'e awheel \<Rightarrow> 'e awheel" where
  "aw_step width a = \<lparr>aw_tx = aw_tx a + width, aw_rows = tl (aw_rows a) @ [[]], aw_ready = aw_ready a @ hd (aw_rows a)\<rparr>"

definition aw_due :: "nat \<Rightarrow> nat \<Rightarrow> 'e awheel \<Rightarrow> nat" where
  "aw_due width t a = (if t < aw_tx a then 0 else (t - aw_tx a) div width + 1)"

definition aw_reap :: "nat \<Rightarrow> nat \<Rightarrow> 'e awheel \<Rightarrow> 'e awheel" where
  "aw_reap width t a = (aw_step width ^^ aw_due width t a) a"

definition abs_wheel :: "(nat \<Rightarrow> nat list) \<Rightarrow> 'e timing_wheel \<Rightarrow> 'e awheel" where
  "abs_wheel ch w = \<lparr>aw_tx = wb_tx_tsc (tw_bkts w (tw_cur_wslot w)),
     aw_rows = map (\<lambda>k. ents (tw_bkts w) (ch ((tw_cur_wslot w + k) mod tw_num_wslots w))) [0..<tw_num_wslots w],
     aw_ready = tw_ready_queue w\<rparr>"

definition timed :: "'e timing_wheel \<Rightarrow> bool" where
  "timed w \<longleftrightarrow> 0 < tw_wslot_width_tsc w \<and> (\<forall>k < tw_num_wslots w.
     wb_tx_tsc (tw_bkts w ((tw_cur_wslot w + k) mod tw_num_wslots w)) =
     wb_tx_tsc (tw_bkts w (tw_cur_wslot w)) + k * tw_wslot_width_tsc w)"

definition same_consts :: "'e timing_wheel \<Rightarrow> 'e timing_wheel \<Rightarrow> bool" where
  "same_consts w w' \<longleftrightarrow> tw_num_wslots w' = tw_num_wslots w \<and> tw_wslot_width_tsc w' = tw_wslot_width_tsc w \<and>
     tw_horizon_tsc w' = tw_horizon_tsc w"

lemma aw_reap_unfold:
  assumes "0 < width"
  shows "aw_reap width t a = (if aw_tx a \<le> t then aw_reap width t (aw_step width a) else a)"
proof (cases "aw_tx a \<le> t")
  case True
  have "aw_due width t a = Suc (aw_due width t (aw_step width a))"
  proof (cases "aw_tx a + width \<le> t")
    case True
    then show ?thesis
      using assms le_div_geq [of width "t - aw_tx a"] by (simp add: aw_due_def aw_step_def)
  next
    case False
    then show ?thesis
      using True assms by (simp add: aw_due_def aw_step_def)
  qed
  then show ?thesis
    using True by (simp add: aw_reap_def funpow_swap1)
qed (simp add: aw_reap_def aw_due_def)

lemma mod_shift:
  assumes "c < n" "k < (n :: nat)"
  shows "((if c + 1 = n then 0 else c + 1) + k) mod n = (c + (k + 1)) mod n"
proof (cases "c + 1 = n")
  case True
  then have "c + (k + 1) = k + n"
    by simp
  then show ?thesis
    using True by (simp only: if_True mod_add_self2 add_0 simp_thms)
qed simp

lemma rotate_index:
  assumes "c < n" "k < (n :: nat)"
  shows "(c + k) mod n = c \<longleftrightarrow> k = 0"
  using assms by (cases "c + k < n") (auto simp: mod_if)

lemma reap_one_spec:
  assumes ok: "wh_ok raw ch w" "timed w"
    and small: "wb_tx_tsc (tw_bkts w (tw_cur_wslot w)) + tw_wslot_width_tsc w * tw_num_wslots w < 2 ^ 61"
  obtains w' ch' where "reap_one w = Some w'" "wh_ok raw ch' w'" "timed w'" "same_consts w w'"
    "abs_wheel ch' w' = aw_step (tw_wslot_width_tsc w) (abs_wheel ch w)"
proof -
  let ?c = "tw_cur_wslot w" let ?N = "tw_num_wslots w" let ?W = "tw_wslot_width_tsc w"
  let ?T = "wb_tx_tsc (tw_bkts w ?c)"
  have c: "?c < ?N"
    using ok(1) by (simp add: wh_ok_def)
  obtain w1 where w1: "reap_wslot ?c w = Some w1" "wh_ok raw (ch(?c := [?c])) w1" "same_wheel w w1"
    "tw_ready_queue w1 = tw_ready_queue w @ ents (tw_bkts w) (ch ?c)"
    "\<forall>j < ?N. ents (tw_bkts w1) ((ch(?c := [?c])) j) = (if j = ?c then [] else ents (tw_bkts w) (ch j))"
    using reap_wslot_spec [OF ok(1) c] .
  let ?ch = "ch(?c := [?c])"
  let ?w2 = "upd_bkt ?c (\<lambda>b. b\<lparr>wb_tx_tsc := ?T + ?W * ?N\<rparr>) w1"
  let ?w3 = "?w2\<lparr>tw_cur_wslot := (if ?c + 1 = ?N then 0 else ?c + 1)\<rparr>"
  have same: "tw_num_wslots w1 = ?N" "tw_wslot_width_tsc w1 = ?W" "tw_cur_wslot w1 = ?c" "tw_horizon_tsc w1 = tw_horizon_tsc w"
    "i < ?N \<Longrightarrow> wb_tx_tsc (tw_bkts w1 i) = wb_tx_tsc (tw_bkts w i)" for i
    using w1(3) by (auto simp: same_wheel_def)
  have res: "reap_one w = Some ?w3"
    using w1(1) same c small by (simp add: reap_one_def Let_def tsc61_def)
  have slot: "slot_ok (tw_bkts ?w3) j (?ch j)" if "j < ?N" for j
    using wh_okD(1) [OF w1(2)] that same slot_ok_cong [of "?ch j" "tw_bkts ?w3" "tw_bkts w1" j] by simp
  then have ok3: "wh_ok raw ?ch ?w3"
    using w1(2) c same by (auto simp: wh_ok_def)
  have tx: "wb_tx_tsc (tw_bkts ?w3 ((tw_cur_wslot ?w3 + k) mod ?N)) = ?T + (k + 1) * ?W" if "k < ?N" for k
  proof (cases "k + 1 = ?N")
    case True
    then show ?thesis
      using mod_shift [OF c that] c by (simp add: mult.commute)
  next
    case False
    then have k: "k + 1 < ?N"
      using that by simp
    have "wb_tx_tsc (tw_bkts w ((?c + (k + 1)) mod ?N)) = ?T + (k + 1) * ?W"
      using ok(2) k unfolding timed_def by blast
    then show ?thesis
      using k mod_shift [OF c that] rotate_index [OF c k] same(5) [of "(?c + (k + 1)) mod ?N"] c by simp
  qed
  have ents3: "ents (tw_bkts ?w3) as = ents (tw_bkts w1) as" for as
    by (intro ents_cong) simp
  have rows: "ents (tw_bkts ?w3) (?ch ((tw_cur_wslot ?w3 + k) mod ?N)) =
      (if k + 1 = ?N then [] else ents (tw_bkts w) (ch ((?c + (k + 1)) mod ?N)))" if "k < ?N" for k
  proof (cases "k + 1 = ?N")
    case True
    then have "(tw_cur_wslot ?w3 + k) mod ?N = ?c"
      using mod_shift [OF c that] c by simp
    then show ?thesis
      using True c w1(5) [rule_format, OF c] ents3 [of "?ch ?c"] by (simp only: if_True simp_thms)
  next
    case False
    then have k: "k + 1 < ?N"
      using that by simp
    then show ?thesis
      using mod_shift [OF c that] rotate_index [OF c k] w1(5) [rule_format, of "(?c + (k + 1)) mod ?N"] c ents3 by simp
  qed
  show thesis
  proof (rule that [OF res ok3])
    show "timed ?w3"
      using ok(2) tx tx [of 0] c same by (auto simp: timed_def algebra_simps)
    show "same_consts w ?w3"
      using same by (simp add: same_consts_def)
    have "aw_rows (abs_wheel ?ch ?w3) = tl (aw_rows (abs_wheel ch w)) @ [[]]"
    proof (rule nth_equalityI)
      show "length (aw_rows (abs_wheel ?ch ?w3)) = length (tl (aw_rows (abs_wheel ch w)) @ [[]])"
        using c same by (simp add: abs_wheel_def)
      show "aw_rows (abs_wheel ?ch ?w3) ! k = (tl (aw_rows (abs_wheel ch w)) @ [[]]) ! k"
        if "k < length (aw_rows (abs_wheel ?ch ?w3))" for k
        using that rows [of k] same c by (auto simp: abs_wheel_def nth_append nth_tl)
    qed
    then show "abs_wheel ?ch ?w3 = aw_step ?W (abs_wheel ch w)"
      using tx [of 0] c same w1(4) by (simp add: abs_wheel_def aw_step_def hd_map)
  qed
qed

lemma same_consts_trans: "same_consts w w1 \<Longrightarrow> same_consts w1 w2 \<Longrightarrow> same_consts w w2"
  by (simp add: same_consts_def)

lemma reap_spec:
  assumes "wh_ok raw ch w" "timed w" "t + tw_wslot_width_tsc w * tw_num_wslots w < 2 ^ 61"
  shows "\<exists>w' ch'. reap t w = Some w' \<and> wh_ok raw ch' w' \<and> timed w' \<and> same_consts w w' \<and>
    abs_wheel ch' w' = aw_reap (tw_wslot_width_tsc w) t (abs_wheel ch w)"
  using assms
proof (induction "t + 1 - wb_tx_tsc (tw_bkts w (tw_cur_wslot w))" arbitrary: ch w rule: less_induct)
  case less
  let ?T = "wb_tx_tsc (tw_bkts w (tw_cur_wslot w))" let ?W = "tw_wslot_width_tsc w"
  have W: "0 < ?W"
    using less.prems(2) by (simp add: timed_def)
  have T: "aw_tx (abs_wheel ch w) = ?T"
    by (simp add: abs_wheel_def)
  show ?case
  proof (cases "?T \<le> t")
    case False
    have "aw_reap ?W t (abs_wheel ch w) = abs_wheel ch w"
      by (subst aw_reap_unfold [OF W]) (use False T in simp)
    moreover have "reap t w = Some w"
      by (subst reap.simps) (use False in simp)
    ultimately show ?thesis
      using less.prems by (auto simp: same_consts_def)
  next
    case True
    then have "?T + ?W * tw_num_wslots w < 2 ^ 61"
      using less.prems(3) by simp
    from reap_one_spec [OF less.prems(1,2) this] obtain w1 ch1 where w1: "reap_one w = Some w1" "wh_ok raw ch1 w1"
      "timed w1" "same_consts w w1" "abs_wheel ch1 w1 = aw_step ?W (abs_wheel ch w)" .
    have "wb_tx_tsc (tw_bkts w1 (tw_cur_wslot w1)) = aw_tx (abs_wheel ch1 w1)"
      by (simp add: abs_wheel_def)
    also have "\<dots> = ?T + ?W"
      unfolding w1(5) by (simp add: aw_step_def T)
    finally have "t + 1 - wb_tx_tsc (tw_bkts w1 (tw_cur_wslot w1)) < t + 1 - ?T"
      using True W by simp
    from less.hyps [OF this w1(2,3)] less.prems(3) w1(4) obtain w2 ch2 where w2: "reap t w1 = Some w2"
      "wh_ok raw ch2 w2" "timed w2" "same_consts w1 w2" "abs_wheel ch2 w2 = aw_reap ?W t (abs_wheel ch1 w1)"
      by (auto simp: same_consts_def)
    have "reap t w = Some w2"
      by (subst reap.simps) (use True w1(1) w2(1) in simp)
    moreover have "abs_wheel ch2 w2 = aw_reap ?W t (abs_wheel ch w)"
      unfolding w2(5) w1(5) by (subst (2) aw_reap_unfold [OF W]) (use True T in simp)
    ultimately show ?thesis
      using w2(2,3) same_consts_trans [OF w1(4) w2(4)] by blast
  qed
qed

subsection \<open>Inserting\<close>

definition aw_insert :: "nat \<Rightarrow> 'e \<Rightarrow> 'e awheel \<Rightarrow> 'e awheel" where
  "aw_insert k e a = a\<lparr>aw_rows := (aw_rows a)[k := aw_rows a ! k @ [e]]\<rparr>"

lemma rotate_mod: "c < n \<Longrightarrow> k < n \<Longrightarrow> (c + k) mod n = (if n \<le> c + k then c + k - n else c + (k :: nat))"
  by (simp add: le_mod_geq)

lemma rotate_inj:
  assumes "c < n" "j < n" "k < (n :: nat)" "(c + j) mod n = (c + k) mod n"
  shows "j = k"
  using assms by (auto simp: rotate_mod split: if_splits)

lemma inserted_abs:
  assumes ins: "inserted raw ch w ((tw_cur_wslot w + k) mod tw_num_wslots w) e ch' w'"
    and ok: "wh_ok raw ch w" "timed w" and k: "k < tw_num_wslots w"
  shows "wh_ok raw ch' w'" "timed w'" "same_consts w w'" "abs_wheel ch' w' = aw_insert k e (abs_wheel ch w)"
proof -
  let ?N = "tw_num_wslots w" let ?c = "tw_cur_wslot w"
  have c: "?c < ?N"
    using ok(1) by (simp add: wh_ok_def)
  note i = ins [unfolded inserted_def same_wheel_def]
  have m: "m < ?N \<Longrightarrow> (?c + m) mod ?N < ?N" for m
    using c by simp
  show "wh_ok raw ch' w'" "same_consts w w'"
    using i by (auto simp: same_consts_def)
  show "timed w'"
    using ok(2) i c by (simp add: timed_def)
  have "aw_rows (abs_wheel ch' w') = aw_rows (aw_insert k e (abs_wheel ch w))"
  proof (rule nth_equalityI)
    fix j assume "j < length (aw_rows (abs_wheel ch' w'))"
    then have j: "j < ?N"
      using i by (simp add: abs_wheel_def)
    have "ents (tw_bkts w') (ch' ((?c + j) mod ?N)) =
        ents (tw_bkts w) (ch ((?c + j) mod ?N)) @ (if j = k then [e] else [])"
      using i m [OF j] rotate_inj [OF c j k] by auto
    then show "aw_rows (abs_wheel ch' w') ! j = aw_rows (aw_insert k e (abs_wheel ch w)) ! j"
      using i j k by (auto simp: abs_wheel_def aw_insert_def nth_list_update)
  qed (use i in \<open>simp add: abs_wheel_def aw_insert_def\<close>)
  then show "abs_wheel ch' w' = aw_insert k e (abs_wheel ch w)"
    using i c by (simp add: abs_wheel_def aw_insert_def)
qed

text \<open>The row that \<^verbatim>\<open>insert\<close> picks, counted from the current slot.\<close>

definition aw_row :: "nat \<Rightarrow> nat \<Rightarrow> 'e awheel \<Rightarrow> nat" where
  "aw_row width d a = (if d \<le> aw_tx a then 0 else 1 + (d - aw_tx a) div width)"

lemma aw_row_time:
  assumes "0 < width"
  shows "d \<le> aw_tx a + aw_row width d a * width" "aw_tx a + aw_row width d a * width \<le> max (aw_tx a) (d + width)"
proof -
  have "(d - aw_tx a) div width * width + (d - aw_tx a) mod width = d - aw_tx a" "(d - aw_tx a) mod width < width"
    using assms by simp_all
  then have "(d - aw_tx a) div width * width \<le> d - aw_tx a" "d - aw_tx a < (d - aw_tx a) div width * width + width"
    by linarith+
  then show "d \<le> aw_tx a + aw_row width d a * width" "aw_tx a + aw_row width d a * width \<le> max (aw_tx a) (d + width)"
    by (auto simp: aw_row_def simp del: div_times_less_eq_dividend)
qed

lemma aw_reap_beyond:
  assumes "0 < width"
  shows "t < aw_tx (aw_reap width t a)"
proof (induction "t + 1 - aw_tx a" arbitrary: a rule: less_induct)
  case less
  show ?case
  proof (cases "aw_tx a \<le> t")
    case True
    then have "t + 1 - aw_tx (aw_step width a) < t + 1 - aw_tx a"
      using assms by (simp add: aw_step_def)
    then show ?thesis
      using less.hyps True by (subst aw_reap_unfold [OF assms]) simp
  qed (simp add: aw_reap_unfold [OF assms])
qed

lemma aw_row_in_range:
  assumes "0 < width" "t < aw_tx a" "d - t \<le> horizon" "horizon \<le> (n - 1) * width" "0 < n"
  shows "aw_row width d a < n"
proof (cases "d \<le> aw_tx a")
  case False
  then have "d - aw_tx a < (n - 1) * width"
    using assms by linarith
  then have "(d - aw_tx a) div width < n - 1"
    using assms(1) by (simp add: div_less_iff_less_mult)
  then show ?thesis
    using False by (simp add: aw_row_def)
qed (simp add: aw_row_def assms)

definition wheel_op_ok :: "(nat \<Rightarrow> nat option) \<Rightarrow> 'e timing_wheel \<Rightarrow> 'e awheel \<Rightarrow> 'e timing_wheel option \<Rightarrow> bool" where
  "wheel_op_ok raw w a r \<longleftrightarrow> (\<exists>w' ch'. r = Some w' \<and> wh_ok raw ch' w' \<and> timed w' \<and> same_consts w w' \<and> abs_wheel ch' w' = a)"

lemma wheel_insert_spec:
  assumes ok: "wh_ok raw ch w" "timed w" "raw_ok raw (tw_num_wslots w)"
    and small: "ref + tw_wslot_width_tsc w * tw_num_wslots w < 2 ^ 61"
    and d: "ref \<le> d" "d - ref \<le> tw_horizon_tsc w" "tw_horizon_tsc w \<le> (tw_num_wslots w - 1) * tw_wslot_width_tsc w"
    and a: "a = aw_reap (tw_wslot_width_tsc w) ref (abs_wheel ch w)"
  shows "wheel_op_ok raw w (aw_insert (aw_row (tw_wslot_width_tsc w) d a) e a) (wheel_insert dbg raw e ref d w)"
proof -
  let ?W = "tw_wslot_width_tsc w" let ?N = "tw_num_wslots w"
  have W: "0 < ?W"
    using ok(2) by (simp add: timed_def)
  obtain w1 ch1 where w1: "reap ref w = Some w1" "wh_ok raw ch1 w1" "timed w1" "same_consts w w1" "abs_wheel ch1 w1 = a"
    using reap_spec [OF ok(1,2) small] a by blast
  have same: "tw_num_wslots w1 = ?N" "tw_wslot_width_tsc w1 = ?W" "tw_horizon_tsc w1 = tw_horizon_tsc w"
    using w1(4) by (simp_all add: same_consts_def)
  have T: "wb_tx_tsc (tw_bkts w1 (tw_cur_wslot w1)) = aw_tx a"
    using w1(5) by (auto simp: abs_wheel_def)
  have c: "tw_cur_wslot w1 < ?N"
    using w1(2) same by (simp add: wh_ok_def)
  have ref: "ref < aw_tx a"
    unfolding a by (rule aw_reap_beyond [OF W])
  define k where "k = aw_row ?W d a"
  have k: "k < ?N"
    unfolding k_def using aw_row_in_range [OF W ref d(2,3)] c by simp
  let ?i = "(tw_cur_wslot w1 + k) mod ?N"
  obtain w2 ch2 where w2: "insert_into_wslot dbg raw ?i e w1 = Some w2" "inserted raw ch1 w1 ?i e ch2 w2"
    using insert_into_wslot_spec [OF w1(2), of ?i dbg e] ok(3) same c by auto
  have dst: "?i = (if ?N \<le> tw_cur_wslot w1 + k then tw_cur_wslot w1 + k - ?N else tw_cur_wslot w1 + k)"
    by (rule rotate_mod [OF c k])
  have "wheel_insert dbg raw e ref d w = insert_into_wslot dbg raw ?i e w1"
  proof (cases "d \<le> aw_tx a")
    case True
    then have "k = 0"
      by (simp add: k_def aw_row_def)
    then show ?thesis
      using True d(1,2) w1(1) ref c by (simp add: wheel_insert_def Let_def T same)
  next
    case False
    then have "1 + (d - aw_tx a) div ?W = k"
      by (simp add: k_def aw_row_def)
    moreover have "?N \<le> tw_cur_wslot w1 + k \<Longrightarrow> tw_cur_wslot w1 + k - ?N < ?N"
      using c k by linarith
    ultimately show ?thesis
      using False d(1,2) w1(1) ref c k W dst by (simp add: wheel_insert_def Let_def T same)
  qed
  then show ?thesis
    using w2(1) inserted_abs [of raw ch1 w1 k e ch2 w2] w2(2) w1 k same same_consts_trans [OF w1(4), of w2]
    unfolding wheel_op_ok_def k_def [symmetric] by metis
qed

section \<open>A new wheel\<close>

lemma TimingWheel_new_ok:
  assumes "0 < n" "0 < width" "base + n * width < 2 ^ 61"
  shows "wh_ok raw (\<lambda>i. [i]) (TimingWheel_new width horizon n g base)" "timed (TimingWheel_new width horizon n g base)"
    "abs_wheel (\<lambda>i. [i]) (TimingWheel_new width horizon n g base) =
       \<lparr>aw_tx = base + width, aw_rows = replicate n [], aw_ready = []\<rparr>"
proof -
  have tx: "tsc61 (base + (i + 1) * width) = base + (i + 1) * width" if "i < n" for i
  proof -
    have "(i + 1) * width \<le> n * width"
      using that by (intro mult_le_mono1) simp
    then show ?thesis
      using assms(3) by (simp add: tsc61_def)
  qed
  show "wh_ok raw (\<lambda>i. [i]) (TimingWheel_new width horizon n g base)"
    using assms(1) by (auto simp: wh_ok_def TimingWheel_new_def slot_ok_def kWheelBucketCap_def pool_ok_def)
  show "timed (TimingWheel_new width horizon n g base)"
    using assms(1,2) tx tx [of 0] by (simp add: timed_def TimingWheel_new_def algebra_simps)
  show "abs_wheel (\<lambda>i. [i]) (TimingWheel_new width horizon n g base) =
       \<lparr>aw_tx = base + width, aw_rows = replicate n [], aw_ready = []\<rparr>"
    using assms(1) tx [of 0] by (auto simp: abs_wheel_def TimingWheel_new_def ents_def bents_def intro!: nth_equalityI)
qed

lemma wheel_constants:
  "us_to_cycles kWheelSlotWidthUs (2333 / 1000) = 1166" "us_to_cycles (kWheelHorizonUs 1024) (2333 / 1000) = 5096516"
  "kWheelNumWslots 1024 = 4371"
  by (simp_all add: us_to_cycles_def kWheelSlotWidthUs_def kWheelHorizonUs_def kWheelNumWslots_def erpc_ceil_def)

section \<open>Properties\<close>

text \<open>(C28) On a well-formed wheel \<^verbatim>\<open>reap\<close> returns, keeps the wheel well-formed and does what the
  abstract wheel does: it moves to the ready queue, in the order of their slots and of their
  insertion, exactly the entries of the slots whose time has come, and leaves the rest in place.\<close>

theorem reap_refines_wheel:
  assumes "wh_ok raw ch w" "timed w" "t + tw_wslot_width_tsc w * tw_num_wslots w < 2 ^ 61"
  shows "wheel_op_ok raw w (aw_reap (tw_wslot_width_tsc w) t (abs_wheel ch w)) (reap t w)"
  using reap_spec [OF assms] by (simp add: wheel_op_ok_def)

text \<open>(C29) An entry is inserted with a desired time within the horizon: \<^verbatim>\<open>insert\<close> returns, and appends
  the entry to one slot of the reaped wheel, whose time is at least the desired time and, unless
  it is the current slot, at most one slot width later. This needs the horizon to fit the wheel.\<close>

theorem insert_paces:
  assumes "wh_ok raw ch w" "timed w" "raw_ok raw (tw_num_wslots w)"
    and "ref + tw_wslot_width_tsc w * tw_num_wslots w < 2 ^ 61"
    and "ref \<le> d" "d - ref \<le> tw_horizon_tsc w" "tw_horizon_tsc w \<le> (tw_num_wslots w - 1) * tw_wslot_width_tsc w"
    and "a = aw_reap (tw_wslot_width_tsc w) ref (abs_wheel ch w)"
  shows "\<exists>k. wheel_op_ok raw w (aw_insert k e a) (wheel_insert dbg raw e ref d w) \<and> k < tw_num_wslots w \<and>
    d \<le> aw_tx a + k * tw_wslot_width_tsc w \<and>
    aw_tx a + k * tw_wslot_width_tsc w \<le> max (aw_tx a) (d + tw_wslot_width_tsc w)"
proof (intro exI conjI)
  have W: "0 < tw_wslot_width_tsc w"
    using assms(2) by (simp add: timed_def)
  show "wheel_op_ok raw w (aw_insert (aw_row (tw_wslot_width_tsc w) d a) e a) (wheel_insert dbg raw e ref d w)"
    by (rule wheel_insert_spec [OF assms])
  show "d \<le> aw_tx a + aw_row (tw_wslot_width_tsc w) d a * tw_wslot_width_tsc w"
    "aw_tx a + aw_row (tw_wslot_width_tsc w) d a * tw_wslot_width_tsc w \<le> max (aw_tx a) (d + tw_wslot_width_tsc w)"
    by (rule aw_row_time [OF W])+
  have "0 < tw_num_wslots w"
    using assms(1) by (auto simp: wh_ok_def)
  moreover have "ref < aw_tx a"
    unfolding assms(8) by (rule aw_reap_beyond [OF W])
  ultimately show "aw_row (tw_wslot_width_tsc w) d a < tw_num_wslots w"
    using aw_row_in_range [OF W _ assms(6,7)] by simp
qed


subsection \<open>Witnesses\<close>

text \<open>An empty wheel of eight slots of ten cycles, with the arrays of the pool laid out one after
  another behind it.\<close>

definition wheel_ex :: "nat timing_wheel" where
  "wheel_ex = TimingWheel_new 10 70 8 (\<lambda>_. \<lparr>wb_num_entries = 0, wb_tx_tsc = 0, wb_last = 0, wb_next = None, wb_entry = (\<lambda>_. 0)\<rparr>) 100"

definition raw_ex :: "nat \<Rightarrow> nat option" where
  "raw_ex k = Some (8 + 32768 * (2 ^ k - 1))"

lemma raw_ex_ok: "raw_ok raw_ex 8"
proof -
  have "raw_range raw_ex k \<inter> raw_range raw_ex l = {}" if "k < l" for k l
  proof -
    have "(2 :: nat) ^ Suc k \<le> 2 ^ l"
      using that by (intro power_increasing) auto
    moreover have "1 \<le> (2 :: nat) ^ k"
      by simp
    ultimately have "8 + 32768 * (2 ^ k - 1) + 32768 * 2 ^ k \<le> 8 + 32768 * ((2 :: nat) ^ l - 1)"
      unfolding power_Suc by linarith
    then show ?thesis
      by (auto simp: raw_range_def raw_ex_def)
  qed
  then show ?thesis
    by (auto simp: raw_ok_def raw_ex_def raw_range_def disjoint_iff neq_iff)
qed

definition wheel_ex1 :: "nat timing_wheel" where
  "wheel_ex1 = upd_bkt 2 (\<lambda>b. b\<lparr>wb_entry := (wb_entry b)(0 := 7), wb_num_entries := Suc 0\<rparr>) wheel_ex"

lemma wheel_ex_fields [simp]:
  "tw_num_wslots wheel_ex = 8" "tw_wslot_width_tsc wheel_ex = 10" "tw_horizon_tsc wheel_ex = 70" "tw_cur_wslot wheel_ex = 0"
  "wb_num_entries (tw_bkts wheel_ex 2) = 0"
  by (simp_all add: wheel_ex_def TimingWheel_new_def)

lemma wheel_ex_is_ok: "wh_ok raw_ex (\<lambda>i. [i]) wheel_ex" "timed wheel_ex"
  "abs_wheel (\<lambda>i. [i]) wheel_ex = \<lparr>aw_tx = 110, aw_rows = replicate 8 [], aw_ready = []\<rparr>"
  unfolding wheel_ex_def by (simp_all add: TimingWheel_new_ok)

lemma wheel_ex1_is_ok: "wh_ok raw_ex (\<lambda>i. [i]) wheel_ex1" "timed wheel_ex1"
  "abs_wheel (\<lambda>i. [i]) wheel_ex1 = \<lparr>aw_tx = 110, aw_rows = [[], [], [7], [], [], [], [], []], aw_ready = []\<rparr>"
proof -
  have "inserted raw_ex (\<lambda>i. [i]) wheel_ex ((tw_cur_wslot wheel_ex + 2) mod tw_num_wslots wheel_ex) 7 (\<lambda>i. [i]) wheel_ex1"
    by (rule insert_with_room [OF wheel_ex_is_ok(1)]) 
      (simp_all add: wheel_ex1_def kWheelBucketCap_def wheel_ex_fields(5) [unfolded numeral_2_eq_2] numeral_2_eq_2)
  from inserted_abs [OF this wheel_ex_is_ok(1,2)]
  show "wh_ok raw_ex (\<lambda>i. [i]) wheel_ex1" "timed wheel_ex1"
    "abs_wheel (\<lambda>i. [i]) wheel_ex1 = \<lparr>aw_tx = 110, aw_rows = [[], [], [7], [], [], [], [], []], aw_ready = []\<rparr>"
    by (simp_all add: wheel_ex_is_ok(3) aw_insert_def eval_nat_numeral)
qed

lemma wheel_ex_reaps:
  "aw_reap 10 135 \<lparr>aw_tx = 110, aw_rows = [[], [], [7], [], [], [], [], []], aw_ready = []\<rparr> =
    \<lparr>aw_tx = 140, aw_rows = replicate 8 [], aw_ready = [7 :: nat]\<rparr>"
  "aw_reap 10 115 \<lparr>aw_tx = 110, aw_rows = replicate 8 [], aw_ready = []\<rparr> =
    \<lparr>aw_tx = 120, aw_rows = replicate 8 [], aw_ready = [] :: nat list\<rparr>"
  by (simp_all add: aw_reap_def aw_due_def aw_step_def numeral_3_eq_3) (simp_all add: eval_nat_numeral)

lemma wheel_ex1_fields [simp]: "tw_num_wslots wheel_ex1 = 8" "tw_wslot_width_tsc wheel_ex1 = 10"
  by (simp_all add: wheel_ex1_def)

theorem reap_refines_wheel_witness:
  "wheel_op_ok raw_ex wheel_ex1 \<lparr>aw_tx = 140, aw_rows = replicate 8 [], aw_ready = [7]\<rparr> (reap 135 wheel_ex1)"
  using reap_refines_wheel [OF wheel_ex1_is_ok(1,2), of 135]
  unfolding wheel_ex1_is_ok(3) wheel_ex1_fields wheel_ex_reaps by simp

theorem insert_paces_witness:
  "\<exists>k. wheel_op_ok raw_ex wheel_ex (aw_insert k 3 \<lparr>aw_tx = 120, aw_rows = replicate 8 [], aw_ready = []\<rparr>)
      (wheel_insert True raw_ex 3 115 155 wheel_ex) \<and> k < 8 \<and> 155 \<le> 120 + k * 10 \<and> 120 + k * 10 \<le> max 120 (155 + 10)"
  using insert_paces [OF wheel_ex_is_ok(1,2), of 115 155 _ 3 True, OF _ _ _ _ _ refl] raw_ex_ok
  unfolding wheel_ex_is_ok(3) wheel_ex_fields wheel_ex_reaps by simp

end
