(* ===== verification/Rpc_State.thy ===== *)
theory Rpc_State
  imports Ib_Transport Timing_Wheel
begin

section \<open>The state of an Rpc endpoint\<close>

text \<open>
  The record \<open>rpc\<close> holds the members of \<^verbatim>\<open>class Rpc\<close> (src/src/rpc.h) that change, with the
  memory they point into: sessions in the session vector, packet headers in a store from addresses
  to headers, Serializer objects in a store from pointers to objects, payload bytes in a heap. \<open>rp_app\<close>
  is the state of the application. What is fixed for an endpoint is in \<open>rpc_cfg\<close>: the compile-time
  switches (\<open>cf_dbg\<close> for assertions, \<open>cf_testing\<close>), the identity of the endpoint, the application's
  callbacks, and the outcome of every call that leaves the program, as functions of the number of the
  call, counted in \<open>rp_calls\<close>: the time stamp counter, random numbers, the resolution of routing
  information, the polling of the card. A continuation gets the slot of the request, or the application
  context (\<open>None\<close>). \<open>cf_before_iovs\<close> is what the memory before the elements of an iovector reads as,
  \<open>cf_args_resp\<close> the address of a member of a local variable that the source hands on.

  A thread is its eRPC thread id. The functions that only the thread owning the endpoint calls do
  not take one; their assertion \<^verbatim>\<open>in_dispatch()\<close> holds.
\<close>

record env_calls =
  ec_rdtsc :: nat
  ec_rand :: nat
  ec_resolve :: nat
  ec_poll :: nat

record rpc_faults =
  fa_fail_resolve_rinfo :: bool
  fa_hard_wheel_bypass :: bool
  fa_pkt_drop_prob :: real
  fa_pkt_drop_thresh_billion :: nat

datatype bg_work_item = BgReq slot_ref | BgResp nat nat

record 'a rpc =
  rp_session_vec :: "session option list"
  rp_ring_entries_available :: nat
  rp_tx_burst_arr :: "tx_item list"
  rp_transport :: ib_transport
  rp_rx_ring_head :: nat
  rp_stallq :: "slot_ref list"
  rp_ev_loop_tsc :: nat
  rp_pkt_loss_scan_tsc :: nat
  rp_root_next :: "slot_ref option"
  rp_tail_prev :: "slot_ref option"
  rp_ctrl_msgbuf_head :: nat
  rp_fast_rand :: u64
  rp_wheel :: "(slot_ref \<times> nat) timing_wheel"
  rp_bg_enqueue_request :: "enq_req_args mt_queue"
  rp_bg_enqueue_response :: "enq_resp_args mt_queue"
  rp_bg_req_queues :: "bg_work_item mt_queue list"
  rp_sm_rx_queue :: "sm_work_item mt_queue"
  rp_udp_sent :: "(string \<times> nat \<times> sm_pkt) list"
  rp_conn_req_token_map :: "nat \<rightharpoonup> nat"
  rp_sm_pending_reqs :: "nat set"
  rp_faults :: rpc_faults
  rp_retry_connect :: bool
  rp_num_re_tx :: nat
  rp_still_in_wheel :: nat
  rp_hdrs :: "nat \<Rightarrow> pkthdr"
  rp_sers :: "ser_ptr \<Rightarrow> serializer"
  rp_heap :: heap
  rp_resp_ptr :: "nat \<Rightarrow> ser_ptr option"
  rp_calls :: env_calls
  rp_app :: 'a

record 'a rpc_cfg =
  cf_dbg :: bool
  cf_testing :: bool
  cf_creator_etid :: nat
  cf_num_bg_threads :: nat
  cf_rpc_id :: nat
  cf_hostname :: string
  cf_sm_udp_port :: nat
  cf_transport_type :: transport_type
  cf_local_rinfo :: rinfo
  cf_freq_ghz :: real
  cf_bandwidth :: nat
  cf_sizeof_pkthdr :: nat
  cf_sizeof_ctrl_buffer :: nat
  cf_before_iovs :: iovec
  cf_args_resp :: nat
  cf_ctrl_hdrs :: nat
  cf_rx_ring_hdr :: "nat \<Rightarrow> nat"
  cf_rx_ring_body :: "nat \<Rightarrow> nat"
  cf_uninit :: "nat \<Rightarrow> session"
  cf_rdtsc :: "nat \<Rightarrow> nat"
  cf_rand :: "nat \<Rightarrow> nat"
  cf_resolve :: "nat \<Rightarrow> rinfo \<Rightarrow> rinfo option"
  cf_poll :: "nat \<Rightarrow> nat"
  cf_post_ok :: "nat \<Rightarrow> bool"
  cf_raw :: "nat \<Rightarrow> nat option"
  cf_req_func_arr :: "nat \<Rightarrow> req_func_type option"
  cf_req_func :: "nat \<Rightarrow> slot_ref \<Rightarrow> 'a rpc \<Rightarrow> 'a rpc option"
  cf_cont_func :: "nat \<Rightarrow> slot_ref option \<Rightarrow> nat \<Rightarrow> 'a rpc \<Rightarrow> 'a rpc option"
  cf_sm_handler :: "nat \<Rightarrow> sm_event_type \<Rightarrow> sm_err_type \<Rightarrow> 'a rpc \<Rightarrow> 'a rpc option"

definition in_dispatch :: "'a rpc_cfg \<Rightarrow> nat \<Rightarrow> bool" where
  "in_dispatch c etid \<longleftrightarrow> etid = cf_creator_etid c"

subsection \<open>Calls that leave the program\<close>

definition read_tsc :: "'a rpc_cfg \<Rightarrow> 'a rpc \<Rightarrow> nat \<times> 'a rpc" where
  "read_tsc c r = (cf_rdtsc c (ec_rdtsc (rp_calls r)), r\<lparr>rp_calls := (rp_calls r)\<lparr>ec_rdtsc := ec_rdtsc (rp_calls r) + 1\<rparr>\<rparr>)"

definition slow_rand :: "'a rpc_cfg \<Rightarrow> 'a rpc \<Rightarrow> nat \<times> 'a rpc" where
  "slow_rand c r = (cf_rand c (ec_rand (rp_calls r)), r\<lparr>rp_calls := (rp_calls r)\<lparr>ec_rand := ec_rand (rp_calls r) + 1\<rparr>\<rparr>)"

definition resolve_rinfo :: "'a rpc_cfg \<Rightarrow> rinfo \<Rightarrow> 'a rpc \<Rightarrow> rinfo option \<times> 'a rpc" where
  "resolve_rinfo c ri r =
    (if cf_testing c \<and> fa_fail_resolve_rinfo (rp_faults r) then (None, r)
     else (cf_resolve c (ec_resolve (rp_calls r)) ri, r\<lparr>rp_calls := (rp_calls r)\<lparr>ec_resolve := ec_resolve (rp_calls r) + 1\<rparr>\<rparr>))"

subsection \<open>Sessions and slots by reference\<close>

text \<open>\<open>vec_at\<close> reads an element of the session vector, which may be a null pointer; \<open>get_session\<close> follows
  it.\<close>

definition vec_at :: "'a rpc \<Rightarrow> nat \<Rightarrow> session option option" where
  "vec_at r n = (if n < length (rp_session_vec r) then Some (rp_session_vec r ! n) else None)"

definition get_session :: "'a rpc \<Rightarrow> nat \<Rightarrow> session option" where
  "get_session r n = do { s \<leftarrow> vec_at r n; s }"

definition set_session :: "nat \<Rightarrow> session \<Rightarrow> 'a rpc \<Rightarrow> 'a rpc" where
  "set_session n s r = r\<lparr>rp_session_vec := (rp_session_vec r)[n := Some s]\<rparr>"

definition get_slot :: "'a rpc \<Rightarrow> slot_ref \<Rightarrow> sslot option" where
  "get_slot r p =
    (case p of
       Slot n i \<Rightarrow> do { s \<leftarrow> get_session r n; cassert (i < length (ss_sslot_arr s)); Some (ss_sslot_arr s ! i) }
     | _ \<Rightarrow> None)"

definition upd_slot :: "slot_ref \<Rightarrow> (sslot \<Rightarrow> sslot) \<Rightarrow> 'a rpc \<Rightarrow> 'a rpc option" where
  "upd_slot p f r =
    (case p of
       Slot n i \<Rightarrow> do {
         s \<leftarrow> get_session r n;
         cassert (i < length (ss_sslot_arr s));
         Some (set_session n (s\<lparr>ss_sslot_arr := (ss_sslot_arr s)[i := f (ss_sslot_arr s ! i)]\<rparr>) r)
       }
     | _ \<Rightarrow> None)"

definition get_ci :: "'a rpc \<Rightarrow> slot_ref \<Rightarrow> client_info option" where
  "get_ci r p = do { sl \<leftarrow> get_slot r p; case sl_info sl of ClientInfo ci \<Rightarrow> Some ci | _ \<Rightarrow> None }"

definition get_si :: "'a rpc \<Rightarrow> slot_ref \<Rightarrow> server_info option" where
  "get_si r p = do { sl \<leftarrow> get_slot r p; case sl_info sl of ServerInfo si \<Rightarrow> Some si | _ \<Rightarrow> None }"

definition set_ci :: "slot_ref \<Rightarrow> client_info \<Rightarrow> 'a rpc \<Rightarrow> 'a rpc option" where
  "set_ci p ci r = upd_slot p (\<lambda>sl. sl\<lparr>sl_info := ClientInfo ci\<rparr>) r"

definition set_si :: "slot_ref \<Rightarrow> server_info \<Rightarrow> 'a rpc \<Rightarrow> 'a rpc option" where
  "set_si p si r = upd_slot p (\<lambda>sl. sl\<lparr>sl_info := ServerInfo si\<rparr>) r"

subsection \<open>Ring entries\<close>

definition have_ring_entries :: "'a rpc \<Rightarrow> bool" where
  "have_ring_entries r \<longleftrightarrow> kSessionCredits \<le> rp_ring_entries_available r"

definition alloc_ring_entries :: "'a rpc_cfg \<Rightarrow> 'a rpc \<Rightarrow> 'a rpc option" where
  "alloc_ring_entries c r = do {
     dassert (cf_dbg c) (have_ring_entries r);
     Some (r\<lparr>rp_ring_entries_available := sz_sub (rp_ring_entries_available r) kSessionCredits\<rparr>)
   }"

definition free_ring_entries :: "'a rpc_cfg \<Rightarrow> 'a rpc \<Rightarrow> 'a rpc option" where
  "free_ring_entries c r = do {
     let r = r\<lparr>rp_ring_entries_available := rp_ring_entries_available r + kSessionCredits\<rparr>;
     dassert (cf_dbg c) (rp_ring_entries_available r \<le> kNumRxRingEntries);
     Some r
   }"

subsection \<open>The list of active RPCs\<close>

text \<open>The list runs through the slots' \<^verbatim>\<open>prev_\<close> and \<^verbatim>\<open>next_\<close> between two sentinels, of which only the inner
  links are ever written.\<close>

definition get_next :: "'a rpc \<Rightarrow> slot_ref \<Rightarrow> slot_ref option option" where
  "get_next r p =
    (case p of RootSentinel \<Rightarrow> Some (rp_root_next r) | TailSentinel \<Rightarrow> Some None | Slot _ _ \<Rightarrow> map_option ci_next (get_ci r p))"

definition get_prev :: "'a rpc \<Rightarrow> slot_ref \<Rightarrow> slot_ref option option" where
  "get_prev r p =
    (case p of RootSentinel \<Rightarrow> Some None | TailSentinel \<Rightarrow> Some (rp_tail_prev r) | Slot _ _ \<Rightarrow> map_option ci_prev (get_ci r p))"

definition set_next :: "slot_ref \<Rightarrow> slot_ref option \<Rightarrow> 'a rpc \<Rightarrow> 'a rpc option" where
  "set_next p v r =
    (case p of
       RootSentinel \<Rightarrow> Some (r\<lparr>rp_root_next := v\<rparr>)
     | TailSentinel \<Rightarrow> None
     | Slot _ _ \<Rightarrow> do { ci \<leftarrow> get_ci r p; set_ci p (ci\<lparr>ci_next := v\<rparr>) r })"

definition set_prev :: "slot_ref \<Rightarrow> slot_ref option \<Rightarrow> 'a rpc \<Rightarrow> 'a rpc option" where
  "set_prev p v r =
    (case p of
       RootSentinel \<Rightarrow> None
     | TailSentinel \<Rightarrow> Some (r\<lparr>rp_tail_prev := v\<rparr>)
     | Slot _ _ \<Rightarrow> do { ci \<leftarrow> get_ci r p; set_ci p (ci\<lparr>ci_prev := v\<rparr>) r })"

definition add_to_active_rpc_list :: "slot_ref \<Rightarrow> 'a rpc \<Rightarrow> 'a rpc option" where
  "add_to_active_rpc_list p r = do {
     prev_tail \<leftarrow> rp_tail_prev r;
     r \<leftarrow> set_next prev_tail (Some p) r;
     r \<leftarrow> set_prev p (Some prev_tail) r;
     r \<leftarrow> set_next p (Some TailSentinel) r;
     set_prev TailSentinel (Some p) r
   }"

definition delete_from_active_rpc_list :: "slot_ref \<Rightarrow> 'a rpc \<Rightarrow> 'a rpc option" where
  "delete_from_active_rpc_list p r = do {
     ci \<leftarrow> get_ci r p;
     prv \<leftarrow> ci_prev ci;
     r \<leftarrow> set_next prv (ci_next ci) r;
     ci \<leftarrow> get_ci r p;
     nxt \<leftarrow> ci_next ci;
     set_prev nxt (ci_prev ci) r
   }"

subsection \<open>Construction\<close>

text \<open>\<open>zero_serializer\<close> is a Serializer after \<^verbatim>\<open>memset\<close> to zero, \<open>Serializer_new\<close> one that is default
  constructed; \<open>uninit\<close> has the fields its constructor does not set.\<close>

definition zero_iovector :: iovector where
  "zero_iovector = \<lparr>iv_capacity = 0, iv_begin = 0, iv_end = 0, iv_nbases = 0, iv_iovs = replicate 2300 \<lparr>iov_base = 0, iov_len = 0\<rparr>\<rparr>"

definition zero_serializer :: serializer where
  "zero_serializer = \<lparr>sr_iov = zero_iovector, sr_total_pkg = 0, sr_t_iov = zero_iovector, sr_data_pkg_index = replicate 2000 0,
     sr_iovfull = False, sr_is_sick = False, sr_used_size = 0, sr_new_buff = None\<rparr>"

definition Serializer_new :: "serializer \<Rightarrow> serializer" where
  "Serializer_new uninit =
    uninit\<lparr>sr_iov := iovector_new (iv_iovs (sr_iov uninit)) 2300 8, sr_t_iov := iovector_new (iv_iovs (sr_t_iov uninit)) 2300 8,
      sr_iovfull := False, sr_is_sick := False\<rparr>"

fun init_ctrl_msgbufs :: "'a rpc_cfg \<Rightarrow> nat \<Rightarrow> nat list \<Rightarrow> 'a rpc \<Rightarrow> 'a rpc option" where
  "init_ctrl_msgbufs c lkey [] r = Some r"
| "init_ctrl_msgbufs c lkey (i # is) r = do {
     let s = Serializer_new (rp_sers r (CtrlSer i));
     let hdr = cf_ctrl_hdrs c + i * cf_sizeof_pkthdr c;
     (_, iov) \<leftarrow> iv_push_front \<lparr>iov_base = hdr, iov_len = cf_sizeof_pkthdr c\<rparr> ((sr_iov s)\<lparr>iv_begin := 1, iv_end := 1\<rparr>);
     init_ctrl_msgbufs c lkey is
       (r\<lparr>rp_sers := (rp_sers r)(CtrlSer i := s\<lparr>sr_iov := iov\<rparr>),
          rp_hdrs := (rp_hdrs r)(hdr := (rp_hdrs r hdr)\<lparr>ph_lkey := bf 32 lkey\<rparr>)\<rparr>)
   }"

text \<open>The constructor. \<open>env_ok\<close> says that the checks of the environment succeed (user, port, NUMA node),
  \<open>id_exists\<close> is the answer of the Nexus whether the id is taken, \<open>lkey\<close> the key of the
  region with the control headers, \<open>garbage\<close> the wheel memory; \<open>u\<close> has what is not initialised.\<close>

definition Rpc_new :: "'a rpc_cfg \<Rightarrow> bool \<Rightarrow> bool \<Rightarrow> nat \<Rightarrow> (nat \<Rightarrow> (slot_ref \<times> nat) wheel_bkt) \<Rightarrow> bool \<Rightarrow> 'a rpc \<Rightarrow> 'a rpc option" where
  "Rpc_new c env_ok id_exists lkey garbage fast_recv u = do {
     cassert (env_ok \<and> cf_rpc_id c \<noteq> kInvalidRpcId \<and> \<not> id_exists);
     let tr = init_sends \<lparr>tr_opcode = tr_opcode (rp_transport u), tr_use_fast_recv = fast_recv, tr_nb_tx = 0, tr_recv_head = 0,
       tr_recvs_to_post = 0, tr_tx_flush_count = 0, tr_log = []\<rparr>;
     let r = u\<lparr>rp_session_vec := [], rp_ring_entries_available := kNumRxRingEntries, rp_tx_burst_arr := [], rp_transport := tr,
       rp_rx_ring_head := 0, rp_stallq := [], rp_ctrl_msgbuf_head := 0, rp_bg_enqueue_request := MtQueue_new,
       rp_bg_enqueue_response := MtQueue_new, rp_sm_rx_queue := MtQueue_new, rp_udp_sent := [], rp_conn_req_token_map := Map.empty,
       rp_sm_pending_reqs := {}, rp_faults := \<lparr>fa_fail_resolve_rinfo = False, fa_hard_wheel_bypass = False, fa_pkt_drop_prob = 0,
         fa_pkt_drop_thresh_billion = 0\<rparr>,
       rp_retry_connect := False, rp_num_re_tx := 0, rp_still_in_wheel := 0\<rparr>;
     let (creation_tsc, r) = read_tsc c r;
     let (base, r) = read_tsc c r;
     let wheel = TimingWheel_make (cf_freq_ghz c) kMTU garbage base;
     r \<leftarrow> init_ctrl_msgbufs c lkey [0..<2 * kUnsigBatch] r;
     let r = r\<lparr>rp_root_next := Some TailSentinel, rp_tail_prev := Some RootSentinel\<rparr>;
     let (now, r) = read_tsc c r;
     (k, wheel) \<leftarrow> catchup (cf_rdtsc c) (ec_rdtsc (rp_calls r)) wheel;
     Some (r\<lparr>rp_wheel := wheel, rp_pkt_loss_scan_tsc := now, rp_calls := (rp_calls r)\<lparr>ec_rdtsc := k\<rparr>\<rparr>)
   }"

section \<open>Properties of the state operations\<close>

lemma get_session_set [simp]:
  "n < length (rp_session_vec r) \<Longrightarrow> get_session (set_session m s r) n = (if n = m then Some s else get_session r n)"
  by (simp add: get_session_def vec_at_def set_session_def nth_list_update)

lemma get_session_Some_less: "get_session r n = Some s \<Longrightarrow> n < length (rp_session_vec r)"
  by (simp add: get_session_def vec_at_def split: if_splits)

lemma set_session_simps [simp]:
  "length (rp_session_vec (set_session n s r)) = length (rp_session_vec r)"
  "rp_root_next (set_session n s r) = rp_root_next r" "rp_tail_prev (set_session n s r) = rp_tail_prev r"
  by (simp_all add: set_session_def)

lemma get_session_cong [simp]:
  "get_session (r\<lparr>rp_root_next := a\<rparr>) n = get_session r n" "get_session (r\<lparr>rp_tail_prev := a\<rparr>) n = get_session r n"
  by (simp_all add: get_session_def vec_at_def)

lemma upd_slot_exists: "get_slot r p = Some sl \<Longrightarrow> \<exists>r'. upd_slot p f r = Some r'"
  by (auto simp: get_slot_def upd_slot_def bind_eq_Some_conv split: slot_ref.splits)

lemma get_slot_upd:
  assumes "upd_slot p f r = Some r'"
  shows "get_slot r' q = (if q = p then map_option f (get_slot r p) else get_slot r q)"
proof (cases p)
  case (Slot n i)
  then obtain s where s: "get_session r n = Some s" "i < length (ss_sslot_arr s)"
    "r' = set_session n (s\<lparr>ss_sslot_arr := (ss_sslot_arr s)[i := f (ss_sslot_arr s ! i)]\<rparr>) r"
    using assms by (auto simp: upd_slot_def bind_eq_Some_conv)
  note n = get_session_Some_less [OF s(1)]
  show ?thesis
  proof (cases q)
    fix m j assume q: "q = Slot m j"
    show ?thesis
    proof (cases "m < length (rp_session_vec r)")
      case True
      then show ?thesis
        using s n q Slot by (cases "j < length (ss_sslot_arr s)") (auto simp: get_slot_def nth_list_update)
    next
      case False
      then show ?thesis
        using s(3) q Slot n by (auto simp: get_slot_def get_session_def vec_at_def)
    qed
  qed (use Slot in \<open>simp_all add: get_slot_def\<close>)
qed (use assms in \<open>simp_all add: upd_slot_def\<close>)

lemma upd_slot_frame:
  "upd_slot p f r = Some r' \<Longrightarrow> rp_root_next r' = rp_root_next r \<and> rp_tail_prev r' = rp_tail_prev r"
  by (auto simp: upd_slot_def bind_eq_Some_conv split: slot_ref.splits)

lemma get_ci_set:
  assumes "set_ci p ci r = Some r'"
  shows "get_ci r' q = (if q = p then Some ci else get_ci r q)"
proof -
  have "get_slot r p \<noteq> None"
    using assms by (auto simp: set_ci_def upd_slot_def get_slot_def bind_eq_Some_conv split: slot_ref.splits)
  then show ?thesis
    using get_slot_upd [OF assms [unfolded set_ci_def], of q] by (auto simp: get_ci_def)
qed

lemma set_ci_exists: "get_ci r p = Some ci \<Longrightarrow> \<exists>r'. set_ci p ci' r = Some r'"
  using upd_slot_exists by (fastforce simp: set_ci_def get_ci_def bind_eq_Some_conv)

lemma get_ci_sentinel [simp]: "get_ci r RootSentinel = None" "get_ci r TailSentinel = None"
  by (simp_all add: get_ci_def get_slot_def)

lemma get_ci_upd_sentinel [simp]:
  "get_ci (r\<lparr>rp_root_next := a\<rparr>) p = get_ci r p" "get_ci (r\<lparr>rp_tail_prev := a\<rparr>) p = get_ci r p"
  by (simp_all add: get_ci_def get_slot_def split: slot_ref.split)

text \<open>Writing a link changes that link only.\<close>

lemma set_next_spec:
  assumes "set_next p v r = Some r'"
  shows "get_next r' q = (if q = p then Some v else get_next r q)" "get_prev r' q = get_prev r q"
    "get_ci r' q = None \<longleftrightarrow> get_ci r q = None"
  using assms by (auto simp: set_next_def get_next_def get_prev_def bind_eq_Some_conv get_ci_set set_ci_def
      dest: upd_slot_frame split: slot_ref.splits if_splits)

lemma set_prev_spec:
  assumes "set_prev p v r = Some r'"
  shows "get_prev r' q = (if q = p then Some v else get_prev r q)" "get_next r' q = get_next r q"
    "get_ci r' q = None \<longleftrightarrow> get_ci r q = None"
  using assms by (auto simp: set_prev_def get_next_def get_prev_def bind_eq_Some_conv get_ci_set set_ci_def
      dest: upd_slot_frame split: slot_ref.splits if_splits)

lemma set_next_exists: "p = RootSentinel \<or> get_ci r p \<noteq> None \<Longrightarrow> \<exists>r'. set_next p v r = Some r'"
  using set_ci_exists by (cases p) (fastforce simp: set_next_def)+

lemma set_prev_exists: "p = TailSentinel \<or> get_ci r p \<noteq> None \<Longrightarrow> \<exists>r'. set_prev p v r = Some r'"
  using set_ci_exists by (cases p) (fastforce simp: set_prev_def)+

fun dll :: "'a rpc \<Rightarrow> slot_ref \<Rightarrow> slot_ref list \<Rightarrow> bool" where
  "dll r p [] \<longleftrightarrow> True"
| "dll r p (q # qs) \<longleftrightarrow> get_next r p = Some (Some q) \<and> get_prev r q = Some (Some p) \<and> dll r q qs"

definition active_list :: "'a rpc \<Rightarrow> slot_ref list \<Rightarrow> bool" where
  "active_list r xs \<longleftrightarrow> distinct xs \<and> (\<forall>x \<in> set xs. get_ci r x \<noteq> None) \<and> dll r RootSentinel (xs @ [TailSentinel])"

lemma dll_append [simp]: "dll r p (xs @ ys) \<longleftrightarrow> dll r p xs \<and> dll r (last (p # xs)) ys"
  by (induction xs arbitrary: p) auto

lemma dll_cong:
  assumes "\<And>q. q \<in> set (butlast (p # xs)) \<Longrightarrow> get_next r' q = get_next r q" "\<And>q. q \<in> set xs \<Longrightarrow> get_prev r' q = get_prev r q"
  shows "dll r' p xs = dll r p xs"
  using assms by (induction xs arbitrary: p) (auto split: if_splits)

lemma active_list_no_sentinel: "active_list r xs \<Longrightarrow> RootSentinel \<notin> set xs \<and> TailSentinel \<notin> set xs"
  by (auto simp: active_list_def)

lemma add_refines:
  assumes al: "active_list r xs" and p: "get_ci r p \<noteq> None" "p \<notin> set xs"
  obtains r' where "add_to_active_rpc_list p r = Some r'" "active_list r' (xs @ [p])"
proof -
  let ?l = "last (RootSentinel # xs)"
  have tp: "rp_tail_prev r = Some ?l"
    using al by (simp add: active_list_def get_prev_def)
  have pn: "p \<noteq> RootSentinel" "p \<noteq> TailSentinel" "p \<noteq> ?l"
    using p by (auto split: if_splits)
  have l: "?l = RootSentinel \<or> get_ci r ?l \<noteq> None"
    using al by (auto simp: active_list_def)
  obtain r1 where r1: "set_next ?l (Some p) r = Some r1"
    using set_next_exists [OF l] by blast
  obtain r2 where r2: "set_prev p (Some ?l) r1 = Some r2"
    using set_prev_exists [of p r1] p(1) set_next_spec(3) [OF r1, of p] by auto
  obtain r3 where r3: "set_next p (Some TailSentinel) r2 = Some r3"
    using set_next_exists [of p r2] p(1) set_next_spec(3) [OF r1, of p] set_prev_spec(3) [OF r2, of p] by auto
  obtain r4 where r4: "set_prev TailSentinel (Some p) r3 = Some r4"
    using set_prev_exists [of TailSentinel r3] by blast
  note sp = set_next_spec [OF r1] set_prev_spec [OF r2] set_next_spec [OF r3] set_prev_spec [OF r4]
  have "dll r4 RootSentinel xs = dll r RootSentinel xs"
  proof (rule dll_cong)
    fix q assume "q \<in> set (butlast (RootSentinel # xs))"
    moreover have "distinct (RootSentinel # xs)"
      using al active_list_no_sentinel [OF al] by (simp add: active_list_def)
    ultimately have "q \<noteq> ?l" "q \<noteq> p"
      using last_notin_butlast [of "RootSentinel # xs"] in_set_butlastD [of q "RootSentinel # xs"] p(2) pn(1) by auto
    then show "get_next r4 q = get_next r q"
      by (simp add: sp)
  next
    fix q assume "q \<in> set xs"
    then show "get_prev r4 q = get_prev r q"
      using p active_list_no_sentinel [OF al] by (auto simp: sp)
  qed
  then have "active_list r4 (xs @ [p])"
    using al p pn by (auto simp: active_list_def sp)
  then show thesis
    using that r1 r2 r3 r4 tp by (simp add: add_to_active_rpc_list_def)
qed

lemma delete_refines:
  assumes al: "active_list r (xs @ p # ys)"
  obtains r' where "delete_from_active_rpc_list p r = Some r'" "active_list r' (xs @ ys)"
proof -
  let ?l = "last (RootSentinel # xs)" let ?n = "hd (ys @ [TailSentinel])"
  have ns: "RootSentinel \<notin> set (xs @ p # ys)" "TailSentinel \<notin> set (xs @ p # ys)"
    using active_list_no_sentinel [OF al] by auto
  have seg: "dll r RootSentinel xs" "get_next r ?l = Some (Some p)" "get_prev r p = Some (Some ?l)" "dll r p (ys @ [TailSentinel])"
    using al by (auto simp: active_list_def)
  then have nx: "get_next r p = Some (Some ?n)" "dll r ?n (tl (ys @ [TailSentinel]))"
    by (cases ys, auto)+
  obtain ci where ci: "get_ci r p = Some ci"
    using al by (auto simp: active_list_def)
  have pS: "\<exists>n i. p = Slot n i"
    using ci by (cases p) auto
  then have links: "ci_prev ci = Some ?l" "ci_next ci = Some ?n"
    using seg(3) nx(1) ci by (auto simp: get_next_def get_prev_def)
  have l: "?l = RootSentinel \<or> get_ci r ?l \<noteq> None" and n: "?n = TailSentinel \<or> get_ci r ?n \<noteq> None"
    using al by (auto simp: active_list_def hd_append)
  obtain r1 where r1: "set_next ?l (Some ?n) r = Some r1"
    using set_next_exists [OF l] by blast
  have dist: "?l \<noteq> p" "?n \<noteq> p"
    using al ns by (auto simp: active_list_def hd_append split: if_splits)
  obtain ci1 where ci1: "get_ci r1 p = Some ci1"
    using set_next_spec(3) [OF r1, of p] ci by auto
  have links1: "ci_prev ci1 = Some ?l" "ci_next ci1 = Some ?n"
    using seg(3) nx(1) ci1 dist set_next_spec(1,2) [OF r1, of p] pS by (auto simp: get_next_def get_prev_def)
  obtain r2 where r2: "set_prev ?n (Some ?l) r1 = Some r2"
    using set_prev_exists [of ?n r1] n set_next_spec(3) [OF r1, of ?n] by metis
  note sp = set_next_spec [OF r1] set_prev_spec [OF r2]
  have d: "distinct (RootSentinel # xs @ p # ys @ [TailSentinel])"
    using al ns by (auto simp: active_list_def)
  have "dll r2 RootSentinel xs = dll r RootSentinel xs"
  proof (rule dll_cong)
    fix q assume "q \<in> set (butlast (RootSentinel # xs))"
    then have "q \<noteq> ?l"
      using d last_notin_butlast [of "RootSentinel # xs"] by auto
    then show "get_next r2 q = get_next r q"
      by (simp add: sp)
  next
    fix q assume "q \<in> set xs"
    then have "q \<noteq> ?n"
      using d by (cases ys) auto
    then show "get_prev r2 q = get_prev r q"
      by (simp add: sp)
  qed
  moreover have "dll r2 ?n (tl (ys @ [TailSentinel])) = dll r ?n (tl (ys @ [TailSentinel]))"
  proof (rule dll_cong)
    fix q assume "q \<in> set (butlast (?n # tl (ys @ [TailSentinel])))"
    then have "q \<in> set ys"
      by (cases ys) (auto split: if_splits)
    moreover have "?l \<in> set (RootSentinel # xs)"
      by (rule last_in_set) simp
    ultimately have "q \<noteq> ?l"
      using d by auto
    then show "get_next r2 q = get_next r q"
      by (simp add: sp)
  next
    fix q assume "q \<in> set (tl (ys @ [TailSentinel]))"
    then have "q \<noteq> ?n"
      using d by (cases ys) auto
    then show "get_prev r2 q = get_prev r q"
      by (simp add: sp)
  qed
  moreover have "get_next r2 ?l = Some (Some ?n)" "get_prev r2 ?n = Some (Some ?l)"
    by (simp_all add: sp)
  ultimately have "dll r2 RootSentinel (xs @ ys @ [TailSentinel])"
    using seg(1) nx(2) by (cases ys) auto
  then have "active_list r2 (xs @ ys)"
    using al by (auto simp: active_list_def sp)
  then show thesis
    using that r1 r2 ci ci1 links links1 by (simp add: delete_from_active_rpc_list_def)
qed

text \<open>(C35) The list of active RPCs, threaded through the slots of all sessions, implements a list: adding a
  slot that is not in it appends the slot, deleting a slot that is in it removes the slot and keeps
  the order of the others.\<close>

theorem active_rpc_list_refines:
  assumes "active_list r xs" "get_ci r p \<noteq> None"
  shows "\<exists>r'. if p \<in> set xs then delete_from_active_rpc_list p r = Some r' \<and> active_list r' (remove1 p xs)
    else add_to_active_rpc_list p r = Some r' \<and> active_list r' (xs @ [p])"
proof (cases "p \<in> set xs")
  case True
  then obtain ys zs where x: "xs = ys @ p # zs" "p \<notin> set ys"
    using split_list_first by metis
  then have "remove1 p xs = ys @ zs"
    by (simp add: remove1_append)
  then show ?thesis
    using delete_refines [of r ys p zs] assms(1) x True by metis
next
  case False
  then show ?thesis
    using add_refines [OF assms] by metis
qed

text \<open>An endpoint without sessions, and a session, for examples.\<close>

definition rpc_ex :: "'a \<Rightarrow> 'a rpc" where
  "rpc_ex a = \<lparr>rp_session_vec = [], rp_ring_entries_available = kNumRxRingEntries, rp_tx_burst_arr = [],
     rp_transport = \<lparr>tr_opcode = IBV_WR_SEND, tr_use_fast_recv = False, tr_nb_tx = 0, tr_recv_head = 0, tr_recvs_to_post = 0,
       tr_tx_flush_count = 0, tr_log = []\<rparr>,
     rp_rx_ring_head = 0, rp_stallq = [], rp_ev_loop_tsc = 0, rp_pkt_loss_scan_tsc = 0, rp_root_next = Some TailSentinel,
     rp_tail_prev = Some RootSentinel, rp_ctrl_msgbuf_head = 0, rp_fast_rand = 1,
     rp_wheel = TimingWheel_new 1 8 9 (\<lambda>_. \<lparr>wb_num_entries = 0, wb_tx_tsc = 0, wb_last = 0, wb_next = None, wb_entry = (\<lambda>_. (RootSentinel, 0))\<rparr>) 0,
     rp_bg_enqueue_request = MtQueue_new, rp_bg_enqueue_response = MtQueue_new, rp_bg_req_queues = [], rp_sm_rx_queue = MtQueue_new,
     rp_udp_sent = [], rp_conn_req_token_map = Map.empty, rp_sm_pending_reqs = {},
     rp_faults = \<lparr>fa_fail_resolve_rinfo = False, fa_hard_wheel_bypass = False, fa_pkt_drop_prob = 0, fa_pkt_drop_thresh_billion = 0\<rparr>,
     rp_retry_connect = False, rp_num_re_tx = 0, rp_still_in_wheel = 0, rp_hdrs = (\<lambda>_. hdr_ex), rp_sers = (\<lambda>_. ser_ex),
     rp_heap = \<lparr>hmem = (\<lambda>_. 0), hbrk = 100000\<rparr>, rp_resp_ptr = (\<lambda>_. None),
     rp_calls = \<lparr>ec_rdtsc = 0, ec_rand = 0, ec_resolve = 0, ec_poll = 0\<rparr>, rp_app = a\<rparr>"

definition session_ex :: session where
  "session_ex = \<lparr>ss_is_client = True, ss_uniq_token = 7, ss_freq_ghz = 2, ss_link_bandwidth = 10 ^ 10, ss_state = St_Connected,
     ss_client = SessionEndpoint_new Tr_InfiniBand, ss_server = SessionEndpoint_new Tr_InfiniBand,
     ss_sslot_arr = map (new_sslot True) [0..<kSessionReqWindow], ss_local_session_num = 0, ss_remote_session_num = 0,
     ss_credits = kSessionCredits, ss_sslot_free_vec = \<lparr>fv_arr = rev [0..<kSessionReqWindow], fv_free_index = kSessionReqWindow\<rparr>,
     ss_enq_req_backlog = [], ss_num_re_tx = 0, ss_timely = Timely_new 2 (10 ^ 10) 0, ss_prev_desired_tx_tsc = 0, ss_sm_req_ts = 0\<rparr>"

theorem active_rpc_list_refines_witness:
  "\<exists>r. add_to_active_rpc_list (Slot 0 3) ((rpc_ex ())\<lparr>rp_session_vec := [Some session_ex]\<rparr>) = Some r \<and> active_list r [Slot 0 3]"
proof -
  let ?r = "(rpc_ex ())\<lparr>rp_session_vec := [Some session_ex]\<rparr>"
  have "active_list ?r []" "get_ci ?r (Slot 0 3) \<noteq> None"
    by (simp_all add: active_list_def get_next_def get_prev_def rpc_ex_def get_ci_def get_slot_def get_session_def vec_at_def session_ex_def
        new_sslot_def kSessionReqWindow_def)
  then show ?thesis
    using active_rpc_list_refines [of ?r "[]" "Slot 0 3"] by simp
qed

end
