(* ===== verification/Rpc_Sm.thy ===== *)
theory Rpc_Sm
  imports Rpc_State
begin

section \<open>Session management of an Rpc endpoint\<close>

text \<open>
  Model of the session management half of \<^verbatim>\<open>class Rpc\<close>: the API to create and destroy sessions
  (src/src/rpc_impl/rpc_sm_api.cc), the helpers that send and dispatch packets (rpc_sm_helpers.cc)
  and the handlers of connect and disconnect packets and of resets (rpc_connect_handlers.cc,
  rpc_disconnect_handlers.cc, rpc_reset_handlers.cc). A packet that is sent is appended to
  \<open>rp_udp_sent\<close>; UDP may lose it. A session is deleted by clearing its place in the session vector;
  past 65535 sessions the 16-bit session number no longer names that place and the vector would keep a
  pointer to a deleted session, so the model stops there.
\<close>

definition EPERM :: int where
  "EPERM = 1"

definition ENOMEM :: int where
  "ENOMEM = 12"

definition EBUSY :: int where
  "EBUSY = 16"

definition EINVAL :: int where
  "EINVAL = 22"

definition EALREADY :: int where
  "EALREADY = 114"

subsection \<open>Helpers\<close>

definition sm_pkt_udp_tx_st :: "sm_pkt \<Rightarrow> 'a rpc \<Rightarrow> 'a rpc" where
  "sm_pkt_udp_tx_st p r =
    (let rem_hostname = (if sp_is_req p then ep_hostname (sp_server p) else ep_hostname (sp_client p));
         rem_sm_udp_port = (if sp_is_req p then ep_sm_udp_port (sp_server p) else ep_sm_udp_port (sp_client p))
     in r\<lparr>rp_udp_sent := rp_udp_sent r @ [(rem_hostname, rem_sm_udp_port, p)]\<rparr>)"

definition send_resp :: "sm_pkt \<Rightarrow> sm_err_type \<Rightarrow> 'a rpc \<Rightarrow> 'a rpc option" where
  "send_resp req err r = do { p \<leftarrow> sm_construct_resp req err; Some (sm_pkt_udp_tx_st p r) }"

definition send_sm_req_st :: "'a rpc_cfg \<Rightarrow> nat \<Rightarrow> 'a rpc \<Rightarrow> 'a rpc option" where
  "send_sm_req_st c n r = do {
     s \<leftarrow> get_session r n;
     let r = r\<lparr>rp_sm_pending_reqs := insert (ss_local_session_num s) (rp_sm_pending_reqs r)\<rparr>;
     let (now, r) = read_tsc c r;
     let r = set_session n (s\<lparr>ss_sm_req_ts := now\<rparr>) r;
     Some (sm_pkt_udp_tx_st
       \<lparr>sp_pkt_type = (if ss_state s = St_ConnectInProgress then Sm_ConnectReq else Sm_DisconnectReq),
        sp_err_type = Err_NoError, sp_uniq_token = ss_uniq_token s, sp_client = ss_client s, sp_server = ss_server s\<rparr> r)
   }"

definition bury_session_st :: "nat \<Rightarrow> 'a rpc \<Rightarrow> 'a rpc option" where
  "bury_session_st n r = do {
     s \<leftarrow> get_session r n;
     cassert (ss_local_session_num s = n);
     Some (r\<lparr>rp_session_vec := (rp_session_vec r)[n := None]\<rparr>)
   }"

text \<open>A new session goes to the end of the session vector. Its slots, with the two Serializer objects inside
  each, are set to zero, and on the client Timely reads the clock twice.\<close>

definition new_session :: "'a rpc_cfg \<Rightarrow> bool \<Rightarrow> nat \<Rightarrow> 'a rpc \<Rightarrow> (session \<times> 'a rpc) option" where
  "new_session c is_client tok r = do {
     let n = length (rp_session_vec r);
     let (now, r) = (if is_client then (let (t, r) = read_tsc c r in (t, snd (read_tsc c r))) else (0, r));
     s \<leftarrow> Session_new (cf_uninit c n) is_client tok (cf_freq_ghz c) (real (cf_bandwidth c)) now;
     let r = r\<lparr>rp_sers := (\<lambda>p. case p of
         PreResp m _ \<Rightarrow> if m = n then zero_serializer else rp_sers r p
       | DynResp m _ \<Rightarrow> if m = n then zero_serializer else rp_sers r p
       | _ \<Rightarrow> rp_sers r p)\<rparr>;
     Some (s, r)
   }"

subsection \<open>API\<close>

definition fill_client_session :: "'a rpc_cfg \<Rightarrow> string \<Rightarrow> nat \<Rightarrow> nat \<Rightarrow> nat \<Rightarrow> session \<Rightarrow> session option" where
  "fill_client_session c rem_hostname rem_sm_udp_port rem_rpc_id n s = do {
     client \<leftarrow> strcpy_hostname (cf_hostname c) ((ss_client s)\<lparr>ep_transport_type := cf_transport_type c\<rparr>);
     server \<leftarrow> strcpy_hostname rem_hostname ((ss_server s)\<lparr>ep_transport_type := cf_transport_type c\<rparr>);
     Some (s\<lparr>ss_state := St_ConnectInProgress, ss_local_session_num := u16_of n,
       ss_client := client\<lparr>ep_sm_udp_port := cf_sm_udp_port c, ep_rpc_id := cf_rpc_id c,
         ep_session_num := u16_of n, ep_routing_info := cf_local_rinfo c\<rparr>,
       ss_server := server\<lparr>ep_sm_udp_port := rem_sm_udp_port, ep_rpc_id := rem_rpc_id\<rparr>\<rparr>)
   }"

definition add_client_session :: "'a rpc_cfg \<Rightarrow> string \<Rightarrow> nat \<Rightarrow> nat \<Rightarrow> 'a rpc \<Rightarrow> (int \<times> 'a rpc) option" where
  "add_client_session c rem_hostname rem_sm_udp_port rem_rpc_id r = do {
     let (tok, r) = slow_rand c r;
     (s, r) \<leftarrow> new_session c True tok r;
     let n = length (rp_session_vec r);
     s \<leftarrow> fill_client_session c rem_hostname rem_sm_udp_port rem_rpc_id n s;
     r \<leftarrow> alloc_ring_entries c r;
     r \<leftarrow> send_sm_req_st c n (r\<lparr>rp_session_vec := rp_session_vec r @ [Some s]\<rparr>);
     Some (int (ep_session_num (ss_client s)), r)
   }"

definition create_session_st :: "'a rpc_cfg \<Rightarrow> nat \<Rightarrow> string \<Rightarrow> nat \<Rightarrow> 'a rpc \<Rightarrow> (int \<times> 'a rpc) option" where
  "create_session_st c etid remote_uri rem_rpc_id r =
    (if \<not> in_dispatch c etid then Some (- EPERM, r)
     else do {
       rem_hostname \<leftarrow> extract_hostname_from_uri (cf_dbg c) remote_uri;
       rem_sm_udp_port \<leftarrow> extract_udp_port_from_uri (cf_dbg c) remote_uri;
       if length rem_hostname = 0 \<or> kMaxHostnameLen < length rem_hostname then Some (- EINVAL, r)
       else if rem_hostname = cf_hostname c \<and> rem_rpc_id = cf_rpc_id c \<and> rem_sm_udp_port = cf_sm_udp_port c
       then Some (- EINVAL, r)
       else if \<not> have_ring_entries r then Some (- ENOMEM, r)
       else add_client_session c rem_hostname rem_sm_udp_port rem_rpc_id r
     })"

definition destroy_session_st :: "'a rpc_cfg \<Rightarrow> nat \<Rightarrow> int \<Rightarrow> 'a rpc \<Rightarrow> (int \<times> 'a rpc) option" where
  "destroy_session_st c etid session_num r =
    (if \<not> in_dispatch c etid then Some (- EPERM, r)
     else if \<not> (0 \<le> session_num \<and> nat session_num < length (rp_session_vec r)) then Some (- EINVAL, r)
     else let n = nat session_num in
       case rp_session_vec r ! n of
         None \<Rightarrow> Some (- EPERM, r)
       | Some s \<Rightarrow>
           if \<not> ss_is_client s then Some (- EINVAL, r)
           else if fv_size (ss_sslot_free_vec s) \<noteq> kSessionReqWindow then Some (- EBUSY, r)
           else do {
             dassert (cf_dbg c) (list_all (\<lambda>sl. sl_tx_msgbuf sl = None) (ss_sslot_arr s));
             case ss_state s of
               St_ConnectInProgress \<Rightarrow> Some (- EPERM, r)
             | St_Connected \<Rightarrow> do {
                 r \<leftarrow> send_sm_req_st c n (set_session n (s\<lparr>ss_state := St_DisconnectInProgress\<rparr>) r);
                 Some (0, r)
               }
             | St_DisconnectInProgress \<Rightarrow> Some (- EALREADY, r)
             | St_ResetInProgress \<Rightarrow> Some (0, r)
           })"

definition num_active_sessions_st :: "'a rpc \<Rightarrow> nat" where
  "num_active_sessions_st r = length (filter (\<lambda>s. s \<noteq> None) (rp_session_vec r))"

subsection \<open>Connect\<close>

definition connect_new_session :: "'a rpc_cfg \<Rightarrow> sm_pkt \<Rightarrow> rinfo \<Rightarrow> 'a rpc \<Rightarrow> 'a rpc option" where
  "connect_new_session c p client_rinfo r = do {
     (s, r) \<leftarrow> new_session c False (sp_uniq_token p) r;
     let num = u16_of (length (rp_session_vec r));
     let s = s\<lparr>ss_state := St_Connected,
       ss_server := (sp_server p)\<lparr>ep_session_num := num, ep_routing_info := cf_local_rinfo c\<rparr>,
       ss_client := (sp_client p)\<lparr>ep_routing_info := client_rinfo\<rparr>,
       ss_local_session_num := num, ss_remote_session_num := ep_session_num (sp_client p)\<rparr>;
     let r = r\<lparr>rp_conn_req_token_map := (rp_conn_req_token_map r)(ss_uniq_token s \<mapsto> num)\<rparr>;
     r \<leftarrow> alloc_ring_entries c r;
     let r = r\<lparr>rp_session_vec := rp_session_vec r @ [Some s]\<rparr>;
     resp \<leftarrow> sm_construct_resp p Err_NoError;
     Some (sm_pkt_udp_tx_st (resp\<lparr>sp_server := ss_server s\<rparr>) r)
   }"

definition handle_connect_req_st :: "'a rpc_cfg \<Rightarrow> sm_pkt \<Rightarrow> 'a rpc \<Rightarrow> 'a rpc option" where
  "handle_connect_req_st c p r = do {
     dassert (cf_dbg c) (sp_pkt_type p = Sm_ConnectReq \<and> ep_rpc_id (sp_server p) = cf_rpc_id c);
     case rp_conn_req_token_map r (sp_uniq_token p) of
       Some srv_session_num \<Rightarrow> do {
         session \<leftarrow> vec_at r srv_session_num;
         case session of
           None \<Rightarrow> Some r
         | Some s \<Rightarrow>
             if ss_state s \<noteq> St_Connected then Some r
             else do {
               resp \<leftarrow> sm_construct_resp p Err_NoError;
               Some (sm_pkt_udp_tx_st (resp\<lparr>sp_server := ss_server s\<rparr>) r)
             }
       }
     | None \<Rightarrow>
         if ep_transport_type (sp_server p) \<noteq> cf_transport_type c then send_resp p Err_InvalidTransport r
         else if \<not> have_ring_entries r then send_resp p Err_RingExhausted r
         else
           let (client_rinfo, r) = resolve_rinfo c (ep_routing_info (sp_client p)) r
           in case client_rinfo of
                None \<Rightarrow> send_resp p Err_RoutingResolutionFailure r
              | Some ri \<Rightarrow> connect_new_session c p ri r
   }"

text \<open>What both responses do with a session that is finished.\<close>

definition close_session :: "'a rpc_cfg \<Rightarrow> nat \<Rightarrow> session \<Rightarrow> sm_event_type \<Rightarrow> sm_err_type \<Rightarrow> 'a rpc \<Rightarrow> 'a rpc option" where
  "close_session c n s ev err r = do {
     r \<leftarrow> free_ring_entries c r;
     r \<leftarrow> cf_sm_handler c (ss_local_session_num s) ev err r;
     bury_session_st n r
   }"

definition handle_connect_resp_st :: "'a rpc_cfg \<Rightarrow> sm_pkt \<Rightarrow> 'a rpc \<Rightarrow> 'a rpc option" where
  "handle_connect_resp_st c p r = do {
     dassert (cf_dbg c) (sp_pkt_type p = Sm_ConnectResp \<and> ep_rpc_id (sp_client p) = cf_rpc_id c);
     let n = ep_session_num (sp_client p);
     session \<leftarrow> vec_at r n;
     case session of
       None \<Rightarrow> Some r
     | Some s \<Rightarrow>
         if ss_state s \<noteq> St_ConnectInProgress then Some r
         else do {
           dassert (cf_dbg c) (ss_is_client s \<and> endpoint_eq (ss_client s) (sp_client p));
           dassert (cf_dbg c) (ep_hostname (ss_server s) = ep_hostname (sp_server p));
           dassert (cf_dbg c) (ep_rpc_id (ss_server s) = ep_rpc_id (sp_server p));
           dassert (cf_dbg c) (ep_session_num (ss_server s) = kInvalidSessionNum);
           if sp_err_type p = Err_InvalidRemoteRpcId \<and> rp_retry_connect r
           then Some (r\<lparr>rp_sm_pending_reqs := insert (ss_local_session_num s) (rp_sm_pending_reqs r)\<rparr>)
           else if sp_err_type p \<noteq> Err_NoError
           then close_session c n s Ev_ConnectFailed (sp_err_type p) r
           else
             let (srv_rinfo, r) = resolve_rinfo c (ep_routing_info (sp_server p)) r
             in case srv_rinfo of
                  None \<Rightarrow>
                    send_sm_req_st c n
                      (set_session n (s\<lparr>ss_server := sp_server p, ss_state := St_DisconnectInProgress\<rparr>) r)
                | Some ri \<Rightarrow>
                    let (now, r) = read_tsc c r;
                        s = s\<lparr>ss_server := (sp_server p)\<lparr>ep_routing_info := ri\<rparr>,
                              ss_remote_session_num := ep_session_num (sp_server p), ss_state := St_Connected,
                              ss_prev_desired_tx_tsc := now\<rparr>
                    in cf_sm_handler c (ss_local_session_num s) Ev_Connected Err_NoError (set_session n s r)
         }
   }"

subsection \<open>Disconnect\<close>

definition no_response_pending :: "session \<Rightarrow> bool" where
  "no_response_pending s \<longleftrightarrow> (\<forall>sl \<in> set (ss_sslot_arr s). case sl_info sl of
     ServerInfo si \<Rightarrow> si_req_type si = kInvalidReqType | ClientInfo _ \<Rightarrow> False)"

definition handle_disconnect_req_st :: "'a rpc_cfg \<Rightarrow> sm_pkt \<Rightarrow> 'a rpc \<Rightarrow> 'a rpc option" where
  "handle_disconnect_req_st c p r = do {
     dassert (cf_dbg c) (sp_pkt_type p = Sm_DisconnectReq \<and> ep_rpc_id (sp_server p) = cf_rpc_id c);
     let n = ep_session_num (sp_server p);
     session \<leftarrow> vec_at r n;
     case session of
       None \<Rightarrow> send_resp p Err_NoError r
     | Some s \<Rightarrow> do {
         dassert (cf_dbg c) (\<not> ss_is_client s \<and> ss_is_connected s);
         dassert (cf_dbg c) (endpoint_eq (ss_server s) (sp_server p));
         dassert (cf_dbg c) (endpoint_eq (ss_client s) (sp_client p));
         dassert (cf_dbg c) (no_response_pending s);
         r \<leftarrow> free_ring_entries c r;
         r \<leftarrow> send_resp p Err_NoError r;
         bury_session_st n r
       }
   }"

definition handle_disconnect_resp_st :: "'a rpc_cfg \<Rightarrow> sm_pkt \<Rightarrow> 'a rpc \<Rightarrow> 'a rpc option" where
  "handle_disconnect_resp_st c p r = do {
     dassert (cf_dbg c) (sp_pkt_type p = Sm_DisconnectResp \<and> ep_rpc_id (sp_client p) = cf_rpc_id c);
     dassert (cf_dbg c) (sp_err_type p = Err_NoError);
     let n = ep_session_num (sp_client p);
     session \<leftarrow> vec_at r n;
     case session of
       None \<Rightarrow> Some r
     | Some s \<Rightarrow> do {
         dassert (cf_dbg c) (ss_is_client s);
         dassert (cf_dbg c) (ss_state s = St_DisconnectInProgress);
         dassert (cf_dbg c) (endpoint_eq (ss_client s) (sp_client p));
         dassert (cf_dbg c) (endpoint_eq (ss_server s) (sp_server p));
         close_session c n s Ev_Disconnected Err_NoError r
       }
   }"

subsection \<open>Dispatch\<close>

definition handle_sm_item :: "'a rpc_cfg \<Rightarrow> sm_work_item \<Rightarrow> 'a rpc \<Rightarrow> 'a rpc option" where
  "handle_sm_item c wi r =
    (case wi of
       SmReset _ \<Rightarrow> None
     | SmWork _ p \<Rightarrow> do {
         let r = (if sp_is_resp p
           then r\<lparr>rp_sm_pending_reqs := rp_sm_pending_reqs r - {ep_session_num (sp_client p)}\<rparr> else r);
         case sp_pkt_type p of
           Sm_ConnectReq \<Rightarrow> handle_connect_req_st c p r
         | Sm_DisconnectReq \<Rightarrow> handle_disconnect_req_st c p r
         | Sm_ConnectResp \<Rightarrow> handle_connect_resp_st c p r
         | Sm_DisconnectResp \<Rightarrow> handle_disconnect_resp_st c p r
         | _ \<Rightarrow> None
       })"

partial_function (option) handle_sm_rx_st :: "'a rpc_cfg \<Rightarrow> 'a rpc \<Rightarrow> 'a rpc option" where
  "handle_sm_rx_st c r =
    (if 0 < mq_size (rp_sm_rx_queue r) then do {
       (wi, q) \<leftarrow> unlocked_pop (rp_sm_rx_queue r);
       r \<leftarrow> handle_sm_item c wi (r\<lparr>rp_sm_rx_queue := q\<rparr>);
       handle_sm_rx_st c r
     } else Some r)"

subsection \<open>Reset\<close>

fun reset_client_slots :: "'a rpc_cfg \<Rightarrow> nat \<Rightarrow> nat list \<Rightarrow> 'a rpc \<Rightarrow> 'a rpc option" where
  "reset_client_slots c n [] r = Some r"
| "reset_client_slots c n (i # is) r = do {
     sl \<leftarrow> get_slot r (Slot n i);
     r \<leftarrow>
       (if sl_tx_msgbuf sl = None then do {
          r \<leftarrow> upd_slot (Slot n i) (\<lambda>sl. sl\<lparr>sl_tx_msgbuf := None\<rparr>) r;
          r \<leftarrow> delete_from_active_rpc_list (Slot n i) r;
          s \<leftarrow> get_session r n;
          v \<leftarrow> fv_push_back (sl_index sl) (ss_sslot_free_vec s);
          let r = set_session n (s\<lparr>ss_sslot_free_vec := v\<rparr>) r;
          ci \<leftarrow> get_ci r (Slot n i);
          cf_cont_func c (ci_cont_func ci) None (ci_tag ci) r
        } else Some r);
     reset_client_slots c n is r
   }"

definition handle_reset_client_st :: "'a rpc_cfg \<Rightarrow> nat \<Rightarrow> 'a rpc \<Rightarrow> (bool \<times> 'a rpc) option" where
  "handle_reset_client_st c n r = do {
     let r = r\<lparr>rp_stallq := filter (\<lambda>p. \<not> (\<exists>i < kSessionReqWindow. p = Slot n i)) (rp_stallq r)\<rparr>;
     r \<leftarrow> reset_client_slots c n [0..<kSessionReqWindow] r;
     s \<leftarrow> get_session r n;
     dassert (cf_dbg c) (fv_size (ss_sslot_free_vec s) = kSessionReqWindow);
     let s = s\<lparr>ss_state := St_DisconnectInProgress\<rparr>;
     r \<leftarrow> close_session c n s Ev_Disconnected Err_SrvDisconnected (set_session n s r);
     Some (True, r)
   }"

fun pending_enqueue_resps :: "sslot list \<Rightarrow> nat option" where
  "pending_enqueue_resps [] = Some 0"
| "pending_enqueue_resps (sl # sls) = do {
     k \<leftarrow> pending_enqueue_resps sls;
     case sl_info sl of
       ServerInfo si \<Rightarrow> Some (if si_req_type si \<noteq> kInvalidReqType then k + 1 else k)
     | ClientInfo _ \<Rightarrow> None
   }"

definition handle_reset_server_st :: "'a rpc_cfg \<Rightarrow> nat \<Rightarrow> 'a rpc \<Rightarrow> (bool \<times> 'a rpc) option" where
  "handle_reset_server_st c n r = do {
     s \<leftarrow> get_session r n;
     dassert (cf_dbg c) (\<not> ss_is_client s);
     let r = set_session n (s\<lparr>ss_state := St_ResetInProgress\<rparr>) r;
     k \<leftarrow> pending_enqueue_resps (ss_sslot_arr s);
     if k = 0 then do {
       r \<leftarrow> free_ring_entries c r;
       r \<leftarrow> bury_session_st n r;
       Some (True, r)
     } else Some (False, r)
   }"

subsection \<open>Fault injection\<close>

definition fault_inject_fail_resolve_rinfo_st :: "'a rpc_cfg \<Rightarrow> nat \<Rightarrow> 'a rpc \<Rightarrow> 'a rpc option" where
  "fault_inject_fail_resolve_rinfo_st c etid r = do {
     cassert (cf_testing c \<and> in_dispatch c etid);
     Some (r\<lparr>rp_faults := (rp_faults r)\<lparr>fa_fail_resolve_rinfo := True\<rparr>\<rparr>)
   }"

definition fault_inject_set_pkt_drop_prob_st :: "'a rpc_cfg \<Rightarrow> nat \<Rightarrow> real \<Rightarrow> 'a rpc \<Rightarrow> 'a rpc option" where
  "fault_inject_set_pkt_drop_prob_st c etid p r = do {
     cassert (cf_testing c \<and> in_dispatch c etid);
     dassert (cf_dbg c) (p = 0 \<or> (1 / 1000000000 \<le> p \<and> p < 95 / 100));
     Some (r\<lparr>rp_faults := (rp_faults r)\<lparr>fa_pkt_drop_prob := p, fa_pkt_drop_thresh_billion := nat \<lfloor>p * 1000000000\<rfloor>\<rparr>\<rparr>)
   }"

subsection \<open>Calls from a callback\<close>

text \<open>What a session management callback may do to its endpoint: create and destroy sessions, from the
  creator thread, and change the state of the application. \<open>api_calls\<close> is the contract of a callback.\<close>

inductive api_call :: "'a rpc_cfg \<Rightarrow> 'a rpc \<Rightarrow> 'a rpc \<Rightarrow> bool" for c where
  create: "create_session_st c etid uri rem_id r = Some (k, r') \<Longrightarrow> api_call c r r'"
| destroy: "destroy_session_st c etid n r = Some (k, r') \<Longrightarrow> api_call c r r'"
| app: "api_call c r (r\<lparr>rp_app := a\<rparr>)"

abbreviation api_calls :: "'a rpc_cfg \<Rightarrow> 'a rpc \<Rightarrow> 'a rpc \<Rightarrow> bool" where
  "api_calls c \<equiv> (api_call c)\<^sup>*\<^sup>*"

locale sm_callbacks =
  fixes c :: "'a rpc_cfg"
  assumes callback: "cf_sm_handler c n ev err r = Some r' \<Longrightarrow> api_calls c r r'"

text \<open>The handler that the applications of the repository install (\<^verbatim>\<open>basic_sm_handler\<close> in
  src/apps/apps_common.h), with the fields of their context that it uses.\<close>

record basic_app =
  ba_num_sm_resps :: nat
  ba_session_num_vec :: "nat list"

definition basic_sm_handler :: "nat \<Rightarrow> sm_event_type \<Rightarrow> sm_err_type \<Rightarrow> basic_app rpc \<Rightarrow> basic_app rpc option" where
  "basic_sm_handler session_num ev err r = do {
     let a = (rp_app r)\<lparr>ba_num_sm_resps := ba_num_sm_resps (rp_app r) + 1\<rparr>;
     cassert (err = Err_NoError);
     cassert (ev = Ev_Connected \<or> ev = Ev_Disconnected);
     cassert (session_num \<in> set (ba_session_num_vec a));
     Some (r\<lparr>rp_app := a\<rparr>)
   }"

definition basic_cfg :: "basic_app rpc_cfg \<Rightarrow> basic_app rpc_cfg" where
  "basic_cfg c = c\<lparr>cf_sm_handler := basic_sm_handler\<rparr>"

interpretation basic: sm_callbacks "basic_cfg c" for c
  by unfold_locales (auto simp: basic_cfg_def basic_sm_handler_def Let_def bind_eq_Some_conv intro: api_call.app)

section \<open>What an endpoint shows of its sessions\<close>

text \<open>The view of an endpoint keeps what session management is about.\<close>

record sess_view =
  v_client :: bool
  v_tok :: nat
  v_state :: session_state
  v_cep :: session_endpoint
  v_sep :: session_endpoint
  v_local :: nat
  v_remote :: nat
  v_ok :: bool

record ep_view =
  ev_vec :: "sess_view option list"
  ev_tm :: "nat \<rightharpoonup> nat"
  ev_sent :: "(string \<times> nat \<times> sm_pkt) list"
  ev_rand :: nat
  ev_queue :: "sm_work_item mt_queue"
  ev_total :: nat

definition sv :: "session \<Rightarrow> sess_view" where
  "sv s = \<lparr>v_client = ss_is_client s, v_tok = ss_uniq_token s, v_state = ss_state s, v_cep = ss_client s, v_sep = ss_server s,
     v_local = ss_local_session_num s, v_remote = ss_remote_session_num s, v_ok = session_ok s\<rparr>"

definition view :: "'a rpc \<Rightarrow> ep_view" where
  "view r = \<lparr>ev_vec = map (map_option sv) (rp_session_vec r), ev_tm = rp_conn_req_token_map r, ev_sent = rp_udp_sent r,
     ev_rand = ec_rand (rp_calls r), ev_queue = rp_sm_rx_queue r,
     ev_total = rp_ring_entries_available r + kSessionCredits * num_active_sessions_st r\<rparr>"

definition addressed :: "sm_pkt \<Rightarrow> string \<times> nat \<times> sm_pkt" where
  "addressed p = (if sp_is_req p then (ep_hostname (sp_server p), ep_sm_udp_port (sp_server p), p)
     else (ep_hostname (sp_client p), ep_sm_udp_port (sp_client p), p))"

definition sent :: "sm_pkt \<Rightarrow> ep_view \<Rightarrow> ep_view" where
  "sent p v = v\<lparr>ev_sent := ev_sent v @ [addressed p]\<rparr>"

definition sess_req :: "sess_view \<Rightarrow> sm_pkt" where
  "sess_req s = \<lparr>sp_pkt_type = (if v_state s = St_ConnectInProgress then Sm_ConnectReq else Sm_DisconnectReq),
     sp_err_type = Err_NoError, sp_uniq_token = v_tok s, sp_client = v_cep s, sp_server = v_sep s\<rparr>"

definition resp_of :: "sm_pkt \<Rightarrow> sm_err_type \<Rightarrow> sm_pkt" where
  "resp_of p err = p\<lparr>sp_pkt_type := (if sp_pkt_type p = Sm_ConnectReq then Sm_ConnectResp else Sm_DisconnectResp), sp_err_type := err\<rparr>"

lemma session_ok_upd [simp]:
  "session_ok (s\<lparr>ss_state := a\<rparr>) = session_ok s" "session_ok (s\<lparr>ss_client := b\<rparr>) = session_ok s"
  "session_ok (s\<lparr>ss_server := b\<rparr>) = session_ok s" "session_ok (s\<lparr>ss_local_session_num := d\<rparr>) = session_ok s"
  "session_ok (s\<lparr>ss_remote_session_num := d\<rparr>) = session_ok s" "session_ok (s\<lparr>ss_sm_req_ts := d\<rparr>) = session_ok s"
  "session_ok (s\<lparr>ss_prev_desired_tx_tsc := d\<rparr>) = session_ok s"
  by (simp_all add: session_ok_def)

lemma view_upd [simp]:
  "view (r\<lparr>rp_app := a\<rparr>) = view r" "view (r\<lparr>rp_sers := b\<rparr>) = view r" "view (r\<lparr>rp_sm_pending_reqs := d\<rparr>) = view r"
  by (simp_all add: view_def num_active_sessions_st_def)

lemma view_read_tsc [simp]: "view (snd (read_tsc c r)) = view r" "rp_session_vec (snd (read_tsc c r)) = rp_session_vec r"
  by (simp_all add: view_def read_tsc_def num_active_sessions_st_def)

lemma view_tx [simp]: "view (sm_pkt_udp_tx_st p r) = sent p (view r)"
  by (simp add: view_def sm_pkt_udp_tx_st_def sent_def addressed_def Let_def num_active_sessions_st_def)

lemma view_resolve: "resolve_rinfo c ri r = (x, r') \<Longrightarrow> view r' = view r \<and> rp_session_vec r' = rp_session_vec r"
  by (auto simp: resolve_rinfo_def view_def num_active_sessions_st_def split: if_splits)

lemma construct_resp: "sp_pkt_type p \<in> {Sm_ConnectReq, Sm_DisconnectReq} \<Longrightarrow> sm_construct_resp p err = Some (resp_of p err)"
  by (auto simp: sm_construct_resp_def resp_of_def)

lemma active_count:
  "n < length xs \<Longrightarrow> xs ! n \<noteq> None \<Longrightarrow> length (filter (\<lambda>s. s \<noteq> None) (xs[n := Some x])) = length (filter (\<lambda>s. s \<noteq> None) xs)"
  "n < length xs \<Longrightarrow> xs ! n \<noteq> None \<Longrightarrow> Suc (length (filter (\<lambda>s. s \<noteq> None) (xs[n := None]))) = length (filter (\<lambda>s. s \<noteq> None) xs)"
proof -
  assume n: "n < length xs" "xs ! n \<noteq> None"
  then obtain y where y: "xs ! n = Some y"
    by auto
  obtain ys zs where xs: "xs = ys @ Some y # zs" "length ys = n"
    using that id_take_nth_drop [OF n(1)] n(1) y by (metis length_take min.absorb4)
  then show "length (filter (\<lambda>s. s \<noteq> None) (xs[n := Some x])) = length (filter (\<lambda>s. s \<noteq> None) xs)"
    "Suc (length (filter (\<lambda>s. s \<noteq> None) (xs[n := None]))) = length (filter (\<lambda>s. s \<noteq> None) xs)"
    by (auto simp: list_update_append)
qed

lemma get_session_view: "get_session r n = Some s \<longleftrightarrow> n < length (rp_session_vec r) \<and> rp_session_vec r ! n = Some s"
  by (auto simp: get_session_def vec_at_def)

lemma ev_vec_view [simp]: "length (ev_vec (view r)) = length (rp_session_vec r)"
  "n < length (rp_session_vec r) \<Longrightarrow> ev_vec (view r) ! n = map_option sv (rp_session_vec r ! n)"
  by (simp_all add: view_def)

lemma view_set_session:
  "get_session r n = Some s0 \<Longrightarrow> view (set_session n s r) = (view r)\<lparr>ev_vec := (ev_vec (view r))[n := Some (sv s)]\<rparr>"
  using active_count(1) [of n "rp_session_vec r" s]
  by (auto simp: view_def set_session_def get_session_view num_active_sessions_st_def map_update)

lemma send_sm_req_view:
  assumes "get_session r n = Some s"
  obtains r' where "send_sm_req_st c n r = Some r'" "view r' = sent (sess_req (sv s)) (view r)"
proof -
  have "(ev_vec (view r))[n := Some (sv s)] = ev_vec (view r)"
    using assms by (simp add: get_session_view list_update_same_conv)
  moreover have "get_session (snd (read_tsc c (r\<lparr>rp_sm_pending_reqs := a\<rparr>))) n = Some s" for a
    using assms by (simp add: get_session_view read_tsc_def)
  moreover have "sv (s\<lparr>ss_sm_req_ts := t\<rparr>) = sv s" for t
    by (simp add: sv_def)
  ultimately show thesis
    using that assms
    by (simp add: send_sm_req_st_def Let_def case_prod_beta view_set_session sess_req_def sv_def)
qed

lemma bury_view:
  assumes "bury_session_st n r = Some r'"
  obtains s where "n < length (ev_vec (view r))" "ev_vec (view r) ! n = Some s"
    "view r' = (view r)\<lparr>ev_vec := (ev_vec (view r))[n := None], ev_total := ev_total (view r) - kSessionCredits\<rparr>"
    "kSessionCredits \<le> ev_total (view r)"
proof -
  obtain s where s: "n < length (rp_session_vec r)" "rp_session_vec r ! n = Some s"
    "r' = r\<lparr>rp_session_vec := (rp_session_vec r)[n := None]\<rparr>"
    using assms by (auto simp: bury_session_st_def bind_eq_Some_conv get_session_view)
  then have "num_active_sessions_st r = Suc (num_active_sessions_st r')"
    using active_count(2) [of n "rp_session_vec r"] by (simp add: num_active_sessions_st_def)
  then show thesis
    using that [of "sv s"] s by (simp add: view_def map_update num_active_sessions_st_def)
qed

lemma view_alloc:
  "have_ring_entries r \<Longrightarrow> \<exists>r'. alloc_ring_entries c r = Some r' \<and> rp_session_vec r' = rp_session_vec r \<and>
     view r' = (view r)\<lparr>ev_total := ev_total (view r) - kSessionCredits\<rparr> \<and> kSessionCredits \<le> ev_total (view r)"
  by (auto simp: alloc_ring_entries_def have_ring_entries_def view_def num_active_sessions_st_def sz_sub_le)

lemma view_free:
  "free_ring_entries c r = Some r' \<Longrightarrow> rp_session_vec r' = rp_session_vec r \<and>
     view r' = (view r)\<lparr>ev_total := ev_total (view r) + kSessionCredits\<rparr>"
  by (auto simp: free_ring_entries_def bind_eq_Some_conv Let_def view_def num_active_sessions_st_def)

lemma view_push:
  "view (r\<lparr>rp_session_vec := rp_session_vec r @ [Some s]\<rparr>) =
     (view r)\<lparr>ev_vec := ev_vec (view r) @ [Some (sv s)], ev_total := ev_total (view r) + kSessionCredits\<rparr>"
  by (simp add: view_def num_active_sessions_st_def)

section \<open>What each operation does to the view\<close>

definition is_ep :: "'a rpc_cfg \<Rightarrow> session_endpoint \<Rightarrow> bool" where
  "is_ep c e \<longleftrightarrow> ep_hostname e = cf_hostname c \<and> ep_sm_udp_port e = cf_sm_udp_port c \<and> ep_rpc_id e = cf_rpc_id c"

definition view_new :: "'a rpc_cfg \<Rightarrow> sess_view \<Rightarrow> ep_view \<Rightarrow> bool" where
  "view_new c s v \<longleftrightarrow> v_client s \<and> v_tok s = cf_rand c (ev_rand v) \<and> v_state s = St_ConnectInProgress \<and> is_ep c (v_cep s) \<and>
     ep_session_num (v_cep s) = u16_of (length (ev_vec v)) \<and> v_local s = u16_of (length (ev_vec v)) \<and>
     ep_session_num (v_sep s) = kInvalidSessionNum \<and> v_ok s"

inductive view_api :: "'a rpc_cfg \<Rightarrow> ep_view \<Rightarrow> ep_view \<Rightarrow> bool" for c where
  same: "view_api c v v"
| new: "view_new c s v \<Longrightarrow> view_api c v (sent (sess_req s) (v\<lparr>ev_vec := ev_vec v @ [Some s], ev_rand := ev_rand v + 1\<rparr>))"
| disc: "n < length (ev_vec v) \<Longrightarrow> ev_vec v ! n = Some s \<Longrightarrow> v_client s \<Longrightarrow> v_state s = St_Connected \<Longrightarrow>
    s' = s\<lparr>v_state := St_DisconnectInProgress\<rparr> \<Longrightarrow> view_api c v (sent (sess_req s') (v\<lparr>ev_vec := (ev_vec v)[n := Some s']\<rparr>))"

definition view_accept :: "'a rpc_cfg \<Rightarrow> sm_pkt \<Rightarrow> sess_view \<Rightarrow> ep_view \<Rightarrow> bool" where
  "view_accept c p s v \<longleftrightarrow> \<not> v_client s \<and> v_tok s = sp_uniq_token p \<and> v_state s = St_Connected \<and>
     (\<exists>ri. v_cep s = (sp_client p)\<lparr>ep_routing_info := ri\<rparr>) \<and>
     v_sep s = (sp_server p)\<lparr>ep_session_num := v_local s, ep_routing_info := cf_local_rinfo c\<rparr> \<and>
     v_local s = u16_of (length (ev_vec v)) \<and> v_remote s = ep_session_num (sp_client p) \<and> v_ok s"

inductive view_item :: "'a rpc_cfg \<Rightarrow> sm_pkt \<Rightarrow> ep_view \<Rightarrow> ep_view \<Rightarrow> bool" for c p where
  ignore: "view_item c p v v"
| reject: "sp_pkt_type p = Sm_ConnectReq \<Longrightarrow> err \<noteq> Err_NoError \<Longrightarrow> view_item c p v (sent (resp_of p err) v)"
| again: "sp_pkt_type p = Sm_ConnectReq \<Longrightarrow> ev_tm v (sp_uniq_token p) = Some m \<Longrightarrow> m < length (ev_vec v) \<Longrightarrow> ev_vec v ! m = Some s \<Longrightarrow>
    view_item c p v (sent ((resp_of p Err_NoError)\<lparr>sp_server := v_sep s\<rparr>) v)"
| accept: "sp_pkt_type p = Sm_ConnectReq \<Longrightarrow> ev_tm v (sp_uniq_token p) = None \<Longrightarrow> view_accept c p s v \<Longrightarrow>
    view_item c p v (sent ((resp_of p Err_NoError)\<lparr>sp_server := v_sep s\<rparr>)
      (v\<lparr>ev_tm := (ev_tm v)(sp_uniq_token p \<mapsto> v_local s), ev_vec := ev_vec v @ [Some s]\<rparr>))"
| unresolved: "sp_pkt_type p = Sm_ConnectResp \<Longrightarrow> sp_err_type p = Err_NoError \<Longrightarrow> n = ep_session_num (sp_client p) \<Longrightarrow>
    n < length (ev_vec v) \<Longrightarrow> ev_vec v ! n = Some s \<Longrightarrow> v_state s = St_ConnectInProgress \<Longrightarrow>
    s' = s\<lparr>v_sep := sp_server p, v_state := St_DisconnectInProgress\<rparr> \<Longrightarrow>
    view_item c p v (sent (sess_req s') (v\<lparr>ev_vec := (ev_vec v)[n := Some s']\<rparr>))"
| connect: "sp_pkt_type p = Sm_ConnectResp \<Longrightarrow> sp_err_type p = Err_NoError \<Longrightarrow> n = ep_session_num (sp_client p) \<Longrightarrow>
    n < length (ev_vec v) \<Longrightarrow> ev_vec v ! n = Some s \<Longrightarrow> v_state s = St_ConnectInProgress \<Longrightarrow>
    s' = s\<lparr>v_sep := (sp_server p)\<lparr>ep_routing_info := ri\<rparr>, v_remote := ep_session_num (sp_server p), v_state := St_Connected\<rparr> \<Longrightarrow>
    (view_api c)\<^sup>*\<^sup>* (v\<lparr>ev_vec := (ev_vec v)[n := Some s']\<rparr>) v' \<Longrightarrow> view_item c p v v'"
| disconnected: "sp_pkt_type p = Sm_DisconnectReq \<Longrightarrow> n = ep_session_num (sp_server p) \<Longrightarrow>
    n < length (ev_vec v) \<Longrightarrow> ev_vec v ! n = None \<Longrightarrow> view_item c p v (sent (resp_of p Err_NoError) v)"
| disconnect: "sp_pkt_type p = Sm_DisconnectReq \<Longrightarrow> n = ep_session_num (sp_server p) \<Longrightarrow>
    n < length (ev_vec v) \<Longrightarrow> ev_vec v ! n = Some s \<Longrightarrow>
    view_item c p v ((sent (resp_of p Err_NoError) v)\<lparr>ev_vec := (ev_vec v)[n := None]\<rparr>)"
| close: "sp_pkt_type p \<in> {Sm_ConnectResp, Sm_DisconnectResp} \<Longrightarrow> n = ep_session_num (sp_client p) \<Longrightarrow>
    n < length (ev_vec v) \<Longrightarrow> ev_vec v ! n = Some s \<Longrightarrow> sp_pkt_type p = Sm_ConnectResp \<longrightarrow> v_state s = St_ConnectInProgress \<Longrightarrow>
    (view_api c)\<^sup>*\<^sup>* (v\<lparr>ev_total := ev_total v + kSessionCredits\<rparr>) v1 \<Longrightarrow> n < length (ev_vec v1) \<Longrightarrow>
    view_item c p v (v1\<lparr>ev_vec := (ev_vec v1)[n := None], ev_total := ev_total v1 - kSessionCredits\<rparr>)"

lemma new_session_spec:
  assumes "new_session c cl tok r = Some (s, r')"
  shows "session_ok s" "ss_is_client s = cl" "ss_uniq_token s = tok" "view r' = view r" "rp_session_vec r' = rp_session_vec r"
    "have_ring_entries r' = have_ring_entries r" "ep_session_num (ss_server s) = kInvalidSessionNum"
proof -
  define x where "x = (if cl then (let (t, r) = read_tsc c r in (t, snd (read_tsc c r))) else (0, r))"
  have x: "view (snd x) = view r" "rp_session_vec (snd x) = rp_session_vec r" "have_ring_entries (snd x) = have_ring_entries r"
    by (auto simp: x_def Let_def case_prod_beta have_ring_entries_def read_tsc_def view_def num_active_sessions_st_def)
  obtain f where f: "Session_new (cf_uninit c (length (rp_session_vec r))) cl tok (cf_freq_ghz c) (real (cf_bandwidth c)) (fst x) = Some s"
    "r' = (snd x)\<lparr>rp_sers := f\<rparr>"
    using assms by (auto simp: new_session_def x_def [symmetric] Let_def case_prod_beta bind_eq_Some_conv)
  obtain s0 t where "Session_new (cf_uninit c (length (rp_session_vec r))) cl tok (cf_freq_ghz c) (real (cf_bandwidth c)) (fst x) = Some s0"
    "session_ok s0" "ss_is_client s0 = cl" "ss_uniq_token s0 = tok" "ss_server s0 = SessionEndpoint_new t"
    by (rule Session_new_spec [of "cf_uninit c (length (rp_session_vec r))" cl tok "cf_freq_ghz c" "real (cf_bandwidth c)" "fst x"]) blast
  then show "session_ok s" "ss_is_client s = cl" "ss_uniq_token s = tok" "ep_session_num (ss_server s) = kInvalidSessionNum"
    using f(1) by (simp_all add: SessionEndpoint_new_def)
  show "view r' = view r" "rp_session_vec r' = rp_session_vec r" "have_ring_entries r' = have_ring_entries r"
    using x by (simp_all add: f(2) have_ring_entries_def)
qed

lemma slow_rand_view:
  "view (snd (slow_rand c r)) = (view r)\<lparr>ev_rand := ev_rand (view r) + 1\<rparr>"
  "have_ring_entries (snd (slow_rand c r)) = have_ring_entries r" "fst (slow_rand c r) = cf_rand c (ev_rand (view r))"
  by (simp_all add: slow_rand_def view_def num_active_sessions_st_def have_ring_entries_def)

lemma fill_client_session_spec:
  assumes "fill_client_session c h p i n s0 = Some s"
  shows "ss_is_client s = ss_is_client s0" "ss_uniq_token s = ss_uniq_token s0" "ss_state s = St_ConnectInProgress"
    "is_ep c (ss_client s)" "ep_session_num (ss_client s) = u16_of n" "ss_local_session_num s = u16_of n"
    "ep_session_num (ss_server s) = ep_session_num (ss_server s0)" "session_ok s = session_ok s0"
  using assms by (auto simp: fill_client_session_def strcpy_hostname_def bind_eq_Some_conv is_ep_def)

lemma add_client_session_view:
  assumes "add_client_session c h p i r = Some (k, r')" "have_ring_entries r"
  shows "view_api c (view r) (view r')"
proof -
  obtain s0 r1 s r2 where new: "new_session c True (fst (slow_rand c r)) (snd (slow_rand c r)) = Some (s0, r1)"
    "fill_client_session c h p i (length (rp_session_vec r1)) s0 = Some s" "alloc_ring_entries c r1 = Some r2"
    "send_sm_req_st c (length (rp_session_vec r1)) (r2\<lparr>rp_session_vec := rp_session_vec r2 @ [Some s]\<rparr>) = Some r'"
    using assms(1) by (auto simp: add_client_session_def Let_def case_prod_beta bind_eq_Some_conv)
  note n = new_session_spec [OF new(1)] and s = fill_client_session_spec [OF new(2)] and r0 = slow_rand_view [of c r]
  define r3 where "r3 = r2\<lparr>rp_session_vec := rp_session_vec r2 @ [Some s]\<rparr>"
  have r2: "rp_session_vec r2 = rp_session_vec r1" "view r2 = (view r1)\<lparr>ev_total := ev_total (view r1) - kSessionCredits\<rparr>"
    "kSessionCredits \<le> ev_total (view r1)"
    using view_alloc [of r1 c] n(6) new(3) r0(2) assms(2) by auto
  have len: "length (ev_vec (view r)) = length (rp_session_vec r1)"
    using arg_cong [OF n(4), of "\<lambda>v. length (ev_vec v)"] r0(1) by simp
  have "get_session r3 (length (rp_session_vec r1)) = Some s"
    using r2(1) by (simp add: r3_def get_session_view)
  then obtain r4 where "send_sm_req_st c (length (rp_session_vec r1)) r3 = Some r4" "view r4 = sent (sess_req (sv s)) (view r3)"
    by (rule send_sm_req_view)
  then have "view r' = sent (sess_req (sv s)) (view r3)"
    using new(4) by (simp add: r3_def)
  moreover have "view r3 = (view r)\<lparr>ev_vec := ev_vec (view r) @ [Some (sv s)], ev_rand := ev_rand (view r) + 1\<rparr>"
    using r2(2,3) n(4) r0(1) view_push [of r2 s] by (simp add: r3_def)
  moreover have "view_new c (sv s) (view r)"
    using n s len r0(3) by (simp add: view_new_def sv_def)
  ultimately show ?thesis
    using view_api.new [of c "sv s" "view r"] by simp
qed

lemma create_view: "create_session_st c etid uri rem_id r = Some (k, r') \<Longrightarrow> view_api c (view r) (view r')"
  using add_client_session_view
  by (fastforce simp: create_session_st_def bind_eq_Some_conv intro: view_api.same split: if_splits)

lemma destroy_view:
  assumes "destroy_session_st c etid n r = Some (k, r')"
  shows "view_api c (view r) (view r')"
proof -
  consider "r' = r" | (disc) s where "get_session r (nat n) = Some s" "ss_is_client s" "ss_state s = St_Connected"
    "send_sm_req_st c (nat n) (set_session (nat n) (s\<lparr>ss_state := St_DisconnectInProgress\<rparr>) r) = Some r'"
    using assms
    by (auto simp: destroy_session_st_def Let_def bind_eq_Some_conv get_session_view split: if_splits option.splits session_state.splits)
  then show ?thesis
  proof cases
    case disc
    let ?s = "s\<lparr>ss_state := St_DisconnectInProgress\<rparr>" and ?r = "set_session (nat n) (s\<lparr>ss_state := St_DisconnectInProgress\<rparr>) r"
    have n: "nat n < length (rp_session_vec r)" "rp_session_vec r ! nat n = Some s"
      using disc(1) by (simp_all add: get_session_view)
    have "get_session ?r (nat n) = Some ?s"
      using n by simp
    then have "view r' = sent (sess_req (sv ?s)) (view ?r)"
      using send_sm_req_view disc(4) by (metis option.inject)
    moreover have "view ?r = (view r)\<lparr>ev_vec := (ev_vec (view r))[nat n := Some (sv ?s)]\<rparr>"
      using disc(1) by (rule view_set_session)
    moreover have "sv ?s = (sv s)\<lparr>v_state := St_DisconnectInProgress\<rparr>"
      by (simp add: sv_def)
    ultimately show ?thesis
      using view_api.disc [of "nat n" "view r" "sv s" "sv ?s" c] n disc(2,3) by (simp add: sv_def)
  qed (simp add: view_api.same)
qed

lemma api_call_view: "api_call c r r' \<Longrightarrow> view_api c (view r) (view r')"
  by (erule api_call.cases) (auto intro: create_view destroy_view view_api.same)

lemma api_calls_view: "api_calls c r r' \<Longrightarrow> (view_api c)\<^sup>*\<^sup>* (view r) (view r')"
  by (induction rule: rtranclp_induct) (auto dest: api_call_view)

lemma connect_new_session_view:
  assumes "connect_new_session c p ri r = Some r'" "have_ring_entries r" "sp_pkt_type p = Sm_ConnectReq"
    "rp_conn_req_token_map r (sp_uniq_token p) = None"
  shows "view_item c p (view r) (view r')"
proof -
  obtain s0 r1 where new: "new_session c False (sp_uniq_token p) r = Some (s0, r1)"
    using assms(1) by (auto simp: connect_new_session_def bind_eq_Some_conv)
  note n = new_session_spec [OF new]
  define num where "num = u16_of (length (rp_session_vec r1))"
  define s where "s = s0\<lparr>ss_state := St_Connected,
    ss_server := (sp_server p)\<lparr>ep_session_num := num, ep_routing_info := cf_local_rinfo c\<rparr>,
    ss_client := (sp_client p)\<lparr>ep_routing_info := ri\<rparr>, ss_local_session_num := num, ss_remote_session_num := ep_session_num (sp_client p)\<rparr>"
  define r2 where "r2 = r1\<lparr>rp_conn_req_token_map := (rp_conn_req_token_map r1)(ss_uniq_token s \<mapsto> num)\<rparr>"
  obtain r3 where r3: "alloc_ring_entries c r2 = Some r3"
    "r' = sm_pkt_udp_tx_st ((resp_of p Err_NoError)\<lparr>sp_server := ss_server s\<rparr>) (r3\<lparr>rp_session_vec := rp_session_vec r3 @ [Some s]\<rparr>)"
    using assms(1,3) construct_resp [of p Err_NoError]
    by (auto simp: connect_new_session_def new bind_eq_Some_conv Let_def s_def num_def r2_def)
  have "have_ring_entries r2"
    using n(6) assms(2) by (simp add: r2_def have_ring_entries_def)
  then have v3: "view r3 = (view r2)\<lparr>ev_total := ev_total (view r2) - kSessionCredits\<rparr>" "kSessionCredits \<le> ev_total (view r2)"
    using view_alloc [of r2 c] r3(1) by auto
  have v2: "view r2 = (view r1)\<lparr>ev_tm := (ev_tm (view r1))(sp_uniq_token p \<mapsto> num)\<rparr>"
    using n(3) by (simp add: r2_def view_def num_active_sessions_st_def s_def)
  have "view r' = sent ((resp_of p Err_NoError)\<lparr>sp_server := ss_server s\<rparr>)
    ((view r)\<lparr>ev_tm := (ev_tm (view r))(sp_uniq_token p \<mapsto> num), ev_vec := ev_vec (view r) @ [Some (sv s)]\<rparr>)"
    using v3 v2 n(4) view_push [of r3 s] by (simp add: r3(2))
  moreover have "length (ev_vec (view r)) = length (rp_session_vec r1)"
    using n(5) by simp
  then have "view_accept c p (sv s) (view r)"
    using n(1-3) by (auto simp: view_accept_def sv_def s_def num_def)
  moreover have "v_local (sv s) = num" "v_sep (sv s) = ss_server s"
    by (simp_all add: sv_def s_def)
  moreover have "ev_tm (view r) (sp_uniq_token p) = None"
    using assms(4) by (simp add: view_def)
  ultimately show ?thesis
    using view_item.accept [OF assms(3), of "view r" c "sv s"] by simp
qed

lemma handle_connect_req_view:
  assumes "handle_connect_req_st c p r = Some r'" "sp_pkt_type p = Sm_ConnectReq"
  shows "view_item c p (view r) (view r')"
proof (cases "rp_conn_req_token_map r (sp_uniq_token p)")
  case None
  obtain x r1 where x: "resolve_rinfo c (ep_routing_info (sp_client p)) r = (x, r1)"
    by fastforce
  have r1: "view r1 = view r" "have_ring_entries r1 = have_ring_entries r" "rp_conn_req_token_map r1 = rp_conn_req_token_map r"
    using view_resolve [OF x] x by (auto simp: resolve_rinfo_def have_ring_entries_def split: if_splits)
  consider (rej) "view r' \<in> (\<lambda>err. sent (resp_of p err) (view r)) ` {Err_InvalidTransport, Err_RingExhausted, Err_RoutingResolutionFailure}"
    | (new) ri where "have_ring_entries r" "connect_new_session c p ri r1 = Some r'"
    using assms None r1(1)
    by (auto simp: handle_connect_req_st_def x send_resp_def construct_resp bind_eq_Some_conv split: if_splits option.splits)
  then show ?thesis
  proof cases
    case rej
    then show ?thesis
      by (auto intro!: view_item.reject [OF assms(2)])
  next
    case new
    then show ?thesis
      using connect_new_session_view [OF new(2)] r1 None assms(2) by simp
  qed
next
  case (Some m)
  consider "r' = r" | s where "m < length (rp_session_vec r)" "rp_session_vec r ! m = Some s"
    "view r' = sent ((resp_of p Err_NoError)\<lparr>sp_server := v_sep (sv s)\<rparr>) (view r)"
    using assms Some
    by (auto simp: handle_connect_req_st_def construct_resp bind_eq_Some_conv vec_at_def sv_def split: if_splits option.splits)
  then show ?thesis
    using view_item.again [OF assms(2), of "view r" m] Some by cases (auto simp: view_item.ignore view_def)
qed

lemma handle_disconnect_req_view:
  assumes "handle_disconnect_req_st c p r = Some r'" "sp_pkt_type p = Sm_DisconnectReq"
  shows "view_item c p (view r) (view r')"
proof -
  let ?n = "ep_session_num (sp_server p)"
  have n: "?n < length (rp_session_vec r)"
    using assms(1) by (auto simp: handle_disconnect_req_st_def vec_at_def Let_def bind_eq_Some_conv split: if_splits)
  show ?thesis
  proof (cases "rp_session_vec r ! ?n")
    case None
    then have "view r' = sent (resp_of p Err_NoError) (view r)"
      using assms n by (auto simp: handle_disconnect_req_st_def vec_at_def Let_def bind_eq_Some_conv send_resp_def construct_resp)
    then show ?thesis
      using view_item.disconnected [OF assms(2) refl, of "view r" c] n None by simp
  next
    case (Some s)
    then obtain r1 where r1: "free_ring_entries c r = Some r1" "bury_session_st ?n (sm_pkt_udp_tx_st (resp_of p Err_NoError) r1) = Some r'"
      using assms n by (auto simp: handle_disconnect_req_st_def vec_at_def Let_def bind_eq_Some_conv send_resp_def construct_resp)
    from r1(2) have "view r' = (sent (resp_of p Err_NoError) (view r))\<lparr>ev_vec := (ev_vec (view r))[?n := None]\<rparr>"
      by (rule bury_view) (simp add: view_free [OF r1(1)] sent_def)
    then show ?thesis
      using view_item.disconnect [OF assms(2) refl, of "view r" "sv s" c] n Some by simp
  qed
qed

context sm_callbacks
begin

lemma close_session_view:
  assumes "close_session c n s ev err r = Some r'" "n = ep_session_num (sp_client p)" "get_session r n = Some s1" "view r0 = view r"
    "sp_pkt_type p \<in> {Sm_ConnectResp, Sm_DisconnectResp}" "sp_pkt_type p = Sm_ConnectResp \<longrightarrow> ss_state s1 = St_ConnectInProgress"
  shows "view_item c p (view r0) (view r')"
proof -
  obtain r1 r2 where r1: "free_ring_entries c r = Some r1" "cf_sm_handler c (ss_local_session_num s) ev err r1 = Some r2"
    "bury_session_st n r2 = Some r'"
    using assms(1) by (auto simp: close_session_def bind_eq_Some_conv)
  have "(view_api c)\<^sup>*\<^sup>* ((view r)\<lparr>ev_total := ev_total (view r) + kSessionCredits\<rparr>) (view r2)"
    using api_calls_view [OF callback [OF r1(2)]] view_free [OF r1(1)] by simp
  moreover have "n < length (ev_vec (view r2))"
    "view r' = (view r2)\<lparr>ev_vec := (ev_vec (view r2))[n := None], ev_total := ev_total (view r2) - kSessionCredits\<rparr>"
    using r1(3) by (auto elim: bury_view)
  ultimately show ?thesis
    using view_item.close [OF assms(5,2), of "view r" "sv s1" c "view r2"] assms(3,4,6) by (simp add: get_session_view sv_def)
qed

lemma handle_disconnect_resp_view:
  assumes "handle_disconnect_resp_st c p r = Some r'" "sp_pkt_type p = Sm_DisconnectResp"
  shows "view_item c p (view r) (view r')"
proof -
  consider "r' = r" | s where "get_session r (ep_session_num (sp_client p)) = Some s"
    "close_session c (ep_session_num (sp_client p)) s Ev_Disconnected Err_NoError r = Some r'"
    using assms(1)
    by (auto simp: handle_disconnect_resp_st_def Let_def bind_eq_Some_conv vec_at_def get_session_view split: if_splits option.splits)
  then show ?thesis
    using close_session_view [OF _ refl _ refl] assms(2) by cases (simp_all add: view_item.ignore)
qed

lemma handle_connect_resp_view:
  assumes "handle_connect_resp_st c p r = Some r'" "sp_pkt_type p = Sm_ConnectResp"
  shows "view_item c p (view r) (view r')"
proof -
  let ?n = "ep_session_num (sp_client p)"
  obtain x r1 where x: "resolve_rinfo c (ep_routing_info (sp_server p)) r = (x, r1)"
    by fastforce
  note r1 = view_resolve [OF x]
  define r2 where "r2 = snd (read_tsc c r1)"
  have r2: "view r2 = view r" "rp_session_vec r2 = rp_session_vec r"
    using r1 by (simp_all add: r2_def)
  consider "view r' = view r"
    | (fail) s where "get_session r ?n = Some s" "ss_state s = St_ConnectInProgress"
      "close_session c ?n s Ev_ConnectFailed (sp_err_type p) r = Some r'"
    | (unres) s where "get_session r ?n = Some s" "ss_state s = St_ConnectInProgress" "sp_err_type p = Err_NoError"
      "send_sm_req_st c ?n (set_session ?n (s\<lparr>ss_server := sp_server p, ss_state := St_DisconnectInProgress\<rparr>) r1) = Some r'"
    | (conn) s ri t where "get_session r ?n = Some s" "ss_state s = St_ConnectInProgress" "sp_err_type p = Err_NoError"
      "cf_sm_handler c (ss_local_session_num s) Ev_Connected Err_NoError
        (set_session ?n (s\<lparr>ss_server := (sp_server p)\<lparr>ep_routing_info := ri\<rparr>, ss_remote_session_num := ep_session_num (sp_server p),
           ss_state := St_Connected, ss_prev_desired_tx_tsc := t\<rparr>) r2) = Some r'"
    using assms(1)
    by (auto simp: handle_connect_resp_st_def Let_def bind_eq_Some_conv vec_at_def get_session_view x r2_def case_prod_beta
        split: if_splits option.splits)
  then show ?thesis
  proof cases
    case fail
    then show ?thesis
      using close_session_view [OF fail(3) refl fail(1) refl] assms(2) by simp
  next
    case unres
    let ?s = "s\<lparr>ss_server := sp_server p, ss_state := St_DisconnectInProgress\<rparr>"
    have s: "get_session r1 ?n = Some s"
      using unres(1) r1 by (simp add: get_session_view)
    then have "get_session (set_session ?n ?s r1) ?n = Some ?s"
      by (simp add: get_session_view set_session_def)
    then have "view r' = sent (sess_req (sv ?s)) (view (set_session ?n ?s r1))"
      using unres(4) by (auto elim: send_sm_req_view [where c = c])
    then show ?thesis
      using view_item.unresolved [OF assms(2) unres(3) refl, of "view r" "sv s" "sv ?s" c] unres(1,2) view_set_session [OF s] r1
      by (simp add: get_session_view sv_def)
  next
    case conn
    let ?s = "s\<lparr>ss_server := (sp_server p)\<lparr>ep_routing_info := ri\<rparr>, ss_remote_session_num := ep_session_num (sp_server p),
       ss_state := St_Connected, ss_prev_desired_tx_tsc := t\<rparr>"
    have s: "get_session r2 ?n = Some s"
      using conn(1) r2 by (simp add: get_session_view)
    have "(view_api c)\<^sup>*\<^sup>* ((view r)\<lparr>ev_vec := (ev_vec (view r))[?n := Some (sv ?s)]\<rparr>) (view r')"
      using api_calls_view [OF callback [OF conn(4)]] view_set_session [OF s, of ?s] r2(1) by simp
    then show ?thesis
      using view_item.connect [OF assms(2) conn(3) refl, of "view r" "sv s" "sv ?s" ri c "view r'"] conn(1,2)
      by (simp add: get_session_view sv_def)
  qed (simp add: view_item.ignore)
qed

lemma handle_sm_item_view:
  assumes "handle_sm_item c (SmWork k p) r = Some r'"
  shows "view_item c p (view r) (view r')"
proof -
  define r1 where "r1 = (if sp_is_resp p then r\<lparr>rp_sm_pending_reqs := rp_sm_pending_reqs r - {ep_session_num (sp_client p)}\<rparr> else r)"
  have "view r1 = view r"
    by (simp add: r1_def)
  then show ?thesis
    using assms handle_connect_req_view [of c p r1 r'] handle_connect_resp_view [of p r1 r'] handle_disconnect_req_view [of c p r1 r']
      handle_disconnect_resp_view [of p r1 r']
    by (auto simp: handle_sm_item_def Let_def r1_def [symmetric] split: sm_pkt_type.splits)
qed

end

end
