(* ===== verification/Sm_System.thy ===== *)
theory Sm_System
  imports Rpc_Sm
begin

section \<open>Session management across endpoints\<close>

text \<open>
  The endpoints of a cluster, the session management thread of the Nexus of each process
  (src/src/nexus_impl/nexus_sm_thread.cc) and the network between them, as a step relation. UDP
  loses, duplicates and reorders: any packet that was ever sent may arrive, any number of times,
  in any order, or never. The invariant gives agreement: a connected client session has its own
  connected session at the server, which names it as its remote session.
\<close>

subsection \<open>The thread of the Nexus\<close>

datatype sm_action = Sm_Nothing | Sm_Push nat sm_work_item | Sm_Send string nat sm_pkt

text \<open>One turn of the thread: \<open>hooks\<close> gives the endpoint registered for an Rpc id of the process.\<close>

definition sm_thread_on_pkt :: "(nat \<Rightarrow> nat option) \<Rightarrow> sm_pkt \<Rightarrow> sm_action option" where
  "sm_thread_on_pkt hooks p =
    (if sp_pkt_type p = Sm_Unblock then Some Sm_Nothing
     else
       let target_rpc_id = (if sp_is_req p then ep_rpc_id (sp_server p) else ep_rpc_id (sp_client p))
       in case hooks target_rpc_id of
            Some i \<Rightarrow> Some (Sm_Push i (SmWork target_rpc_id p))
          | None \<Rightarrow>
              if sp_is_req p then do {
                resp \<leftarrow> sm_construct_resp p Err_InvalidRemoteRpcId;
                Some (Sm_Send (ep_hostname (sp_client resp)) (ep_sm_udp_port (sp_client resp)) resp)
              } else Some Sm_Nothing)"

subsection \<open>The cluster\<close>

record 'a sm_sys =
  sy_rpc :: "nat \<Rightarrow> 'a rpc"
  sy_nexus :: "(string \<times> nat \<times> sm_pkt) list"

definition hooks_at :: "nat \<Rightarrow> (nat \<Rightarrow> 'a rpc_cfg) \<Rightarrow> string \<Rightarrow> nat \<Rightarrow> nat \<Rightarrow> nat option" where
  "hooks_at N cfg h port rpc_id =
    find (\<lambda>i. cf_hostname (cfg i) = h \<and> cf_sm_udp_port (cfg i) = port \<and> cf_rpc_id (cfg i) = rpc_id) [0..<N]"

definition wire :: "nat \<Rightarrow> 'a sm_sys \<Rightarrow> (string \<times> nat \<times> sm_pkt) set" where
  "wire N S = (\<Union>i<N. set (rp_udp_sent (sy_rpc S i))) \<union> set (sy_nexus S)"

abbreviation upd_rpc :: "nat \<Rightarrow> 'a rpc \<Rightarrow> 'a sm_sys \<Rightarrow> 'a sm_sys" where
  "upd_rpc i r S \<equiv> S\<lparr>sy_rpc := (sy_rpc S)(i := r)\<rparr>"

inductive sm_step :: "nat \<Rightarrow> (nat \<Rightarrow> 'a rpc_cfg) \<Rightarrow> 'a sm_sys \<Rightarrow> 'a sm_sys \<Rightarrow> bool" for N cfg where
  api: "i < N \<Longrightarrow> api_call (cfg i) (sy_rpc S i) r \<Longrightarrow> sm_step N cfg S (upd_rpc i r S)"
| resend: "i < N \<Longrightarrow> get_session (sy_rpc S i) n = Some s \<Longrightarrow> ss_state s \<in> {St_ConnectInProgress, St_DisconnectInProgress} \<Longrightarrow>
    send_sm_req_st (cfg i) n (sy_rpc S i) = Some r \<Longrightarrow> sm_step N cfg S (upd_rpc i r S)"
| push: "(h, port, p) \<in> wire N S \<Longrightarrow> sm_thread_on_pkt (hooks_at N cfg h port) p = Some (Sm_Push i wi) \<Longrightarrow>
    sm_step N cfg S (upd_rpc i ((sy_rpc S i)\<lparr>rp_sm_rx_queue := unlocked_push wi (rp_sm_rx_queue (sy_rpc S i))\<rparr>) S)"
| reply: "(h, port, p) \<in> wire N S \<Longrightarrow> sm_thread_on_pkt (hooks_at N cfg h port) p = Some (Sm_Send h' port' q) \<Longrightarrow>
    sm_step N cfg S (S\<lparr>sy_nexus := sy_nexus S @ [(h', port', q)]\<rparr>)"
| handle: "i < N \<Longrightarrow> unlocked_pop (rp_sm_rx_queue (sy_rpc S i)) = Some (wi, q) \<Longrightarrow>
    handle_sm_item (cfg i) wi ((sy_rpc S i)\<lparr>rp_sm_rx_queue := q\<rparr>) = Some r \<Longrightarrow> sm_step N cfg S (upd_rpc i r S)"

definition sm_fresh :: "'a rpc \<Rightarrow> bool" where
  "sm_fresh r \<longleftrightarrow> rp_session_vec r = [] \<and> rp_ring_entries_available r = kNumRxRingEntries \<and> rp_conn_req_token_map r = Map.empty \<and>
     rp_udp_sent r = [] \<and> rp_sm_rx_queue r = MtQueue_new"

inductive sm_reach :: "nat \<Rightarrow> (nat \<Rightarrow> 'a rpc_cfg) \<Rightarrow> 'a sm_sys \<Rightarrow> bool" for N cfg where
  start: "(\<And>i. i < N \<Longrightarrow> sm_fresh (sy_rpc S i)) \<Longrightarrow> sy_nexus S = [] \<Longrightarrow> sm_reach N cfg S"
| step: "sm_reach N cfg S \<Longrightarrow> sm_step N cfg S S' \<Longrightarrow> sm_reach N cfg S'"

text \<open>The constructor of an Rpc makes a fresh endpoint.\<close>

lemma init_ctrl_msgbufs_fresh: "init_ctrl_msgbufs c lkey is r = Some r' \<Longrightarrow> sm_fresh r' = sm_fresh r"
  by (induction c lkey "is" r rule: init_ctrl_msgbufs.induct) (auto simp: Let_def bind_eq_Some_conv sm_fresh_def)

lemma Rpc_new_fresh: "Rpc_new c ok ex lkey garbage fast u = Some r \<Longrightarrow> sm_fresh r"
  by (auto simp: Rpc_new_def Let_def bind_eq_Some_conv read_tsc_def dest!: init_ctrl_msgbufs_fresh) (simp_all add: sm_fresh_def)

section \<open>The invariant\<close>

definition pkts :: "ep_view \<Rightarrow> sm_pkt set" where
  "pkts v = (\<lambda>(h, port, p). p) ` set (ev_sent v)"

definition served :: "nat \<Rightarrow> (nat \<Rightarrow> 'a rpc_cfg) \<Rightarrow> (nat \<Rightarrow> ep_view) \<Rightarrow> nat \<Rightarrow> session_endpoint \<Rightarrow> bool" where
  "served N cfg V t e \<longleftrightarrow> (\<exists>i<N. is_ep (cfg i) e \<and> ev_tm (V i) t = Some (ep_session_num e))"

definition con_req :: "ep_view \<Rightarrow> sm_pkt \<Rightarrow> bool" where
  "con_req v p \<longleftrightarrow> p \<in> pkts v \<and> sp_pkt_type p = Sm_ConnectReq"

definition dis_req :: "ep_view \<Rightarrow> sm_pkt \<Rightarrow> bool" where
  "dis_req v p \<longleftrightarrow> p \<in> pkts v \<and> sp_pkt_type p = Sm_DisconnectReq"

definition sess_at :: "ep_view \<Rightarrow> nat \<Rightarrow> sess_view \<Rightarrow> bool" where
  "sess_at v n s \<longleftrightarrow> n < length (ev_vec v) \<and> ev_vec v ! n = Some s"

text \<open>Connect requests name their sender and a number it has given to a session; token and number determine
  them.\<close>

definition con_req_inv :: "'a rpc_cfg \<Rightarrow> ep_view \<Rightarrow> bool" where
  "con_req_inv c v \<longleftrightarrow>
    (\<forall>p. con_req v p \<longrightarrow> is_ep c (sp_client p) \<and> ep_session_num (sp_client p) < length (ev_vec v) \<and>
       (\<exists>k < ev_rand v. sp_uniq_token p = cf_rand c k)) \<and>
    (\<forall>p q. con_req v p \<longrightarrow> con_req v q \<longrightarrow>
       sp_uniq_token p = sp_uniq_token q \<or> ep_session_num (sp_client p) = ep_session_num (sp_client q) \<longrightarrow>
       sp_uniq_token p = sp_uniq_token q \<and> sp_client p = sp_client q \<and> sp_server p = sp_server q)"

definition client_ok :: "nat \<Rightarrow> (nat \<Rightarrow> 'a rpc_cfg) \<Rightarrow> (nat \<Rightarrow> ep_view) \<Rightarrow> ep_view \<Rightarrow> nat \<Rightarrow> sess_view \<Rightarrow> bool" where
  "client_ok N cfg V v n s \<longleftrightarrow> v_state s \<noteq> St_ResetInProgress \<and>
     (\<exists>p. con_req v p \<and> sp_uniq_token p = v_tok s \<and> sp_client p = v_cep s \<and> ep_session_num (v_cep s) = n \<and>
       (v_state s = St_ConnectInProgress \<longrightarrow> v_sep s = sp_server p)) \<and>
     (v_state s \<noteq> St_ConnectInProgress \<longrightarrow> served N cfg V (v_tok s) (v_sep s)) \<and>
     (v_state s = St_Connected \<longrightarrow> v_remote s = ep_session_num (v_sep s))"

definition server_ok :: "'a rpc_cfg \<Rightarrow> sm_pkt \<Rightarrow> nat \<Rightarrow> sess_view \<Rightarrow> bool" where
  "server_ok c p m s \<longleftrightarrow> \<not> v_client s \<and> v_tok s = sp_uniq_token p \<and> v_state s = St_Connected \<and>
     v_remote s = ep_session_num (sp_client p) \<and> ep_session_num (v_sep s) = m \<and> is_ep c (v_sep s)"

definition token_ok :: "nat \<Rightarrow> (nat \<Rightarrow> ep_view) \<Rightarrow> 'a rpc_cfg \<Rightarrow> ep_view \<Rightarrow> nat \<Rightarrow> nat \<Rightarrow> bool" where
  "token_ok N V c v t m \<longleftrightarrow> m < length (ev_vec v) \<and>
     (\<exists>j<N. \<exists>p. con_req (V j) p \<and> sp_uniq_token p = t \<and> (\<forall>s. ev_vec v ! m = Some s \<longrightarrow> server_ok c p m s)) \<and>
     (ev_vec v ! m = None \<longrightarrow> (\<exists>j<N. \<exists>q. dis_req (V j) q \<and> sp_uniq_token q = t))"

definition pkt_ok :: "nat \<Rightarrow> (nat \<Rightarrow> 'a rpc_cfg) \<Rightarrow> (nat \<Rightarrow> ep_view) \<Rightarrow> sm_pkt \<Rightarrow> bool" where
  "pkt_ok N cfg V p \<longleftrightarrow>
     (sp_pkt_type p = Sm_ConnectResp \<longrightarrow>
       (\<exists>j<N. \<exists>q. con_req (V j) q \<and> sp_uniq_token q = sp_uniq_token p \<and> sp_client q = sp_client p) \<and>
       (sp_err_type p = Err_NoError \<longrightarrow> served N cfg V (sp_uniq_token p) (sp_server p))) \<and>
     (sp_pkt_type p = Sm_DisconnectResp \<longrightarrow>
       (\<exists>j<N. \<exists>q. dis_req (V j) q \<and> sp_uniq_token q = sp_uniq_token p \<and> sp_client q = sp_client p)) \<and>
     (sp_pkt_type p = Sm_DisconnectReq \<longrightarrow> served N cfg V (sp_uniq_token p) (sp_server p))"

definition dis_req_ok :: "ep_view \<Rightarrow> sm_pkt \<Rightarrow> bool" where
  "dis_req_ok v p \<longleftrightarrow> (\<exists>q. con_req v q \<and> sp_uniq_token q = sp_uniq_token p \<and> sp_client q = sp_client p) \<and>
     (\<forall>n s. sess_at v n s \<longrightarrow> v_client s \<longrightarrow> v_tok s = sp_uniq_token p \<longrightarrow> v_state s = St_DisconnectInProgress)"

definition ep_inv :: "nat \<Rightarrow> (nat \<Rightarrow> 'a rpc_cfg) \<Rightarrow> (nat \<Rightarrow> ep_view) \<Rightarrow> 'a rpc_cfg \<Rightarrow> ep_view \<Rightarrow> bool" where
  "ep_inv N cfg V c v \<longleftrightarrow> con_req_inv c v \<and>
     (\<forall>n s. sess_at v n s \<longrightarrow> (if v_client s then client_ok N cfg V v n s else ev_tm v (v_tok s) = Some n)) \<and>
     (\<forall>t m. ev_tm v t = Some m \<longrightarrow> token_ok N V c v t m) \<and>
     (\<forall>t t' m. ev_tm v t = Some m \<longrightarrow> ev_tm v t' = Some m \<longrightarrow> t = t') \<and>
     (\<forall>p \<in> pkts v. pkt_ok N cfg V p) \<and> (\<forall>p. dis_req v p \<longrightarrow> dis_req_ok v p) \<and>
     (\<forall>p s. con_req v p \<longrightarrow> sess_at v (ep_session_num (sp_client p)) s \<longrightarrow> v_client s)"

definition sm_inv :: "nat \<Rightarrow> (nat \<Rightarrow> 'a rpc_cfg) \<Rightarrow> (nat \<Rightarrow> ep_view) \<Rightarrow> bool" where
  "sm_inv N cfg V \<longleftrightarrow> (\<forall>i<N. ep_inv N cfg V (cfg i) (V i))"

text \<open>What an endpoint may assume of the others only grows.\<close>

definition grows :: "ep_view \<Rightarrow> ep_view \<Rightarrow> bool" where
  "grows v v' \<longleftrightarrow> pkts v \<subseteq> pkts v' \<and> ev_tm v \<subseteq>\<^sub>m ev_tm v'"

lemma grows_refl [simp]: "grows v v"
  by (simp add: grows_def)

lemma grows_req: "grows v v' \<Longrightarrow> con_req v p \<Longrightarrow> con_req v' p" "grows v v' \<Longrightarrow> dis_req v p \<Longrightarrow> dis_req v' p"
  by (auto simp: grows_def con_req_def dis_req_def)

lemma grows_tm: "grows v v' \<Longrightarrow> ev_tm v t = Some m \<Longrightarrow> ev_tm v' t = Some m"
  unfolding grows_def map_le_def by (metis domI)

lemma served_mono:
  assumes "served N cfg V t e" "\<And>i. i < N \<Longrightarrow> grows (V i) (V' i)"
  shows "served N cfg V' t e"
  using assms grows_tm unfolding served_def by metis

lemma client_ok_mono:
  "client_ok N cfg V v n s \<Longrightarrow> (\<And>i. i < N \<Longrightarrow> grows (V i) (V' i)) \<Longrightarrow> grows v v' \<Longrightarrow> client_ok N cfg V' v' n s"
  using served_mono [of N cfg V _ _ V'] grows_req(1) [of v v'] by (fastforce simp: client_ok_def)

lemma some_req_mono:
  assumes "\<And>i. i < N \<Longrightarrow> grows (V i) (V' i)"
  shows "\<exists>j<N. \<exists>q. con_req (V j) q \<and> P q \<Longrightarrow> \<exists>j<N. \<exists>q. con_req (V' j) q \<and> P q"
    "\<exists>j<N. \<exists>q. dis_req (V j) q \<and> P q \<Longrightarrow> \<exists>j<N. \<exists>q. dis_req (V' j) q \<and> P q"
  using assms grows_req by blast+

lemma pkt_ok_mono:
  assumes "pkt_ok N cfg V p" "\<And>i. i < N \<Longrightarrow> grows (V i) (V' i)"
  shows "pkt_ok N cfg V' p"
  using assms(1) served_mono [of N cfg V _ _ V'] assms(2)
    some_req_mono [of N V V' "\<lambda>q. sp_uniq_token q = sp_uniq_token p \<and> sp_client q = sp_client p", OF assms(2)]
  unfolding pkt_ok_def by simp

lemma token_ok_mono:
  assumes "token_ok N V c v t m" "\<And>i. i < N \<Longrightarrow> grows (V i) (V' i)"
  shows "token_ok N V' c v t m"
  using assms(1) some_req_mono(1) [of N V V' "\<lambda>p. sp_uniq_token p = t \<and> (\<forall>s. ev_vec v ! m = Some s \<longrightarrow> server_ok c p m s)", OF assms(2)]
    some_req_mono(2) [of N V V' "\<lambda>q. sp_uniq_token q = t", OF assms(2)]
  unfolding token_ok_def by simp

text \<open>So a step of one endpoint keeps the invariant of the others.\<close>

lemma ep_inv_mono:
  assumes "ep_inv N cfg V c v" "\<And>i. i < N \<Longrightarrow> grows (V i) (V' i)"
  shows "ep_inv N cfg V' c v"
  using assms client_ok_mono [of N cfg V v _ _ V' v] pkt_ok_mono [of N cfg V _ V'] token_ok_mono [of N V c v _ _ V']
  unfolding ep_inv_def by simp

lemma sm_inv_step:
  assumes "sm_inv N cfg V" "i < N" "grows (V i) v" "ep_inv N cfg (V(i := v)) (cfg i) v"
  shows "sm_inv N cfg (V(i := v))"
  unfolding sm_inv_def
proof (intro allI impI)
  fix j assume "j < N"
  then show "ep_inv N cfg (V(i := v)) (cfg j) ((V(i := v)) j)"
    using assms ep_inv_mono [of N cfg V "cfg j" "V j" "V(i := v)"] by (auto simp: sm_inv_def)
qed

subsection \<open>Preservation\<close>

lemma pkts_simps [simp]:
  "pkts (sent p v) = insert p (pkts v)" "pkts (v\<lparr>ev_vec := a\<rparr>) = pkts v" "pkts (v\<lparr>ev_tm := b\<rparr>) = pkts v"
  "pkts (v\<lparr>ev_rand := d\<rparr>) = pkts v" "pkts (v\<lparr>ev_total := d\<rparr>) = pkts v" "pkts (v\<lparr>ev_queue := e\<rparr>) = pkts v"
  by (auto simp: pkts_def sent_def addressed_def)

lemma sent_simps [simp]:
  "ev_vec (sent p v) = ev_vec v" "ev_tm (sent p v) = ev_tm v" "ev_rand (sent p v) = ev_rand v" "ev_queue (sent p v) = ev_queue v"
  "ev_total (sent p v) = ev_total v"
  by (simp_all add: sent_def)

lemma req_sent [simp]:
  "con_req (sent p v) q \<longleftrightarrow> con_req v q \<or> q = p \<and> sp_pkt_type p = Sm_ConnectReq"
  "dis_req (sent p v) q \<longleftrightarrow> dis_req v q \<or> q = p \<and> sp_pkt_type p = Sm_DisconnectReq"
  by (auto simp: con_req_def dis_req_def)

lemma req_cong: "pkts v = pkts v' \<Longrightarrow> con_req v = con_req v'" "pkts v = pkts v' \<Longrightarrow> dis_req v = dis_req v'"
  by (auto simp: con_req_def dis_req_def fun_eq_iff)

lemma req_upd [simp]:
  "con_req (v\<lparr>ev_vec := a\<rparr>) = con_req v" "con_req (v\<lparr>ev_tm := b\<rparr>) = con_req v" "con_req (v\<lparr>ev_rand := d\<rparr>) = con_req v"
  "con_req (v\<lparr>ev_total := d\<rparr>) = con_req v" "con_req (v\<lparr>ev_queue := e\<rparr>) = con_req v"
  "dis_req (v\<lparr>ev_vec := a\<rparr>) = dis_req v" "dis_req (v\<lparr>ev_tm := b\<rparr>) = dis_req v" "dis_req (v\<lparr>ev_rand := d\<rparr>) = dis_req v"
  "dis_req (v\<lparr>ev_total := d\<rparr>) = dis_req v" "dis_req (v\<lparr>ev_queue := e\<rparr>) = dis_req v"
  by (rule req_cong; simp)+

lemma sess_at_upd [simp]:
  "sess_at (sent p v) = sess_at v" "sess_at (v\<lparr>ev_rand := d\<rparr>) = sess_at v" "sess_at (v\<lparr>ev_total := d\<rparr>) = sess_at v"
  "sess_at (v\<lparr>ev_queue := e\<rparr>) = sess_at v"
  by (simp_all add: sess_at_def fun_eq_iff)

lemma ep_invD:
  assumes "ep_inv N cfg V c v"
  shows "con_req_inv c v" "\<And>n s. sess_at v n s \<Longrightarrow> v_client s \<Longrightarrow> client_ok N cfg V v n s"
    "\<And>n s. sess_at v n s \<Longrightarrow> \<not> v_client s \<Longrightarrow> ev_tm v (v_tok s) = Some n" "\<And>t m. ev_tm v t = Some m \<Longrightarrow> token_ok N V c v t m"
    "\<And>t t' m. ev_tm v t = Some m \<Longrightarrow> ev_tm v t' = Some m \<Longrightarrow> t = t'" "\<And>p. p \<in> pkts v \<Longrightarrow> pkt_ok N cfg V p"
    "\<And>p. dis_req v p \<Longrightarrow> dis_req_ok v p" "\<And>p s. con_req v p \<Longrightarrow> sess_at v (ep_session_num (sp_client p)) s \<Longrightarrow> v_client s"
  using assms by (auto simp: ep_inv_def split: if_splits)

lemma ep_invI:
  assumes "con_req_inv c v" "\<And>n s. sess_at v n s \<Longrightarrow> v_client s \<Longrightarrow> client_ok N cfg V v n s"
    "\<And>n s. sess_at v n s \<Longrightarrow> \<not> v_client s \<Longrightarrow> ev_tm v (v_tok s) = Some n" "\<And>t m. ev_tm v t = Some m \<Longrightarrow> token_ok N V c v t m"
    "\<And>t t' m. ev_tm v t = Some m \<Longrightarrow> ev_tm v t' = Some m \<Longrightarrow> t = t'" "\<And>p. p \<in> pkts v \<Longrightarrow> pkt_ok N cfg V p"
    "\<And>p. dis_req v p \<Longrightarrow> dis_req_ok v p" "\<And>p s. con_req v p \<Longrightarrow> sess_at v (ep_session_num (sp_client p)) s \<Longrightarrow> v_client s"
  shows "ep_inv N cfg V c v"
  using assms by (auto simp: ep_inv_def)

lemma con_req_inv_rep:
  assumes "con_req_inv c v" "length (ev_vec v) \<le> length (ev_vec v')" "ev_rand v' = ev_rand v"
    "\<And>p. con_req v' p \<Longrightarrow> \<exists>q. con_req v q \<and> sp_uniq_token q = sp_uniq_token p \<and> sp_client q = sp_client p \<and> sp_server q = sp_server p"
  shows "con_req_inv c v'"
  unfolding con_req_inv_def
proof (intro conjI allI impI)
  fix p assume "con_req v' p"
  then obtain q where q: "con_req v q" "sp_uniq_token q = sp_uniq_token p" "sp_client q = sp_client p"
    using assms(4) by blast
  then show "is_ep c (sp_client p)" "ep_session_num (sp_client p) < length (ev_vec v')" "\<exists>k<ev_rand v'. sp_uniq_token p = cf_rand c k"
    using assms(1-3) less_le_trans unfolding con_req_inv_def by metis+
next
  fix p p' assume "con_req v' p" "con_req v' p'"
    and same: "sp_uniq_token p = sp_uniq_token p' \<or> ep_session_num (sp_client p) = ep_session_num (sp_client p')"
  then obtain q q' where q: "con_req v q" "sp_uniq_token q = sp_uniq_token p" "sp_client q = sp_client p" "sp_server q = sp_server p"
    "con_req v q'" "sp_uniq_token q' = sp_uniq_token p'" "sp_client q' = sp_client p'" "sp_server q' = sp_server p'"
    using assms(4) by metis
  then show "sp_uniq_token p = sp_uniq_token p'" "sp_client p = sp_client p'" "sp_server p = sp_server p'"
    using assms(1) same unfolding con_req_inv_def by metis+
qed

lemma token_ok_sent: "token_ok N V c v t m \<Longrightarrow> token_ok N V c (sent p v) t m"
  by (simp add: token_ok_def)

lemma dis_req_ok_sent: "dis_req_ok v q \<Longrightarrow> dis_req_ok (sent p v) q"
  by (auto simp: dis_req_ok_def)

lemma send_inv:
  assumes inv: "sm_inv N cfg V" and i: "i < N" and p: "pkt_ok N cfg V p"
    and con: "sp_pkt_type p = Sm_ConnectReq \<Longrightarrow>
      \<exists>q. con_req (V i) q \<and> sp_uniq_token q = sp_uniq_token p \<and> sp_client q = sp_client p \<and> sp_server q = sp_server p"
    and dis: "sp_pkt_type p = Sm_DisconnectReq \<Longrightarrow> dis_req_ok (V i) p"
  shows "sm_inv N cfg (V(i := sent p (V i)))"
proof (rule sm_inv_step [OF inv i])
  show g: "grows (V i) (sent p (V i))"
    by (auto simp: grows_def)
  let ?V = "V(i := sent p (V i))"
  have gV: "\<And>j. j < N \<Longrightarrow> grows (V j) (?V j)"
    using g by simp
  have e: "ep_inv N cfg V (cfg i) (V i)"
    using inv i by (simp add: sm_inv_def)
  note e = ep_invD [OF e]
  show "ep_inv N cfg ?V (cfg i) (sent p (V i))"
  proof (rule ep_invI)
    show "con_req_inv (cfg i) (sent p (V i))"
      by (rule con_req_inv_rep [OF e(1)]) (use con in auto)
    show "v_client x" if "con_req (sent p (V i)) q" "sess_at (sent p (V i)) (ep_session_num (sp_client q)) x" for q x
      using that e(8) con by (metis req_sent(1) sess_at_upd(1))
    show "dis_req_ok (sent p (V i)) q" if "dis_req (sent p (V i)) q" for q
      using that e(7) dis dis_req_ok_sent [of "V i" q p] by auto
    show "token_ok N ?V (cfg i) (sent p (V i)) t m" if "ev_tm (sent p (V i)) t = Some m" for t m
      using that e(4) [of t m] token_ok_sent [OF token_ok_mono [of N V _ _ _ _ ?V, OF _ gV]] by simp
    show "client_ok N cfg ?V (sent p (V i)) n s" if "sess_at (sent p (V i)) n s" "v_client s" for n s
      using that e(2) client_ok_mono [of N cfg V _ _ _ ?V, OF _ gV g] by simp
    show "pkt_ok N cfg ?V q" if "q \<in> pkts (sent p (V i))" for q
      using that e(6) p pkt_ok_mono [of N cfg V _ ?V, OF _ gV] by auto
  qed (use e(3,5) in auto)
qed

lemma sess_at_update:
  "sess_at (v\<lparr>ev_vec := (ev_vec v)[n := x]\<rparr>) m s \<longleftrightarrow> (if m = n then n < length (ev_vec v) \<and> x = Some s else sess_at v m s)"
  by (auto simp: sess_at_def nth_list_update)

lemma sess_at_push: "sess_at (v\<lparr>ev_vec := ev_vec v @ [x]\<rparr>) m s \<longleftrightarrow> sess_at v m s \<or> m = length (ev_vec v) \<and> x = Some s"
  by (auto simp: sess_at_def nth_append less_Suc_eq)

lemma client_ok_cong: "pkts v' = pkts v \<Longrightarrow> client_ok N cfg V v' n s = client_ok N cfg V v n s"
  using req_cong [of v' v] by (simp add: client_ok_def)

lemma update_inv:
  assumes inv: "sm_inv N cfg V" and i: "i < N" and s: "sess_at (V i) n s" "v_client s"
    and s': "v_client s'" "v_tok s' = v_tok s" "v_cep s' = v_cep s" "v_state s' \<in> {St_Connected, St_DisconnectInProgress}"
      "served N cfg V (v_tok s) (v_sep s')" "v_state s' = St_Connected \<Longrightarrow> v_remote s' = ep_session_num (v_sep s')"
    and dis: "\<And>q. dis_req (V i) q \<Longrightarrow> sp_uniq_token q = v_tok s \<Longrightarrow> v_state s' = St_DisconnectInProgress"
  shows "sm_inv N cfg (V(i := (V i)\<lparr>ev_vec := (ev_vec (V i))[n := Some s']\<rparr>))"
proof (rule sm_inv_step [OF inv i])
  let ?v = "(V i)\<lparr>ev_vec := (ev_vec (V i))[n := Some s']\<rparr>"
  let ?V = "V(i := ?v)"
  show g: "grows (V i) ?v"
    by (simp add: grows_def)
  have gV: "\<And>j. j < N \<Longrightarrow> grows (V j) (?V j)"
    using g by simp
  have e: "ep_inv N cfg V (cfg i) (V i)"
    using inv i by (simp add: sm_inv_def)
  note e = ep_invD [OF e]
  have n: "n < length (ev_vec (V i))" "ev_vec (V i) ! n = Some s"
    using s(1) by (simp_all add: sess_at_def)
  show "ep_inv N cfg ?V (cfg i) ?v"
  proof (rule ep_invI)
    show "con_req_inv (cfg i) ?v"
      by (rule con_req_inv_rep [OF e(1)]) auto
    show "client_ok N cfg ?V ?v m x" if "sess_at ?v m x" "v_client x" for m x
    proof (cases "m = n")
      case True
      then have "client_ok N cfg V (V i) n x"
        using that e(2) [OF s] s' by (auto simp: sess_at_update client_ok_def)
      then show ?thesis
        using client_ok_mono [of N cfg V _ _ _ ?V, OF _ gV g] True by simp
    next
      case False
      then show ?thesis
        using that e(2) [of m x] client_ok_mono [of N cfg V _ _ _ ?V, OF _ gV g] by (simp add: sess_at_update)
    qed
    show "token_ok N ?V (cfg i) ?v t m" if "ev_tm ?v t = Some m" for t m
    proof -
      have t: "token_ok N V (cfg i) (V i) t m"
        using that e(4) by simp
      then have "m \<noteq> n"
        using n s(2) by (auto simp: token_ok_def server_ok_def)
      then have "token_ok N V (cfg i) ?v t m"
        using t by (simp add: token_ok_def)
      then show ?thesis
        using token_ok_mono [of N V _ _ _ _ ?V, OF _ gV] by simp
    qed
    show "dis_req_ok ?v q" if "dis_req ?v q" for q
      using that e(7) [of q] dis [of q] s'(2) by (auto simp: dis_req_ok_def sess_at_update)
    show "pkt_ok N cfg ?V q" if "q \<in> pkts ?v" for q
      using that e(6) pkt_ok_mono [of N cfg V _ ?V, OF _ gV] by auto
  qed (use e(3,5,8) s'(1) in \<open>auto simp: sess_at_update split: if_splits\<close>)
qed

lemma bury_inv:
  assumes inv: "sm_inv N cfg V" and i: "i < N" and n: "n < length (ev_vec (V i))"
    and s: "\<And>s. ev_vec (V i) ! n = Some s \<Longrightarrow> v_client s \<or> (\<exists>j<N. \<exists>q. dis_req (V j) q \<and> sp_uniq_token q = v_tok s)"
  shows "sm_inv N cfg (V(i := (V i)\<lparr>ev_vec := (ev_vec (V i))[n := None]\<rparr>))"
proof (rule sm_inv_step [OF inv i])
  let ?v = "(V i)\<lparr>ev_vec := (ev_vec (V i))[n := None]\<rparr>"
  let ?V = "V(i := ?v)"
  show g: "grows (V i) ?v"
    by (simp add: grows_def)
  have gV: "\<And>j. j < N \<Longrightarrow> grows (V j) (?V j)"
    using g by simp
  have e: "ep_inv N cfg V (cfg i) (V i)"
    using inv i by (simp add: sm_inv_def)
  note e = ep_invD [OF e]
  show "ep_inv N cfg ?V (cfg i) ?v"
  proof (rule ep_invI)
    show "con_req_inv (cfg i) ?v"
      by (rule con_req_inv_rep [OF e(1)]) auto
    show "client_ok N cfg ?V ?v m x" if "sess_at ?v m x" "v_client x" for m x
      using that e(2) [of m x] client_ok_mono [of N cfg V _ _ _ ?V, OF _ gV g] by (simp add: sess_at_update split: if_splits)
    show "token_ok N ?V (cfg i) ?v t m" if "ev_tm ?v t = Some m" for t m
    proof -
      have t: "token_ok N V (cfg i) (V i) t m"
        using that e(4) by simp
      have "token_ok N V (cfg i) ?v t m"
      proof (cases "m = n")
        case True
        then show ?thesis
        proof (cases "ev_vec (V i) ! n")
          case (Some x)
          then have "\<not> v_client x" "v_tok x = t"
            using t True by (auto simp: token_ok_def server_ok_def)
          then show ?thesis
            using t True s [OF Some] n by (auto simp: token_ok_def)
        qed (use t True in \<open>auto simp: token_ok_def\<close>)
      qed (use t in \<open>simp add: token_ok_def\<close>)
      then show ?thesis
        using token_ok_mono [of N V _ _ _ _ ?V, OF _ gV] by simp
    qed
    show "dis_req_ok ?v q" if "dis_req ?v q" for q
      using that e(7) [of q] by (auto simp: dis_req_ok_def sess_at_update split: if_splits)
    show "pkt_ok N cfg ?V q" if "q \<in> pkts ?v" for q
      using that e(6) pkt_ok_mono [of N cfg V _ ?V, OF _ gV] by auto
  qed (use e(3,5,8) in \<open>auto simp: sess_at_update split: if_splits\<close>)
qed

lemma pkt_ok_con_req: "sp_pkt_type p = Sm_ConnectReq \<Longrightarrow> pkt_ok N cfg V p"
  by (simp add: pkt_ok_def)

lemma token_ok_push:
  "token_ok N V c v t m \<Longrightarrow> ev_vec v' = ev_vec v @ [x] \<Longrightarrow> token_ok N V c v' t m"
  by (simp add: token_ok_def nth_append)

lemma con_req_inv_new:
  assumes inv: "con_req_inv c v" and new: "view_new c s v" "length (ev_vec v) < 65536" "inj (cf_rand c)"
  shows "con_req_inv c (sent (sess_req s) (v\<lparr>ev_vec := ev_vec v @ [Some s], ev_rand := ev_rand v + 1\<rparr>))"
proof -
  define p where "p = sess_req s"
  have p: "is_ep c (sp_client p)" "ep_session_num (sp_client p) = length (ev_vec v)" "sp_uniq_token p = cf_rand c (ev_rand v)"
    "sp_pkt_type p = Sm_ConnectReq"
    using new(1,2) by (simp_all add: p_def view_new_def sess_req_def u16_of_id)
  have old: "is_ep c (sp_client q)" "ep_session_num (sp_client q) < length (ev_vec v)" "\<exists>k<ev_rand v. sp_uniq_token q = cf_rand c k"
    "sp_uniq_token q \<noteq> sp_uniq_token p" if "con_req v q" for q
  proof -
    show q: "is_ep c (sp_client q)" "ep_session_num (sp_client q) < length (ev_vec v)" "\<exists>k<ev_rand v. sp_uniq_token q = cf_rand c k"
      using inv that unfolding con_req_inv_def by blast+
    then show "sp_uniq_token q \<noteq> sp_uniq_token p"
      using p(3) injD [OF new(3)] by (metis less_irrefl)
  qed
  have two: "sp_uniq_token q = sp_uniq_token q' \<and> sp_client q = sp_client q' \<and> sp_server q = sp_server q'"
    if "con_req v q" "con_req v q'" "sp_uniq_token q = sp_uniq_token q' \<or> ep_session_num (sp_client q) = ep_session_num (sp_client q')" for q q'
    using inv that unfolding con_req_inv_def by blast
  have A: "is_ep c (sp_client q) \<and> ep_session_num (sp_client q) < length (ev_vec v) + 1 \<and> (\<exists>k<ev_rand v + 1. sp_uniq_token q = cf_rand c k)"
    if "con_req v q \<or> q = p" for q
    using that p old [of q] less_SucI by fastforce
  have B: "sp_uniq_token q = sp_uniq_token q' \<and> sp_client q = sp_client q' \<and> sp_server q = sp_server q'"
    if "con_req v q \<or> q = p" "con_req v q' \<or> q' = p"
      "sp_uniq_token q = sp_uniq_token q' \<or> ep_session_num (sp_client q) = ep_session_num (sp_client q')" for q q'
    using that two [of q q'] old(2,4) [of q] old(2,4) [of q'] p(2) by (metis less_irrefl)
  define v' where "v' = sent p (v\<lparr>ev_vec := ev_vec v @ [Some s], ev_rand := ev_rand v + 1\<rparr>)"
  have v': "con_req v' q \<longleftrightarrow> con_req v q \<or> q = p" "length (ev_vec v') = length (ev_vec v) + 1" "ev_rand v' = ev_rand v + 1" for q
    using p(4) by (auto simp: v'_def)
  show ?thesis
    unfolding p_def [symmetric] v'_def [symmetric] con_req_inv_def v' using A B by blast
qed

lemma new_inv:
  assumes inv: "sm_inv N cfg V" and i: "i < N" and new: "view_new (cfg i) s (V i)" "length (ev_vec (V i)) < 65536" "inj (cf_rand (cfg i))"
  shows "sm_inv N cfg (V(i := sent (sess_req s) ((V i)\<lparr>ev_vec := ev_vec (V i) @ [Some s], ev_rand := ev_rand (V i) + 1\<rparr>)))"
proof (rule sm_inv_step [OF inv i])
  let ?v = "sent (sess_req s) ((V i)\<lparr>ev_vec := ev_vec (V i) @ [Some s], ev_rand := ev_rand (V i) + 1\<rparr>)"
  let ?V = "V(i := ?v)"
  show g: "grows (V i) ?v"
    by (auto simp: grows_def)
  have gV: "\<And>j. j < N \<Longrightarrow> grows (V j) (?V j)"
    using g by simp
  have e: "ep_inv N cfg V (cfg i) (V i)"
    using inv i by (simp add: sm_inv_def)
  note e = ep_invD [OF e]
  have s: "v_client s" "v_state s = St_ConnectInProgress" "v_tok s = cf_rand (cfg i) (ev_rand (V i))"
    "ep_session_num (v_cep s) = length (ev_vec (V i))"
    using new(1,2) by (simp_all add: view_new_def u16_of_id)
  have at: "sess_at ?v m x \<longleftrightarrow> sess_at (V i) m x \<or> m = length (ev_vec (V i)) \<and> x = s" for m x
    by (auto simp: sess_at_def nth_append less_Suc_eq)
  have p: "sp_pkt_type (sess_req s) = Sm_ConnectReq" "sp_uniq_token (sess_req s) = v_tok s" "sp_client (sess_req s) = v_cep s"
    "sp_server (sess_req s) = v_sep s"
    using s(2) by (simp_all add: sess_req_def)
  show "ep_inv N cfg ?V (cfg i) ?v"
  proof (rule ep_invI)
    show "con_req_inv (cfg i) ?v"
      using con_req_inv_new [OF e(1) new] .
    show "client_ok N cfg ?V ?v m x" if x: "sess_at ?v m x" "v_client x" for m x
    proof (cases "sess_at (V i) m x")
      case True
      then show ?thesis
        using e(2) [of m x] x client_ok_mono [of N cfg V _ _ _ ?V, OF _ gV g] by simp
    next
      case False
      then have "m = length (ev_vec (V i))" "x = s"
        using x(1) at by auto
      then show ?thesis
        using s p by (auto simp: client_ok_def)
    qed
    show "token_ok N ?V (cfg i) ?v t m" if "ev_tm ?v t = Some m" for t m
    proof -
      have "token_ok N ?V (cfg i) (V i) t m"
        using that e(4) [of t m] token_ok_mono [of N V _ _ _ _ ?V, OF _ gV] by simp
      then show ?thesis
        by (rule token_ok_push) simp
    qed
    show "dis_req_ok ?v q" if "dis_req ?v q" for q
    proof -
      have q: "dis_req_ok (V i) q"
        using that e(7) p(1) by auto
      then obtain q' where q': "con_req (V i) q'" "sp_uniq_token q' = sp_uniq_token q" "sp_client q' = sp_client q"
        by (auto simp: dis_req_ok_def)
      then obtain k where "k < ev_rand (V i)" "sp_uniq_token q = cf_rand (cfg i) k"
        using e(1) unfolding con_req_inv_def by metis
      then have "v_tok s \<noteq> sp_uniq_token q"
        using s(3) injD [OF new(3)] by (metis less_irrefl)
      then show ?thesis
        using q q' by (auto simp: dis_req_ok_def sess_at_push)
    qed
    show "pkt_ok N cfg ?V q" if "q \<in> pkts ?v" for q
      using that e(6) pkt_ok_mono [of N cfg V _ ?V, OF _ gV] pkt_ok_con_req [OF p(1)] by auto
    show "v_client x" if "con_req ?v q" "sess_at ?v (ep_session_num (sp_client q)) x" for q x
      using that e(8) [of q x] s(1,4) p(3) by (auto simp: sess_at_push) (simp add: sess_at_def)
  qed (use e(3,5) s(1) in \<open>auto simp: sess_at_push\<close>)
qed

lemma accept_inv:
  assumes inv: "sm_inv N cfg V" and i: "i < N" and new: "view_accept (cfg i) p s (V i)" "length (ev_vec (V i)) < 65536"
    and p: "j < N" "con_req (V j) p" "is_ep (cfg i) (sp_server p)" "ev_tm (V i) (sp_uniq_token p) = None"
  shows "sm_inv N cfg (V(i := (V i)\<lparr>ev_tm := (ev_tm (V i))(sp_uniq_token p \<mapsto> v_local s), ev_vec := ev_vec (V i) @ [Some s]\<rparr>))"
proof (rule sm_inv_step [OF inv i])
  let ?v = "(V i)\<lparr>ev_tm := (ev_tm (V i))(sp_uniq_token p \<mapsto> v_local s), ev_vec := ev_vec (V i) @ [Some s]\<rparr>"
  let ?V = "V(i := ?v)"
  show g: "grows (V i) ?v"
    using p(4) by (auto simp: grows_def map_le_def)
  have gV: "\<And>j. j < N \<Longrightarrow> grows (V j) (?V j)"
    using g by simp
  have e: "ep_inv N cfg V (cfg i) (V i)"
    using inv i by (simp add: sm_inv_def)
  note e = ep_invD [OF e]
  have s: "\<not> v_client s" "v_tok s = sp_uniq_token p" "v_local s = length (ev_vec (V i))" "server_ok (cfg i) p (length (ev_vec (V i))) s"
    using new p(3) by (auto simp: view_accept_def server_ok_def is_ep_def u16_of_id)
  have at: "sess_at ?v m x \<longleftrightarrow> sess_at (V i) m x \<or> m = length (ev_vec (V i)) \<and> x = s" for m x
    by (auto simp: sess_at_def nth_append less_Suc_eq)
  have old: "m < length (ev_vec (V i))" if "ev_tm (V i) t = Some m" for t m
    using e(4) [OF that] by (simp add: token_ok_def)
  show "ep_inv N cfg ?V (cfg i) ?v"
  proof (rule ep_invI)
    show "con_req_inv (cfg i) ?v"
      by (rule con_req_inv_rep [OF e(1)]) auto
    show "client_ok N cfg ?V ?v m x" if "sess_at ?v m x" "v_client x" for m x
      using that at e(2) [of m x] s(1) client_ok_mono [of N cfg V _ _ _ ?V, OF _ gV g] by auto
    show "token_ok N ?V (cfg i) ?v t m" if t: "ev_tm ?v t = Some m" for t m
    proof (cases "t = sp_uniq_token p")
      case True
      then have "token_ok N V (cfg i) ?v t m"
        using t p(1,2) s by (auto simp: token_ok_def intro!: exI [of _ j] exI [of _ p])
      then show ?thesis
        using token_ok_mono [of N V _ _ _ _ ?V, OF _ gV] by simp
    next
      case False
      then have "token_ok N ?V (cfg i) (V i) t m"
        using t e(4) [of t m] token_ok_mono [of N V _ _ _ _ ?V, OF _ gV] by simp
      then show ?thesis
        by (rule token_ok_push) simp
    qed
    show "ev_tm ?v (v_tok x) = Some m" if "sess_at ?v m x" "\<not> v_client x" for m x
      using that at e(3) [of m x] s(2,3) p(4) by auto
    show "t = t'" if "ev_tm ?v t = Some m" "ev_tm ?v t' = Some m" for t t' m
      using that e(5) [of t m t'] old [of t m] old [of t' m] s(3) by (auto split: if_splits)
    show "v_client x" if "con_req ?v q" "sess_at ?v (ep_session_num (sp_client q)) x" for q x
    proof -
      have "con_req (V i) q"
        using that(1) by simp
      moreover from this have "ep_session_num (sp_client q) < length (ev_vec (V i))"
        using e(1) unfolding con_req_inv_def by blast
      ultimately show ?thesis
        using that(2) e(8) [of q x] at by auto
    qed
    show "dis_req_ok ?v q" if "dis_req ?v q" for q
      using that e(7) [of q] s(1) by (auto simp: dis_req_ok_def at)
    show "pkt_ok N cfg ?V q" if "q \<in> pkts ?v" for q
      using that e(6) pkt_ok_mono [of N cfg V _ ?V, OF _ gV] by auto
  qed
qed

definition sm_setting :: "nat \<Rightarrow> (nat \<Rightarrow> 'a rpc_cfg) \<Rightarrow> bool" where
  "sm_setting N cfg \<longleftrightarrow>
     (\<forall>i<N. \<forall>j<N. \<forall>e. is_ep (cfg i) e \<longrightarrow> is_ep (cfg j) e \<longrightarrow> i = j) \<and>
     (\<forall>i<N. \<forall>j<N. \<forall>k l. cf_rand (cfg i) k = cf_rand (cfg j) l \<longrightarrow> i = j \<and> k = l) \<and> (\<forall>i<N. sm_callbacks (cfg i))"

lemma sm_invD: "sm_inv N cfg V \<Longrightarrow> i < N \<Longrightarrow> ep_inv N cfg V (cfg i) (V i)"
  by (simp add: sm_inv_def)

lemma con_req_owner:
  assumes "sm_inv N cfg V" "sm_setting N cfg" "con_req (V j) q" "is_ep (cfg i) (sp_client q)" "i < N" "j < N"
  shows "i = j"
proof -
  have "is_ep (cfg j) (sp_client q)"
    using ep_invD(1) [OF sm_invD [OF assms(1,6)]] assms(3) unfolding con_req_inv_def by blast
  then show ?thesis
    using assms by (auto simp: sm_setting_def)
qed

lemma client_req:
  assumes "client_ok N cfg V v n s"
  obtains p where "con_req v p" "sp_uniq_token p = v_tok s" "sp_client p = v_cep s" "ep_session_num (v_cep s) = n"
    "v_state s = St_ConnectInProgress \<Longrightarrow> v_sep s = sp_server p"
  using assms unfolding client_ok_def by blast

lemma own_session:
  assumes "sm_inv N cfg V" "i < N" "sess_at (V i) (ep_session_num (sp_client q)) s" "con_req (V i) q"
  shows "v_client s \<and> v_tok s = sp_uniq_token q \<and> v_cep s = sp_client q"
proof -
  note e = ep_invD [OF sm_invD [OF assms(1,2)]]
  have c: "v_client s"
    using e(8) assms by blast
  then obtain p where "con_req (V i) p" "sp_uniq_token p = v_tok s" "sp_client p = v_cep s"
    "ep_session_num (v_cep s) = ep_session_num (sp_client q)"
    using client_req [OF e(2) [OF assms(3) c]] by blast
  then show ?thesis
    using e(1) assms(4) c unfolding con_req_inv_def by metis
qed

lemma session_of_token:
  assumes "sm_inv N cfg V" "i < N" "sess_at (V i) n s" "sess_at (V i) n' s'" "v_client s" "v_client s'" "v_tok s = v_tok s'"
  shows "n = n'"
proof -
  note e = ep_invD [OF sm_invD [OF assms(1,2)]]
  obtain p where "con_req (V i) p" "sp_uniq_token p = v_tok s" "sp_client p = v_cep s" "ep_session_num (v_cep s) = n"
    using client_req [OF e(2) [OF assms(3,5)]] by blast
  moreover obtain p' where "con_req (V i) p'" "sp_uniq_token p' = v_tok s'" "sp_client p' = v_cep s'" "ep_session_num (v_cep s') = n'"
    using client_req [OF e(2) [OF assms(4,6)]] by blast
  ultimately show ?thesis
    using e(1) assms(7) unfolding con_req_inv_def by metis
qed

lemma disconnect_inv:
  assumes inv: "sm_inv N cfg V" and i: "i < N" and s: "sess_at (V i) n s" "v_client s"
    and s': "v_client s'" "v_tok s' = v_tok s" "v_cep s' = v_cep s" "v_state s' = St_DisconnectInProgress"
      "served N cfg V (v_tok s) (v_sep s')"
  shows "sm_inv N cfg (V(i := sent (sess_req s') ((V i)\<lparr>ev_vec := (ev_vec (V i))[n := Some s']\<rparr>)))"
proof -
  define v where "v = (V i)\<lparr>ev_vec := (ev_vec (V i))[n := Some s']\<rparr>"
  define V1 where "V1 = V(i := v)"
  have inv1: "sm_inv N cfg V1"
    unfolding V1_def v_def by (rule update_inv [OF inv i s s'(1-3)]) (use s' in simp_all)
  have gV: "\<And>j. j < N \<Longrightarrow> grows (V j) (V1 j)"
    by (simp add: V1_def v_def grows_def)
  have at: "sess_at (V1 i) n s'"
    using s(1) by (simp add: V1_def v_def sess_at_update) (simp add: sess_at_def)
  note e = ep_invD [OF sm_invD [OF inv1 i]]
  obtain q where q: "con_req (V1 i) q" "sp_uniq_token q = v_tok s'" "sp_client q = v_cep s'"
    using client_req [OF e(2) [OF at s'(1)]] by blast
  have p: "sp_pkt_type (sess_req s') = Sm_DisconnectReq" "sp_uniq_token (sess_req s') = v_tok s'" "sp_client (sess_req s') = v_cep s'"
    "sp_server (sess_req s') = v_sep s'"
    using s'(4) by (simp_all add: sess_req_def)
  have "served N cfg V1 (v_tok s') (v_sep s')"
    using served_mono [of N cfg V "v_tok s'" "v_sep s'" V1, OF _ gV] s'(2,5) by simp
  then have "pkt_ok N cfg V1 (sess_req s')"
    by (simp add: pkt_ok_def p)
  moreover have "dis_req_ok (V1 i) (sess_req s')"
    unfolding dis_req_ok_def p
  proof (intro conjI allI impI)
    show "\<exists>q. con_req (V1 i) q \<and> sp_uniq_token q = v_tok s' \<and> sp_client q = v_cep s'"
      using q by blast
    fix m x assume x: "sess_at (V1 i) m x" "v_client x" "v_tok x = v_tok s'"
    then have "m = n"
      using session_of_token [OF inv1 i x(1) at x(2) s'(1)] by simp
    then show "v_state x = St_DisconnectInProgress"
      using x(1) at s'(4) by (simp add: sess_at_def)
  qed
  ultimately have "sm_inv N cfg (V1(i := sent (sess_req s') (V1 i)))"
    using send_inv [OF inv1 i, of "sess_req s'"] p(1) by simp
  then show ?thesis
    by (simp add: V1_def v_def)
qed

lemma api_inv:
  assumes api: "view_api (cfg i) (V i) v" and inv: "sm_inv N cfg V" and i: "i < N" and set: "sm_setting N cfg"
    and len: "length (ev_vec v) \<le> 65536"
  shows "sm_inv N cfg (V(i := v))"
  using api
proof cases
  case same
  then show ?thesis
    using inv by (metis fun_upd_triv)
next
  case (new s)
  have "inj (cf_rand (cfg i))"
    using set i by (auto simp: sm_setting_def inj_def)
  then show ?thesis
    using new_inv [OF inv i] new len by simp
next
  case (disc n s s')
  have at: "sess_at (V i) n s"
    using disc by (simp add: sess_at_def)
  have "served N cfg V (v_tok s) (v_sep s)"
    using ep_invD(2) [OF sm_invD [OF inv i] at] disc by (simp add: client_ok_def)
  then show ?thesis
    using disconnect_inv [OF inv i at, of s'] disc by simp
qed

lemma api_len: "view_api c v v' \<Longrightarrow> length (ev_vec v) \<le> length (ev_vec v')"
  by (erule view_api.cases) simp_all

lemma api_calls_len: "(view_api c)\<^sup>*\<^sup>* v v' \<Longrightarrow> length (ev_vec v) \<le> length (ev_vec v')"
  by (induction rule: rtranclp_induct) (auto dest: api_len)

lemma api_calls_inv:
  assumes "(view_api (cfg i))\<^sup>*\<^sup>* v v'" "sm_inv N cfg (V(i := v))" "i < N" "sm_setting N cfg" "length (ev_vec v') \<le> 65536"
  shows "sm_inv N cfg (V(i := v'))"
  using assms
proof (induction rule: rtranclp_induct)
  case (step v1 v2)
  have "length (ev_vec v1) \<le> 65536"
    using api_len [OF step(2)] step.prems(4) by simp
  then have inv: "sm_inv N cfg (V(i := v1))"
    using step.IH step.prems by blast
  have "sm_inv N cfg ((V(i := v1))(i := v2))"
    by (rule api_inv [OF _ inv step.prems(2-4)]) (use step(2) in simp)
  then have "sm_inv N cfg (V(i := v2))"
    by simp
  then show ?case
    by (simp add: fun_upd_def)
qed simp

lemma api_grows: "view_api c v v' \<Longrightarrow> grows v v'"
  by (erule view_api.cases) (auto simp: grows_def)

lemma grows_trans: "grows a b \<Longrightarrow> grows b d \<Longrightarrow> grows a d"
  by (auto simp: grows_def intro: map_le_trans)

lemma api_calls_grows: "(view_api c)\<^sup>*\<^sup>* v v' \<Longrightarrow> grows v v'"
  by (induction rule: rtranclp_induct) (auto dest: api_grows intro: grows_trans)

lemma inv_total: "sm_inv N cfg (V(i := v\<lparr>ev_total := t\<rparr>)) = sm_inv N cfg (V(i := v))"
  and inv_queue: "sm_inv N cfg (V(i := v\<lparr>ev_queue := q\<rparr>)) = sm_inv N cfg (V(i := v))"
proof -
  have g: "grows (V' j) ((V'(i := v')) j)" if "V' i = v \<or> V' i = v\<lparr>ev_total := t\<rparr> \<or> V' i = v\<lparr>ev_queue := q\<rparr>"
      "v' = v \<or> v' = v\<lparr>ev_total := t\<rparr> \<or> v' = v\<lparr>ev_queue := q\<rparr>" for V' v' j
    using that by (auto simp: grows_def)
  have e: "ep_inv N cfg V' c (v\<lparr>ev_total := t\<rparr>) = ep_inv N cfg V' c v" "ep_inv N cfg V' c (v\<lparr>ev_queue := q\<rparr>) = ep_inv N cfg V' c v" for V' c
    by (simp_all add: ep_inv_def con_req_inv_def client_ok_def token_ok_def dis_req_ok_def)
  show "sm_inv N cfg (V(i := v\<lparr>ev_total := t\<rparr>)) = sm_inv N cfg (V(i := v))"
    using ep_inv_mono [of N cfg "V(i := v\<lparr>ev_total := t\<rparr>)" _ _ "V(i := v)"] ep_inv_mono [of N cfg "V(i := v)" _ _ "V(i := v\<lparr>ev_total := t\<rparr>)"]
    by (auto simp: sm_inv_def e grows_def)
  show "sm_inv N cfg (V(i := v\<lparr>ev_queue := q\<rparr>)) = sm_inv N cfg (V(i := v))"
    using ep_inv_mono [of N cfg "V(i := v\<lparr>ev_queue := q\<rparr>)" _ _ "V(i := v)"] ep_inv_mono [of N cfg "V(i := v)" _ _ "V(i := v\<lparr>ev_queue := q\<rparr>)"]
    by (auto simp: sm_inv_def e grows_def)
qed

lemma resp_owner:
  assumes "sm_inv N cfg V" "sm_setting N cfg" "i < N" "pkt_ok N cfg V p" "sp_pkt_type p \<in> {Sm_ConnectResp, Sm_DisconnectResp}"
    "is_ep (cfg i) (sp_client p)"
  obtains q where "con_req (V i) q" "sp_uniq_token q = sp_uniq_token p" "sp_client q = sp_client p"
proof -
  obtain j q where q: "j < N" "con_req (V j) q" "sp_uniq_token q = sp_uniq_token p" "sp_client q = sp_client p"
  proof (cases "sp_pkt_type p = Sm_ConnectResp")
    case True
    then show thesis
      using that assms(4) by (auto simp: pkt_ok_def)
  next
    case False
    then obtain j q where "j < N" "dis_req (V j) q" "sp_uniq_token q = sp_uniq_token p" "sp_client q = sp_client p"
      using assms(4,5) by (auto simp: pkt_ok_def)
    then show thesis
      using that ep_invD(7) [OF sm_invD [OF assms(1)], of j q] unfolding dis_req_ok_def by metis
  qed
  then have "i = j"
    using con_req_owner [OF assms(1,2) q(2)] assms(3,6) by simp
  then show thesis
    using that q by blast
qed

lemma served_here:
  assumes "sm_setting N cfg" "i < N" "served N cfg V t e" "is_ep (cfg i) e"
  shows "ev_tm (V i) t = Some (ep_session_num e)"
  using assms unfolding served_def sm_setting_def by metis

lemma resp_of_simps [simp]:
  "sp_uniq_token (resp_of p err) = sp_uniq_token p" "sp_client (resp_of p err) = sp_client p" "sp_err_type (resp_of p err) = err"
  "sp_server (resp_of p err) = sp_server p"
  "sp_pkt_type (resp_of p err) = (if sp_pkt_type p = Sm_ConnectReq then Sm_ConnectResp else Sm_DisconnectResp)"
  by (simp_all add: resp_of_def)

text \<open>A session that waits for its connect response and gets it without an error.\<close>

lemma connecting_session:
  assumes inv: "sm_inv N cfg V" and i: "i < N" and q: "con_req (V i) q" "sp_client q = sp_client p" "sp_uniq_token q = sp_uniq_token p"
    and s: "sess_at (V i) (ep_session_num (sp_client p)) s" "v_state s = St_ConnectInProgress"
  shows "v_client s" "v_tok s = sp_uniq_token p" "\<And>d. dis_req (V i) d \<Longrightarrow> sp_uniq_token d \<noteq> v_tok s"
proof -
  show c: "v_client s" "v_tok s = sp_uniq_token p"
    using own_session [OF inv i _ q(1), of s] s(1) q by auto
  fix d assume "dis_req (V i) d"
  then have "dis_req_ok (V i) d"
    using ep_invD(7) [OF sm_invD [OF inv i]] by blast
  then show "sp_uniq_token d \<noteq> v_tok s"
    using s c(1) unfolding dis_req_ok_def by (metis session_state.distinct(3))
qed

lemma connect_req_inv:
  assumes item: "view_item (cfg i) p (V i) v" and inv: "sm_inv N cfg V" and i: "i < N" and set: "sm_setting N cfg"
    and len: "length (ev_vec v) \<le> 65536" and con: "sp_pkt_type p = Sm_ConnectReq" "j < N" "con_req (V j) p" and to: "is_ep (cfg i) (sp_server p)"
  shows "sm_inv N cfg (V(i := v))"
  using item
proof cases
  case ignore
  then show ?thesis
    using inv by (metis fun_upd_triv)
next
  case (reject err)
  then have "pkt_ok N cfg V (resp_of p err)"
    using con by (auto simp: pkt_ok_def)
  then show ?thesis
    using send_inv [OF inv i, of "resp_of p err"] reject con(1) by simp
next
  case (again m s)
  have "token_ok N V (cfg i) (V i) (sp_uniq_token p) m"
    using ep_invD(4) [OF sm_invD [OF inv i] again(3)] .
  then have "is_ep (cfg i) (v_sep s)" "ep_session_num (v_sep s) = m"
    using again by (auto simp: token_ok_def server_ok_def)
  then have "served N cfg V (sp_uniq_token p) (v_sep s)"
    using again(3) i by (auto simp: served_def)
  then have "pkt_ok N cfg V ((resp_of p Err_NoError)\<lparr>sp_server := v_sep s\<rparr>)"
    using con by (auto simp: pkt_ok_def)
  then show ?thesis
    using send_inv [OF inv i, of "(resp_of p Err_NoError)\<lparr>sp_server := v_sep s\<rparr>"] again con(1) by simp
next
  case (accept s)
  define V1 where "V1 = V(i := (V i)\<lparr>ev_tm := (ev_tm (V i))(sp_uniq_token p \<mapsto> v_local s), ev_vec := ev_vec (V i) @ [Some s]\<rparr>)"
  have inv1: "sm_inv N cfg V1"
    unfolding V1_def by (rule accept_inv [OF inv i accept(4) _ con(2,3) to accept(3)]) (use len accept(1) in simp)
  have "is_ep (cfg i) (v_sep s)" "ep_session_num (v_sep s) = v_local s"
    using accept(4) to by (auto simp: view_accept_def is_ep_def)
  then have "served N cfg V1 (sp_uniq_token p) (v_sep s)"
    using i by (auto simp: served_def V1_def intro!: exI [of _ i])
  moreover have "con_req (V1 j) p"
    using con(3) by (cases "j = i") (simp_all add: V1_def)
  ultimately have "pkt_ok N cfg V1 ((resp_of p Err_NoError)\<lparr>sp_server := v_sep s\<rparr>)"
    using con(1,2) by (auto simp: pkt_ok_def)
  then have "sm_inv N cfg (V1(i := sent ((resp_of p Err_NoError)\<lparr>sp_server := v_sep s\<rparr>) (V1 i)))"
    using send_inv [OF inv1 i, of "(resp_of p Err_NoError)\<lparr>sp_server := v_sep s\<rparr>"] con(1) by simp
  then show ?thesis
    using accept(1) by (simp add: V1_def)
qed (use con(1) in simp_all)

lemma disconnect_req_inv:
  assumes item: "view_item (cfg i) p (V i) v" and inv: "sm_inv N cfg V" and i: "i < N" and set: "sm_setting N cfg"
    and dis: "sp_pkt_type p = Sm_DisconnectReq" "j < N" "dis_req (V j) p" and to: "is_ep (cfg i) (sp_server p)"
  shows "sm_inv N cfg (V(i := v))"
proof -
  have "pkt_ok N cfg V (resp_of p Err_NoError)"
    using dis by (auto simp: pkt_ok_def)
  then have inv1: "sm_inv N cfg (V(i := sent (resp_of p Err_NoError) (V i)))"
    using send_inv [OF inv i, of "resp_of p Err_NoError"] dis(1) by simp
  have "p \<in> pkts (V j)"
    using dis(3) by (simp add: dis_req_def)
  then have "served N cfg V (sp_uniq_token p) (sp_server p)"
    using ep_invD(6) [OF sm_invD [OF inv dis(2)], of p] dis(1) by (simp add: pkt_ok_def)
  then have tm: "ev_tm (V i) (sp_uniq_token p) = Some (ep_session_num (sp_server p))"
    using served_here set i to by blast
  from item show ?thesis
  proof cases
    case ignore
    then show ?thesis
      using inv by (metis fun_upd_triv)
  next
    case (disconnect n s)
    define V1 where "V1 = V(i := sent (resp_of p Err_NoError) (V i))"
    have "token_ok N V (cfg i) (V i) (sp_uniq_token p) n"
      using ep_invD(4) [OF sm_invD [OF inv i] tm] disconnect(3) by simp
    then have "v_tok s = sp_uniq_token p"
      using disconnect by (auto simp: token_ok_def server_ok_def)
    moreover have "dis_req (V1 j) p"
      using dis(3) by (cases "j = i") (simp_all add: V1_def)
    ultimately have "sm_inv N cfg (V1(i := (V1 i)\<lparr>ev_vec := (ev_vec (V1 i))[n := None]\<rparr>))"
      using bury_inv [OF inv1 [folded V1_def] i, of n] disconnect dis(2) by (auto simp: V1_def)
    then show ?thesis
      using disconnect(1) by (simp add: V1_def)
  qed (use dis(1) inv1 in simp_all)
qed

lemma response_inv:
  assumes item: "view_item (cfg i) p (V i) v" and inv: "sm_inv N cfg V" and i: "i < N" and set: "sm_setting N cfg"
    and len: "length (ev_vec v) \<le> 65536" and p: "pkt_ok N cfg V p" "sp_pkt_type p \<in> {Sm_ConnectResp, Sm_DisconnectResp}"
    and to: "is_ep (cfg i) (sp_client p)"
  shows "sm_inv N cfg (V(i := v))"
proof -
  obtain q where q: "con_req (V i) q" "sp_uniq_token q = sp_uniq_token p" "sp_client q = sp_client p"
    by (rule resp_owner [OF inv set i p to])
  from item show ?thesis
  proof cases
    case ignore
    then show ?thesis
      using inv by (metis fun_upd_triv)
  next
    case (unresolved n s s')
    have at: "sess_at (V i) n s"
      using unresolved by (simp add: sess_at_def)
    note s = connecting_session [OF inv i q(1,3,2) at [unfolded unresolved(4)] unresolved(7)]
    have "served N cfg V (v_tok s) (sp_server p)"
      using p(1) unresolved s(2) by (simp add: pkt_ok_def)
    then show ?thesis
      using disconnect_inv [OF inv i at s(1), of s'] unresolved s(1) by simp
  next
    case (connect n s s' ri)
    have at: "sess_at (V i) n s"
      using connect by (simp add: sess_at_def)
    note s = connecting_session [OF inv i q(1,3,2) at [unfolded connect(3)] connect(6)]
    have "served N cfg V (v_tok s) (v_sep s')"
      using p(1) connect s(2) by (auto simp: pkt_ok_def served_def is_ep_def)
    then have "sm_inv N cfg (V(i := (V i)\<lparr>ev_vec := (ev_vec (V i))[n := Some s']\<rparr>))"
      using update_inv [OF inv i at s(1), of s'] connect s(1,3) by auto
    then show ?thesis
      using api_calls_inv [of cfg i _ v N V] connect(8) i set len by blast
  next
    case (close n s v1)
    have "length (ev_vec v1) \<le> 65536"
      using len close(1) by simp
    moreover have "sm_inv N cfg (V(i := (V i)\<lparr>ev_total := ev_total (V i) + kSessionCredits\<rparr>))"
      using inv by (simp add: inv_total)
    ultimately have inv1: "sm_inv N cfg (V(i := v1))"
      using api_calls_inv [of cfg i _ v1 N V] close(7) i set by blast
    have "con_req v1 q"
      using grows_req(1) [OF api_calls_grows [OF close(7)]] q(1) by simp
    then have "sm_inv N cfg (V(i := v1\<lparr>ev_vec := (ev_vec v1)[n := None]\<rparr>))"
      using bury_inv [OF inv1 i, of n] ep_invD(8) [OF sm_invD [OF inv1 i], of q] close(3,8) q(3) by (simp add: sess_at_def)
    then show ?thesis
      using close(1) by (simp add: inv_total)
  qed (use p(2) in auto)
qed

section \<open>The invariant of the cluster\<close>

definition known :: "nat \<Rightarrow> (nat \<Rightarrow> 'a rpc_cfg) \<Rightarrow> (nat \<Rightarrow> ep_view) \<Rightarrow> sm_pkt \<Rightarrow> bool" where
  "known N cfg V p \<longleftrightarrow> pkt_ok N cfg V p \<and> (sp_pkt_type p = Sm_ConnectReq \<longrightarrow> (\<exists>j<N. con_req (V j) p)) \<and>
     (sp_pkt_type p = Sm_DisconnectReq \<longrightarrow> (\<exists>j<N. dis_req (V j) p)) \<and>
     sp_pkt_type p \<in> {Sm_ConnectReq, Sm_ConnectResp, Sm_DisconnectReq, Sm_DisconnectResp}"

definition item_ok :: "nat \<Rightarrow> (nat \<Rightarrow> 'a rpc_cfg) \<Rightarrow> (nat \<Rightarrow> ep_view) \<Rightarrow> 'a rpc_cfg \<Rightarrow> sm_work_item \<Rightarrow> bool" where
  "item_ok N cfg V c wi \<longleftrightarrow> (\<exists>k p. wi = SmWork k p \<and> known N cfg V p \<and> is_ep c (if sp_is_req p then sp_server p else sp_client p))"

definition log_ok :: "ep_view \<Rightarrow> bool" where
  "log_ok v \<longleftrightarrow> (\<forall>t \<in> set (ev_sent v). \<exists>p. t = addressed p \<and>
     sp_pkt_type p \<in> {Sm_ConnectReq, Sm_ConnectResp, Sm_DisconnectReq, Sm_DisconnectResp})"

definition sys_inv :: "nat \<Rightarrow> (nat \<Rightarrow> 'a rpc_cfg) \<Rightarrow> (nat \<Rightarrow> ep_view) \<Rightarrow> (string \<times> nat \<times> sm_pkt) list \<Rightarrow> bool" where
  "sys_inv N cfg V nx \<longleftrightarrow> sm_inv N cfg V \<and> (\<forall>i<N. log_ok (V i)) \<and> (\<forall>t \<in> set nx. \<exists>p. t = addressed p \<and> known N cfg V p) \<and>
     (\<forall>i<N. \<forall>wi \<in> set (mq_queue (ev_queue (V i))). item_ok N cfg V (cfg i) wi) \<and> (\<forall>i<N. ev_total (V i) = kNumRxRingEntries)"

lemma known_mono:
  assumes "known N cfg V p" "\<And>i. i < N \<Longrightarrow> grows (V i) (V' i)"
  shows "known N cfg V' p"
  using assms pkt_ok_mono [of N cfg V p V', OF _ assms(2)] grows_req unfolding known_def by blast

lemma item_ok_mono:
  "item_ok N cfg V c wi \<Longrightarrow> (\<And>i. i < N \<Longrightarrow> grows (V i) (V' i)) \<Longrightarrow> item_ok N cfg V' c wi"
  unfolding item_ok_def using known_mono by blast

lemma log_ok_sent: "sp_pkt_type p \<in> {Sm_ConnectReq, Sm_ConnectResp, Sm_DisconnectReq, Sm_DisconnectResp} \<Longrightarrow> log_ok v \<Longrightarrow> log_ok (sent p v)"
  by (auto simp: log_ok_def sent_def)

lemma log_ok_upd [simp]: "log_ok (v\<lparr>ev_vec := a\<rparr>) = log_ok v" "log_ok (v\<lparr>ev_tm := b\<rparr>) = log_ok v"
  "log_ok (v\<lparr>ev_rand := d\<rparr>) = log_ok v" "log_ok (v\<lparr>ev_total := d\<rparr>) = log_ok v" "log_ok (v\<lparr>ev_queue := e\<rparr>) = log_ok v"
  by (simp_all add: log_ok_def)

lemma sess_req_type: "sp_pkt_type (sess_req s) \<in> {Sm_ConnectReq, Sm_DisconnectReq}"
  by (simp add: sess_req_def)

lemma api_frame:
  assumes "view_api c v v'"
  shows "ev_total v' = ev_total v" "ev_queue v' = ev_queue v" "log_ok v \<Longrightarrow> log_ok v'"
  using assms sess_req_type by (auto elim!: view_api.cases intro!: log_ok_sent)

lemma api_calls_frame:
  assumes "(view_api c)\<^sup>*\<^sup>* v v'"
  shows "ev_total v' = ev_total v \<and> ev_queue v' = ev_queue v \<and> (log_ok v \<longrightarrow> log_ok v')"
  using assms by (induction rule: rtranclp_induct) (auto dest: api_frame)

lemma item_frame:
  assumes "view_item c p v v'"
  shows "ev_total v' = ev_total v" "ev_queue v' = ev_queue v" "log_ok v \<Longrightarrow> log_ok v'" "length (ev_vec v) \<le> length (ev_vec v')"
    "grows v v'"
proof -
  have "ev_total v' = ev_total v \<and> ev_queue v' = ev_queue v \<and> (log_ok v \<longrightarrow> log_ok v') \<and> length (ev_vec v) \<le> length (ev_vec v') \<and> grows v v'"
    using assms
  proof cases
    case (connect n s s' ri)
    show ?thesis
      using api_calls_frame [OF connect(8)] api_calls_len [OF connect(8)] grows_trans [OF _ api_calls_grows [OF connect(8)], of v]
      by (simp add: grows_def)
  next
    case (close n s v1)
    show ?thesis
      using api_calls_frame [OF close(7)] api_calls_len [OF close(7)] grows_trans [OF _ api_calls_grows [OF close(7)], of v]
      by (simp add: close(1) grows_def)
  next
    case (unresolved n s s')
    then show ?thesis
      using sess_req_type [of s'] by (auto simp: grows_def intro: log_ok_sent)
  qed (auto simp: grows_def map_le_def intro!: log_ok_sent)
  then show "ev_total v' = ev_total v" "ev_queue v' = ev_queue v" "log_ok v \<Longrightarrow> log_ok v'" "length (ev_vec v) \<le> length (ev_vec v')"
    "grows v v'"
    by simp_all
qed

lemma item_inv:
  assumes item: "view_item (cfg i) p (V i) v" and inv: "sm_inv N cfg V" and i: "i < N" and set: "sm_setting N cfg"
    and len: "length (ev_vec v) \<le> 65536" and k: "known N cfg V p" and to: "is_ep (cfg i) (if sp_is_req p then sp_server p else sp_client p)"
  shows "sm_inv N cfg (V(i := v))"
proof -
  consider "sp_pkt_type p = Sm_ConnectReq" | "sp_pkt_type p = Sm_DisconnectReq" | "sp_pkt_type p \<in> {Sm_ConnectResp, Sm_DisconnectResp}"
    using k by (auto simp: known_def)
  then show ?thesis
  proof cases
    case 1
    then show ?thesis
      using connect_req_inv [OF item inv i set len] k to by (auto simp: known_def sp_is_req_def)
  next
    case 2
    then show ?thesis
      using disconnect_req_inv [OF item inv i set] k to by (auto simp: known_def sp_is_req_def)
  next
    case 3
    then show ?thesis
      using response_inv [OF item inv i set len] k to by (auto simp: known_def sp_is_req_def)
  qed
qed

lemma sys_inv_step:
  assumes inv: "sys_inv N cfg V nx" and i: "i < N" and v: "sm_inv N cfg (V(i := v))" "grows (V i) v" "log_ok v"
    "ev_total v = kNumRxRingEntries" "\<And>wi. wi \<in> set (mq_queue (ev_queue v)) \<Longrightarrow> item_ok N cfg V (cfg i) wi"
  shows "sys_inv N cfg (V(i := v)) nx"
proof -
  let ?V = "V(i := v)"
  have gV: "\<And>j. j < N \<Longrightarrow> grows (V j) (?V j)"
    using v(2) by simp
  note k = known_mono [of N cfg V _ ?V, OF _ gV] and q = item_ok_mono [of N cfg V _ _ ?V, OF _ gV]
  show ?thesis
    unfolding sys_inv_def
  proof (intro conjI allI impI ballI)
    show "\<exists>p. t = addressed p \<and> known N cfg ?V p" if "t \<in> set nx" for t
      using that inv k unfolding sys_inv_def by blast
    show "item_ok N cfg ?V (cfg j) wi" if "j < N" "wi \<in> set (mq_queue (ev_queue (?V j)))" for j wi
      using that inv v(5) [of wi] q unfolding sys_inv_def by (cases "j = i") auto
  qed (use inv v in \<open>auto simp: sys_inv_def\<close>)
qed

lemma sys_invD:
  assumes "sys_inv N cfg V nx"
  shows "sm_inv N cfg V" "\<And>i. i < N \<Longrightarrow> log_ok (V i)" "\<And>t. t \<in> set nx \<Longrightarrow> \<exists>p. t = addressed p \<and> known N cfg V p"
    "\<And>i wi. i < N \<Longrightarrow> wi \<in> set (mq_queue (ev_queue (V i))) \<Longrightarrow> item_ok N cfg V (cfg i) wi"
    "\<And>i. i < N \<Longrightarrow> ev_total (V i) = kNumRxRingEntries"
  using assms unfolding sys_inv_def by blast+

lemma wire_known:
  assumes "sys_inv N cfg (\<lambda>i. view (sy_rpc S i)) (sy_nexus S)" "t \<in> wire N S"
  shows "\<exists>p. t = addressed p \<and> known N cfg (\<lambda>i. view (sy_rpc S i)) p"
proof -
  let ?V = "\<lambda>i. view (sy_rpc S i)"
  consider j where "j < N" "t \<in> set (ev_sent (?V j))" | "t \<in> set (sy_nexus S)"
    using assms(2) by (auto simp: wire_def view_def)
  then show ?thesis
  proof cases
    case 1
    then obtain p where p: "t = addressed p" "sp_pkt_type p \<in> {Sm_ConnectReq, Sm_ConnectResp, Sm_DisconnectReq, Sm_DisconnectResp}"
      using assms(1) unfolding sys_inv_def log_ok_def by blast
    then have "p \<in> pkts (?V j)"
      using 1 by (force simp: pkts_def addressed_def split: if_splits)
    then have "pkt_ok N cfg ?V p"
      using ep_invD(6) [OF sm_invD] assms(1) 1(1) unfolding sys_inv_def by blast
    then show ?thesis
      using p 1(1) \<open>p \<in> pkts (?V j)\<close> unfolding known_def con_req_def dis_req_def by blast
  next
    case 2
    then show ?thesis
      using assms(1) unfolding sys_inv_def by blast
  qed
qed

lemma hooks_at_Some: "hooks_at N cfg h port k = Some i \<Longrightarrow> i < N \<and> cf_hostname (cfg i) = h \<and> cf_sm_udp_port (cfg i) = port \<and> cf_rpc_id (cfg i) = k"
  by (auto simp: hooks_at_def find_Some_iff)

lemma view_queue [simp]: "view (r\<lparr>rp_sm_rx_queue := q\<rparr>) = (view r)\<lparr>ev_queue := q\<rparr>"
  by (simp add: view_def num_active_sessions_st_def)

lemma resend_inv:
  assumes inv: "sm_inv N cfg V" and i: "i < N" and s: "sess_at (V i) n s" "v_state s \<in> {St_ConnectInProgress, St_DisconnectInProgress}"
  shows "sm_inv N cfg (V(i := sent (sess_req s) (V i)))"
proof -
  note e = ep_invD [OF sm_invD [OF inv i]]
  have c: "v_client s"
  proof (rule ccontr)
    assume "\<not> v_client s"
    then have "token_ok N V (cfg i) (V i) (v_tok s) n"
      using e(3) [OF s(1)] e(4) by blast
    then show False
      using s by (auto simp: token_ok_def server_ok_def sess_at_def)
  qed
  show ?thesis
  proof (cases "v_state s = St_ConnectInProgress")
    case True
    then have p: "sp_pkt_type (sess_req s) = Sm_ConnectReq" "sp_uniq_token (sess_req s) = v_tok s" "sp_client (sess_req s) = v_cep s"
      "sp_server (sess_req s) = v_sep s"
      by (simp_all add: sess_req_def)
    obtain q where "con_req (V i) q" "sp_uniq_token q = v_tok s" "sp_client q = v_cep s" "v_sep s = sp_server q"
      using client_req [OF e(2) [OF s(1) c]] True by blast
    then show ?thesis
      using send_inv [OF inv i pkt_ok_con_req [OF p(1)]] p by auto
  next
    case False
    then have "served N cfg V (v_tok s) (v_sep s)"
      using e(2) [OF s(1) c] by (simp add: client_ok_def)
    moreover have "(V i)\<lparr>ev_vec := (ev_vec (V i))[n := Some s]\<rparr> = V i"
      using s(1) by (simp add: sess_at_def list_update_same_conv)
    ultimately show ?thesis
      using disconnect_inv [OF inv i s(1) c c] False s(2) by simp
  qed
qed

abbreviation views :: "'a sm_sys \<Rightarrow> nat \<Rightarrow> ep_view" where
  "views S \<equiv> \<lambda>i. view (sy_rpc S i)"

lemma views_upd: "views (upd_rpc i r S) = (views S)(i := view r)"
  by auto

lemma handle_view:
  assumes "sm_setting N cfg" "i < N" "handle_sm_item (cfg i) wi (r\<lparr>rp_sm_rx_queue := q\<rparr>) = Some r'"
  obtains k p where "wi = SmWork k p" "view_item (cfg i) p ((view r)\<lparr>ev_queue := q\<rparr>) (view r')"
proof -
  obtain k p where "wi = SmWork k p"
    using assms(3) by (cases wi) (simp_all add: handle_sm_item_def)
  moreover have "sm_callbacks (cfg i)"
    using assms(1,2) by (simp add: sm_setting_def)
  ultimately show thesis
    using that sm_callbacks.handle_sm_item_view [of "cfg i" k p "r\<lparr>rp_sm_rx_queue := q\<rparr>" r'] assms(3) by simp
qed

lemma sm_step_len:
  assumes "sm_step N cfg S S'" "sm_setting N cfg"
  shows "length (ev_vec (views S j)) \<le> length (ev_vec (views S' j))"
  using assms(1)
proof cases
  case (api i r)
  then show ?thesis
    using api_len [OF api_call_view [OF api(3)]] by simp
next
  case (resend i n s r)
  obtain r' where "send_sm_req_st (cfg i) n (sy_rpc S i) = Some r'" "view r' = sent (sess_req (sv s)) (views S i)"
    by (rule send_sm_req_view [OF resend(3), of "cfg i"])
  then have "length (ev_vec (view r)) = length (ev_vec (views S i))"
    using resend(5) by (metis option.inject sent_simps(1))
  then show ?thesis
    using resend(1) by simp
next
  case (handle i wi q r)
  obtain k p where "view_item (cfg i) p ((views S i)\<lparr>ev_queue := q\<rparr>) (view r)"
    by (rule handle_view [OF assms(2) handle(2,4)])
  then show ?thesis
    using item_frame(4) handle(1) by fastforce
qed simp_all

lemma known_resp:
  assumes "known N cfg V p" "sp_pkt_type p \<in> {Sm_ConnectReq, Sm_DisconnectReq}" "err \<noteq> Err_NoError"
  shows "known N cfg V (resp_of p err)"
  using assms by (auto simp: known_def pkt_ok_def)

lemma sm_push_inv:
  assumes inv: "sys_inv N cfg (views S) (sy_nexus S)" and w: "(h, port, p) \<in> wire N S"
    "sm_thread_on_pkt (hooks_at N cfg h port) p = Some (Sm_Push i wi)"
  shows "i < N" "item_ok N cfg (views S) (cfg i) wi"
proof -
  obtain p' where p': "(h, port, p) = addressed p'" "known N cfg (views S) p'"
    using wire_known [OF inv w(1)] by blast
  then have p: "p' = p"
    by (simp add: addressed_def split: if_splits)
  let ?id = "if sp_is_req p then ep_rpc_id (sp_server p) else ep_rpc_id (sp_client p)"
  have "hooks_at N cfg h port ?id = Some i" "wi = SmWork ?id p"
    using w(2) by (auto simp: sm_thread_on_pkt_def Let_def bind_eq_Some_conv split: if_splits option.splits)
  then show "i < N" "item_ok N cfg (views S) (cfg i) wi"
    using hooks_at_Some [of N cfg h port ?id i] p' p by (auto simp: item_ok_def is_ep_def addressed_def split: if_splits)
qed

lemma reply_known:
  assumes inv: "sys_inv N cfg (views S) (sy_nexus S)" and w: "(h, port, p) \<in> wire N S"
    "sm_thread_on_pkt (hooks_at N cfg h port) p = Some (Sm_Send h' port' q)"
  shows "(h', port', q) = addressed q \<and> known N cfg (views S) q"
proof -
  obtain p' where p': "(h, port, p) = addressed p'" "known N cfg (views S) p'"
    using wire_known [OF inv w(1)] by blast
  then have p: "known N cfg (views S) p"
    by (simp add: addressed_def split: if_splits)
  have q: "sp_is_req p" "sm_construct_resp p Err_InvalidRemoteRpcId = Some q" "h' = ep_hostname (sp_client q)" "port' = ep_sm_udp_port (sp_client q)"
    using w(2) by (auto simp: sm_thread_on_pkt_def Let_def bind_eq_Some_conv split: if_splits option.splits)
  then have t: "sp_pkt_type p \<in> {Sm_ConnectReq, Sm_DisconnectReq}"
    using p by (auto simp: known_def sp_is_req_def)
  then have "q = resp_of p Err_InvalidRemoteRpcId"
    using q(2) construct_resp by simp
  then show ?thesis
    using known_resp [OF p t] q t by (auto simp: addressed_def sp_is_req_def)
qed

lemma sm_step_inv:
  assumes "sm_step N cfg S S'" and set: "sm_setting N cfg" and inv: "sys_inv N cfg (views S) (sy_nexus S)"
    and len: "\<And>i. i < N \<Longrightarrow> length (ev_vec (views S' i)) \<le> 65536"
  shows "sys_inv N cfg (views S') (sy_nexus S')"
proof -
  note d = sys_invD [OF inv]
  from assms(1) show ?thesis
  proof cases
    case (api i r)
    note v = api_call_view [OF api(3)]
    have "length (ev_vec (view r)) \<le> 65536"
      using len [OF api(2)] api(1) by simp
    then have "sm_inv N cfg ((views S)(i := view r))"
      using api_inv [of cfg i "views S" "view r" N, OF v _ api(2) set] d(1) by simp
    then have "sys_inv N cfg ((views S)(i := view r)) (sy_nexus S)"
      by (rule sys_inv_step [OF inv api(2)]) (use api_grows [OF v] api_frame [OF v] d(2,4,5) [OF api(2)] in simp_all)
    then show ?thesis
      unfolding api(1) views_upd by simp
  next
    case (resend i n s r)
    obtain r' where "send_sm_req_st (cfg i) n (sy_rpc S i) = Some r'" "view r' = sent (sess_req (sv s)) (views S i)"
      by (rule send_sm_req_view [OF resend(3), of "cfg i"])
    then have v: "view r = sent (sess_req (sv s)) (views S i)"
      using resend(5) by simp
    have "sess_at (views S i) n (sv s)" "v_state (sv s) = ss_state s"
      using resend(3) by (simp_all add: sess_at_def get_session_view sv_def)
    then have "sm_inv N cfg ((views S)(i := view r))"
      using resend_inv [OF d(1) resend(2), of n "sv s"] resend(4) v by simp
    moreover have "grows (views S i) (view r)" "log_ok (view r)"
      using d(2) [OF resend(2)] sess_req_type [of "sv s"] unfolding v by (auto simp: grows_def intro: log_ok_sent)
    ultimately have "sys_inv N cfg ((views S)(i := view r)) (sy_nexus S)"
      by (rule sys_inv_step [OF inv resend(2)]) (use d(4,5) [OF resend(2)] v in simp_all)
    then show ?thesis
      unfolding resend(1) views_upd by simp
  next
    case (push h port p i wi)
    note w = sm_push_inv [OF inv push(2,3)]
    let ?v = "(views S i)\<lparr>ev_queue := unlocked_push wi (rp_sm_rx_queue (sy_rpc S i))\<rparr>"
    have "sm_inv N cfg ((views S)(i := ?v))"
      using d(1) by (simp add: inv_queue fun_upd_idem)
    moreover have "set (mq_queue (ev_queue ?v)) = insert wi (set (mq_queue (ev_queue (views S i))))"
      by (simp add: view_def unlocked_push_def)
    ultimately have "sys_inv N cfg ((views S)(i := ?v)) (sy_nexus S)"
      by (intro sys_inv_step [OF inv w(1)]) (use d(2,4,5) [OF w(1)] w(2) in \<open>auto simp: grows_def\<close>)
    then show ?thesis
      unfolding push(1) views_upd by simp
  next
    case (reply h port p h' port' q)
    have "(h', port', q) = addressed q \<and> known N cfg (views S) q"
      by (rule reply_known [OF inv reply(2,3)])
    then show ?thesis
      using inv reply(1) by (auto simp: sys_inv_def)
  next
    case (handle i wi q r)
    obtain k p where p: "wi = SmWork k p" "view_item (cfg i) p ((views S i)\<lparr>ev_queue := q\<rparr>) (view r)"
      by (rule handle_view [OF set handle(2,4)])
    note f = item_frame [OF p(2)]
    have qs: "mq_queue (ev_queue (views S i)) = wi # mq_queue q"
      using handle(3) by (auto simp: unlocked_pop_def view_def)
    then have "item_ok N cfg (views S) (cfg i) wi"
      using d(4) [OF handle(2)] by simp
    then have k: "known N cfg (views S) p" "is_ep (cfg i) (if sp_is_req p then sp_server p else sp_client p)"
      using p(1) by (auto simp: item_ok_def)
    let ?V = "(views S)(i := (views S i)\<lparr>ev_queue := q\<rparr>)"
    have "sm_inv N cfg ?V"
      using d(1) by (simp add: inv_queue fun_upd_idem)
    moreover have "known N cfg ?V p"
      by (rule known_mono [OF k(1)]) (simp add: grows_def)
    moreover have "length (ev_vec (view r)) \<le> 65536"
      using len [OF handle(2)] handle(1) by simp
    ultimately have "sm_inv N cfg (?V(i := view r))"
      using item_inv [of cfg i p ?V "view r" N] p(2) handle(2) set k(2) by simp
    then have "sm_inv N cfg ((views S)(i := view r))"
      by simp
    moreover have "grows (views S i) (view r)"
      by (rule grows_trans [OF _ f(5)]) (simp add: grows_def)
    ultimately have "sys_inv N cfg ((views S)(i := view r)) (sy_nexus S)"
      by (rule sys_inv_step [OF inv handle(2)]) (use f d(2,4,5) [OF handle(2)] qs in simp_all)
    then show ?thesis
      unfolding handle(1) views_upd by simp
  qed
qed

lemma fresh_view: "sm_fresh r \<Longrightarrow> ev_vec (view r) = [] \<and> ev_tm (view r) = Map.empty \<and> ev_sent (view r) = [] \<and>
    ev_queue (view r) = MtQueue_new \<and> ev_total (view r) = kNumRxRingEntries"
  by (simp add: sm_fresh_def view_def num_active_sessions_st_def)

lemma sm_reach_inv:
  assumes "sm_reach N cfg S" "sm_setting N cfg" "\<And>i. i < N \<Longrightarrow> length (ev_vec (views S i)) \<le> 65536"
  shows "sys_inv N cfg (views S) (sy_nexus S)"
  using assms
proof (induction rule: sm_reach.induct)
  case (start S)
  then have f: "ev_vec (views S i) = []" "ev_tm (views S i) = Map.empty" "ev_sent (views S i) = []"
    "ev_queue (views S i) = MtQueue_new" "ev_total (views S i) = kNumRxRingEntries" if "i < N" for i
    using that fresh_view by blast+
  have "ep_inv N cfg (views S) (cfg i) (views S i)" if "i < N" for i
    using f [OF that] by (simp add: ep_inv_def con_req_inv_def con_req_def dis_req_def pkts_def sess_at_def)
  then show ?case
    using f start(2) by (simp add: sys_inv_def sm_inv_def log_ok_def MtQueue_new_def)
next
  case (step S S')
  have "length (ev_vec (views S i)) \<le> 65536" if "i < N" for i
    using sm_step_len [OF step(2) step.prems(1)] step.prems(2) that le_trans by blast
  then have "sys_inv N cfg (views S) (sy_nexus S)"
    using step.IH step.prems(1) by blast
  then show ?case
    using sm_step_inv [OF step(2) step.prems(1)] step.prems(2) by blast
qed

section \<open>Well-formed endpoints\<close>

definition view_wf :: "ep_view \<Rightarrow> bool" where
  "view_wf v \<longleftrightarrow> (\<forall>n s. sess_at v n s \<longrightarrow> v_ok s \<and> v_local s = n)"

lemma view_wf_upd [simp]: "view_wf (sent p v) = view_wf v" "view_wf (v\<lparr>ev_total := d\<rparr>) = view_wf v" "view_wf (v\<lparr>ev_queue := q\<rparr>) = view_wf v"
  "view_wf (v\<lparr>ev_rand := d\<rparr>) = view_wf v"
  by (simp_all add: view_wf_def)

lemma view_wf_set: "view_wf v \<Longrightarrow> (\<And>s. x = Some s \<Longrightarrow> v_ok s \<and> v_local s = n) \<Longrightarrow> view_wf (v\<lparr>ev_vec := (ev_vec v)[n := x]\<rparr>)"
  by (auto simp: view_wf_def sess_at_update split: if_splits)

lemma view_wf_push:
  "view_wf v \<Longrightarrow> v_ok s \<Longrightarrow> v_local s = length (ev_vec v) \<Longrightarrow> ev_vec v' = ev_vec v @ [Some s] \<Longrightarrow> view_wf v'"
  by (auto simp: view_wf_def sess_at_def nth_append less_Suc_eq split: if_splits)

lemma view_wfD: "view_wf v \<Longrightarrow> n < length (ev_vec v) \<Longrightarrow> ev_vec v ! n = Some s \<Longrightarrow> v_ok s \<and> v_local s = n"
  by (simp add: view_wf_def sess_at_def)

lemma api_wf:
  assumes "view_api c v v'" "view_wf v" "length (ev_vec v') \<le> 65536"
  shows "view_wf v'"
  using assms(1)
proof cases
  case (new s)
  then show ?thesis
    using assms(2,3) view_wf_push [of v s v'] by (simp add: view_new_def u16_of_id)
next
  case (disc n s s')
  then show ?thesis
    using assms(2) view_wfD [OF assms(2) disc(2,3)] view_wf_set [of v "Some s'" n] by simp
qed (use assms(2) in simp)

lemma api_calls_wf:
  assumes "(view_api c)\<^sup>*\<^sup>* v v'" "view_wf v" "length (ev_vec v') \<le> 65536"
  shows "view_wf v'"
  using assms
proof (induction rule: rtranclp_induct)
  case (step y z)
  then show ?case
    using api_len [OF step(2)] api_wf [OF step(2)] by simp
qed

lemma item_wf:
  assumes "view_item c p v v'" "view_wf v" "length (ev_vec v') \<le> 65536"
  shows "view_wf v'"
  using assms(1)
proof cases
  case (accept s)
  then show ?thesis
    using assms(2,3) view_wf_push [of v s v'] by (simp add: view_accept_def u16_of_id)
next
  case (unresolved n s s')
  then show ?thesis
    using assms(2) view_wfD [OF assms(2) unresolved(5,6)] view_wf_set [of v "Some s'" n] by simp
next
  case (connect n s s' ri)
  then show ?thesis
    using assms(2,3) view_wfD [OF assms(2) connect(4,5)] view_wf_set [of v "Some s'" n] api_calls_wf [OF connect(8)] by simp
next
  case (disconnect n s)
  then show ?thesis
    using view_wf_set [of "sent (resp_of p Err_NoError) v" None n] assms(2) by simp
next
  case (close n s v1)
  have "view_wf v1"
    using api_calls_wf [OF close(7)] assms(2,3) close(1) by simp
  then show ?thesis
    using view_wf_set [of v1 None n] close(1) by simp
qed (use assms(2) in simp_all)

lemma sm_step_wf:
  assumes "sm_step N cfg S S'" "sm_setting N cfg" "view_wf (views S j)" "length (ev_vec (views S' j)) \<le> 65536"
  shows "view_wf (views S' j)"
  using assms(1)
proof cases
  case (api i r)
  then show ?thesis
    using assms(3,4) api_wf [OF api_call_view [OF api(3)]] by (cases "j = i") simp_all
next
  case (resend i n s r)
  obtain r' where "send_sm_req_st (cfg i) n (sy_rpc S i) = Some r'" "view r' = sent (sess_req (sv s)) (views S i)"
    by (rule send_sm_req_view [OF resend(3), of "cfg i"])
  then have "view_wf (view r) = view_wf (views S i)"
    using resend(5) by simp
  then show ?thesis
    using assms(3) resend(1) by (cases "j = i") simp_all
next
  case (handle i wi q r)
  obtain k p where "view_item (cfg i) p ((views S i)\<lparr>ev_queue := q\<rparr>) (view r)"
    by (rule handle_view [OF assms(2) handle(2,4)])
  then show ?thesis
    using item_wf assms(3,4) handle(1) by (cases "j = i") fastforce+
qed (use assms(3) in auto)

lemma sm_reach_wf:
  assumes "sm_reach N cfg S" "sm_setting N cfg" "i < N" "length (ev_vec (views S i)) \<le> 65536"
  shows "view_wf (views S i)"
  using assms
proof (induction rule: sm_reach.induct)
  case (start S)
  then show ?case
    using fresh_view [of "sy_rpc S i"] by (simp add: view_wf_def sess_at_def)
next
  case (step S S')
  then show ?case
    using sm_step_wf [OF step(2) step.prems(1)] sm_step_len [OF step(2) step.prems(1), of i] le_trans by blast
qed

section \<open>Properties\<close>

definition connected_client :: "'a rpc \<Rightarrow> nat \<Rightarrow> session \<Rightarrow> bool" where
  "connected_client r n s \<longleftrightarrow> get_session r n = Some s \<and> ss_is_client s \<and> ss_state s = St_Connected"

lemma token_owner:
  assumes "sm_inv N cfg V" "sm_setting N cfg" "i < N" "j < N" "con_req (V i) p" "con_req (V j) q" "sp_uniq_token p = sp_uniq_token q"
  shows "i = j" "sp_client p = sp_client q"
proof -
  note p = ep_invD(1) [OF sm_invD [OF assms(1,3)]] and q = ep_invD(1) [OF sm_invD [OF assms(1,4)]]
  obtain k l where "sp_uniq_token p = cf_rand (cfg i) k" "sp_uniq_token q = cf_rand (cfg j) l"
    using p q assms(5,6) unfolding con_req_inv_def by blast
  then show ij: "i = j"
    using assms(2-4,7) unfolding sm_setting_def by metis
  then show "sp_client p = sp_client q"
    using p assms(5-7) unfolding con_req_inv_def by blast
qed

lemma connected_clientD:
  assumes "sm_inv N cfg (views S)" "sm_setting N cfg" "j < N" "connected_client (sy_rpc S j) n s"
  obtains p i where "sess_at (views S j) n (sv s)" "con_req (views S j) p" "sp_uniq_token p = ss_uniq_token s" "ep_session_num (sp_client p) = n"
    "i < N" "is_ep (cfg i) (ss_server s)" "ev_tm (views S i) (ss_uniq_token s) = Some (ss_remote_session_num s)"
proof -
  have s: "sess_at (views S j) n (sv s)" "v_client (sv s)" "v_state (sv s) = St_Connected" "v_tok (sv s) = ss_uniq_token s"
    "v_remote (sv s) = ss_remote_session_num s" "v_sep (sv s) = ss_server s"
    using assms(4) by (simp_all add: connected_client_def sess_at_def get_session_view sv_def)
  have ok: "client_ok N cfg (views S) (views S j) n (sv s)"
    using ep_invD(2) [OF sm_invD [OF assms(1,3)] s(1,2)] .
  obtain p where p: "con_req (views S j) p" "sp_uniq_token p = v_tok (sv s)" "sp_client p = v_cep (sv s)" "ep_session_num (v_cep (sv s)) = n"
    using client_req [OF ok] by blast
  obtain i where "i < N" "is_ep (cfg i) (ss_server s)" "ev_tm (views S i) (ss_uniq_token s) = Some (ss_remote_session_num s)"
    using ok s unfolding client_ok_def served_def by auto
  then show thesis
    using that s p by simp
qed


text \<open>(C36) Agreement: along every run of a cluster in which tokens are unique, and whatever packets the
  network loses, repeats or reorders, a connected client session has a connected session at the endpoint it
  names as its server, in the place it names as its remote session, with the same token; that session
  names it as its remote session, and no other connected client session of the cluster has the same server session.\<close>

theorem session_agreement:
  assumes "sm_reach N cfg S" "sm_setting N cfg" "\<forall>i<N. length (rp_session_vec (sy_rpc S i)) \<le> 65536"
    and "j < N" "connected_client (sy_rpc S j) n s"
  shows "\<exists>i<N. \<exists>s'. is_ep (cfg i) (ss_server s) \<and> get_session (sy_rpc S i) (ss_remote_session_num s) = Some s' \<and>
      \<not> ss_is_client s' \<and> ss_state s' = St_Connected \<and> ss_uniq_token s' = ss_uniq_token s \<and> ss_remote_session_num s' = n \<and>
      (\<forall>j' n' t. j' < N \<longrightarrow> connected_client (sy_rpc S j') n' t \<longrightarrow> is_ep (cfg i) (ss_server t) \<longrightarrow>
         ss_remote_session_num t = ss_remote_session_num s \<longrightarrow> j' = j \<and> n' = n)"
proof -
  have inv: "sm_inv N cfg (views S)"
    using sys_invD(1) [OF sm_reach_inv [OF assms(1,2)]] assms(3) by simp
  obtain p i where p: "sess_at (views S j) n (sv s)" "con_req (views S j) p" "sp_uniq_token p = ss_uniq_token s" "ep_session_num (sp_client p) = n"
    and i: "i < N" "is_ep (cfg i) (ss_server s)" "ev_tm (views S i) (ss_uniq_token s) = Some (ss_remote_session_num s)"
    by (rule connected_clientD [OF inv assms(2,4,5)])
  let ?m = "ss_remote_session_num s"
  have s: "v_client (sv s)" "v_tok (sv s) = ss_uniq_token s" "v_state (sv s) = St_Connected"
    using assms(5) by (simp_all add: connected_client_def sv_def)
  note e = ep_invD [OF sm_invD [OF inv i(1)]]
  obtain k q where ok: "?m < length (rp_session_vec (sy_rpc S i))" "k < N" "con_req (views S k) q" "sp_uniq_token q = ss_uniq_token s"
    "\<And>x. ev_vec (views S i) ! ?m = Some x \<Longrightarrow> server_ok (cfg i) q ?m x"
    "ev_vec (views S i) ! ?m = None \<Longrightarrow> \<exists>j<N. \<exists>d. dis_req (views S j) d \<and> sp_uniq_token d = ss_uniq_token s"
    using e(4) [OF i(3)] unfolding token_ok_def by auto
  have num: "ep_session_num (sp_client q) = n"
    using token_owner(2) [OF inv assms(2) ok(2) assms(4) ok(3) p(2)] ok(4) p(3,4) by simp
  have "ev_vec (views S i) ! ?m \<noteq> None"
  proof
    assume "ev_vec (views S i) ! ?m = None"
    then obtain l d where d: "l < N" "dis_req (views S l) d" "sp_uniq_token d = ss_uniq_token s"
      using ok(6) by blast
    then have "dis_req_ok (views S l) d"
      using ep_invD(7) [OF sm_invD [OF inv d(1)]] by blast
    moreover from this obtain q' where "con_req (views S l) q'" "sp_uniq_token q' = sp_uniq_token d"
      unfolding dis_req_ok_def by blast
    then have "l = j"
      using token_owner(1) [OF inv assms(2) d(1) assms(4) _ p(2)] d(3) p(3) by simp
    ultimately show False
      using p(1) s d(3) unfolding dis_req_ok_def by fastforce
  qed
  then obtain s' where s': "rp_session_vec (sy_rpc S i) ! ?m = Some s'" "server_ok (cfg i) q ?m (sv s')"
    using ok(1,5) by auto
  have "j' = j \<and> n' = n" if t: "j' < N" "connected_client (sy_rpc S j') n' t" "is_ep (cfg i) (ss_server t)" "ss_remote_session_num t = ?m" for j' n' t
  proof -
    obtain p' i' where p': "sess_at (views S j') n' (sv t)" "con_req (views S j') p'" "sp_uniq_token p' = ss_uniq_token t"
      "ep_session_num (sp_client p') = n'" "i' < N" "is_ep (cfg i') (ss_server t)"
      "ev_tm (views S i') (ss_uniq_token t) = Some (ss_remote_session_num t)"
      by (rule connected_clientD [OF inv assms(2) t(1,2)])
    then have "i' = i"
      using assms(2) t(3) i(1) unfolding sm_setting_def by blast
    then have "ss_uniq_token t = ss_uniq_token s"
      using e(5) [OF _ i(3)] p'(7) t(4) by simp
    then show ?thesis
      using token_owner [OF inv assms(2) t(1) assms(4) p'(2) p(2)] p'(3,4) p(3,4) by simp
  qed
  moreover have "get_session (sy_rpc S i) ?m = Some s'"
    using ok(1) s'(1) by (simp add: get_session_view)
  moreover have "\<not> ss_is_client s'" "ss_state s' = St_Connected" "ss_uniq_token s' = ss_uniq_token s" "ss_remote_session_num s' = n"
    using s'(2) ok(4) num by (simp_all add: server_ok_def sv_def)
  ultimately show ?thesis
    using i(1,2) by blast
qed

subsection \<open>An example run\<close>

definition cfg_ex :: "nat \<Rightarrow> basic_app rpc_cfg" where
  "cfg_ex i = basic_cfg \<lparr>cf_dbg = False, cf_testing = False, cf_creator_etid = 0, cf_num_bg_threads = 0, cf_rpc_id = i, cf_hostname = ''h'',
     cf_sm_udp_port = 31850, cf_transport_type = Tr_InfiniBand, cf_local_rinfo = [], cf_freq_ghz = 2, cf_bandwidth = 10 ^ 10,
     cf_sizeof_pkthdr = 64, cf_sizeof_ctrl_buffer = 32, cf_before_iovs = \<lparr>iov_base = 0, iov_len = 0\<rparr>, cf_args_resp = 0, cf_ctrl_hdrs = 0,
     cf_rx_ring_hdr = (\<lambda>_. 0), cf_rx_ring_body = (\<lambda>_. 0), cf_uninit = (\<lambda>_. session_ex), cf_rdtsc = (\<lambda>k. k), cf_rand = (\<lambda>k. 2 * k + i),
     cf_resolve = (\<lambda>_ ri. Some ri), cf_poll = (\<lambda>_. 0), cf_post_ok = (\<lambda>_. True), cf_raw = (\<lambda>_. None), cf_req_func_arr = (\<lambda>_. None),
     cf_req_func = (\<lambda>_ _. Some), cf_cont_func = (\<lambda>_ _ _. Some), cf_sm_handler = basic_sm_handler\<rparr>"

lemma cfg_ex_setting: "sm_setting 2 cfg_ex"
proof -
  have ep: "is_ep (cfg_ex i) e \<longleftrightarrow> ep_hostname e = ''h'' \<and> ep_sm_udp_port e = 31850 \<and> ep_rpc_id e = i" for i e
    by (simp add: is_ep_def cfg_ex_def basic_cfg_def)
  have rand: "cf_rand (cfg_ex i) k = 2 * k + i" for i k
    by (simp add: cfg_ex_def basic_cfg_def)
  have two: "2 * k + i = 2 * l + j \<Longrightarrow> i < 2 \<Longrightarrow> j < 2 \<Longrightarrow> i = j \<and> k = l" for i j k l :: nat
    by presburger
  have cb: "sm_callbacks (cfg_ex i)" for i
    unfolding cfg_ex_def by (rule basic.sm_callbacks_axioms)
  show ?thesis
    unfolding sm_setting_def ep rand using two cb by blast
qed

definition cep_ex :: session_endpoint where
  "cep_ex = \<lparr>ep_transport_type = Tr_InfiniBand, ep_hostname = ''h'', ep_sm_udp_port = 31850, ep_rpc_id = 0, ep_session_num = 0, ep_routing_info = []\<rparr>"

definition sep_ex :: session_endpoint where
  "sep_ex = \<lparr>ep_transport_type = Tr_InfiniBand, ep_hostname = ''h'', ep_sm_udp_port = 31850, ep_rpc_id = 1, ep_session_num = kInvalidSessionNum,
     ep_routing_info = replicate 48 0\<rparr>"

definition req_ex :: sm_pkt where
  "req_ex = \<lparr>sp_pkt_type = Sm_ConnectReq, sp_err_type = Err_NoError, sp_uniq_token = 0, sp_client = cep_ex, sp_server = sep_ex\<rparr>"

definition resp_ex :: sm_pkt where
  "resp_ex = req_ex\<lparr>sp_pkt_type := Sm_ConnectResp, sp_server := sep_ex\<lparr>ep_session_num := 0, ep_routing_info := []\<rparr>\<rparr>"

lemma create_ex:
  obtains r s where "create_session_st (cfg_ex 0) 0 ''h:31850'' 1 (rpc_ex a) = Some (0, r)" "rp_session_vec r = [Some s]"
    "rp_udp_sent r = [(''h'', 31850, req_ex)]" "rp_sm_rx_queue r = MtQueue_new" "ss_is_client s" "ss_state s = St_ConnectInProgress"
    "ss_local_session_num s = 0" "rp_faults r = rp_faults (rpc_ex a)" "rp_app r = a"
proof -
  obtain s0 where "Session_new session_ex True 0 2 (10 ^ 10) 0 = Some s0" "ss_is_client s0" "ss_uniq_token s0 = 0"
    "ss_client s0 = SessionEndpoint_new (ep_transport_type (ss_client session_ex))"
    "ss_server s0 = SessionEndpoint_new (ep_transport_type (ss_server session_ex))"
    by (rule Session_new_spec [of session_ex True 0 2 "10 ^ 10" 0]) simp
  moreover have "ep_transport_type (ss_client session_ex) = Tr_InfiniBand" "ep_transport_type (ss_server session_ex) = Tr_InfiniBand"
    by (simp_all add: session_ex_def SessionEndpoint_new_def)
  ultimately have s0: "Session_new session_ex True 0 2 (10 ^ 10) 0 = Some s0" "ss_is_client s0" "ss_uniq_token s0 = 0"
    "ss_client s0 = SessionEndpoint_new Tr_InfiniBand" "ss_server s0 = SessionEndpoint_new Tr_InfiniBand"
    by simp_all
  have u: "extract_hostname_from_uri False ''h:31850'' = Some ''h''" "extract_udp_port_from_uri False ''h:31850'' = Some 31850"
    by (simp_all add: extract_hostname_from_uri_def extract_udp_port_from_uri_def after_colon_def stoi_def is_space_def is_digit_def
        digits_value_def)
  have "\<exists>r. create_session_st (cfg_ex 0) 0 ''h:31850'' 1 (rpc_ex a) = Some (0, r) \<and> (\<exists>s. rp_session_vec r = [Some s] \<and>
    rp_udp_sent r = [(''h'', 31850, req_ex)] \<and> rp_sm_rx_queue r = MtQueue_new \<and> ss_is_client s \<and> ss_state s = St_ConnectInProgress \<and>
    ss_local_session_num s = 0 \<and> rp_faults r = rp_faults (rpc_ex a) \<and> rp_app r = a)"
    using s0
    by (simp add: create_session_st_def cfg_ex_def basic_cfg_def in_dispatch_def u kMaxHostnameLen_def have_ring_entries_def rpc_ex_def
        kNumRxRingEntries_def kSessionCredits_def add_client_session_def slow_rand_def new_session_def read_tsc_def
        fill_client_session_def strcpy_hostname_def alloc_ring_entries_def send_sm_req_st_def get_session_def vec_at_def set_session_def
        sm_pkt_udp_tx_st_def sp_is_req_def req_ex_def cep_ex_def sep_ex_def SessionEndpoint_new_def u16_of_def)
  then show thesis
    using that by blast
qed

lemma accept_ex:
  obtains r s where "handle_sm_item (cfg_ex 1) (SmWork 1 req_ex) (rpc_ex a) = Some r" "rp_session_vec r = [Some s]"
    "rp_udp_sent r = [(''h'', 31850, resp_ex)]" "rp_sm_rx_queue r = MtQueue_new"
proof -
  obtain s0 where s0: "Session_new session_ex False 0 2 (10 ^ 10) 0 = Some s0" "ss_uniq_token s0 = 0"
    by (rule Session_new_spec [of session_ex False 0 2 "10 ^ 10" 0]) simp
  have "\<exists>r. handle_sm_item (cfg_ex 1) (SmWork 1 req_ex) (rpc_ex a) = Some r \<and> (\<exists>s. rp_session_vec r = [Some s]) \<and>
    rp_udp_sent r = [(''h'', 31850, resp_ex)] \<and> rp_sm_rx_queue r = MtQueue_new"
    using s0
    by (simp add: handle_sm_item_def req_ex_def sp_is_resp_def sp_is_req_def handle_connect_req_st_def rpc_ex_def cfg_ex_def basic_cfg_def
        have_ring_entries_def kNumRxRingEntries_def kSessionCredits_def sep_ex_def cep_ex_def resolve_rinfo_def connect_new_session_def
        new_session_def u16_of_def alloc_ring_entries_def sm_construct_resp_def sm_pkt_udp_tx_st_def resp_ex_def)
  then show thesis
    using that by blast
qed

lemma connect_ex:
  assumes "rp_session_vec r = [Some s]" "ss_state s = St_ConnectInProgress" "ss_is_client s" "ss_local_session_num s = 0"
    "rp_faults r = rp_faults (rpc_ex a)" "0 \<in> set (ba_session_num_vec (rp_app r))"
  obtains r' s' where "handle_sm_item (cfg_ex 0) (SmWork 0 resp_ex) r = Some r'" "rp_session_vec r' = [Some s']" "ss_is_client s'"
    "ss_state s' = St_Connected" "ss_remote_session_num s' = 0"
proof -
  have "\<exists>r'. handle_sm_item (cfg_ex 0) (SmWork 0 resp_ex) r = Some r' \<and> (\<exists>s'. rp_session_vec r' = [Some s'] \<and> ss_is_client s' \<and>
    ss_state s' = St_Connected \<and> ss_remote_session_num s' = 0)"
    using assms
    by (simp add: handle_sm_item_def resp_ex_def req_ex_def sp_is_resp_def sp_is_req_def handle_connect_resp_st_def cep_ex_def
        sep_ex_def vec_at_def cfg_ex_def basic_cfg_def resolve_rinfo_def rpc_ex_def read_tsc_def set_session_def basic_sm_handler_def)
  then show thesis
    using that by blast
qed

lemma run_ex:
  obtains S s where "sm_reach 2 cfg_ex S" "\<forall>i<2. length (rp_session_vec (sy_rpc S i)) \<le> 65536" "connected_client (sy_rpc S 0) 0 s"
    "ss_remote_session_num s = 0"
proof -
  define a where "a = \<lparr>ba_num_sm_resps = 0, ba_session_num_vec = [0]\<rparr>"
  define S0 where "S0 = \<lparr>sy_rpc = (\<lambda>_. rpc_ex a), sy_nexus = []\<rparr>"
  have S0: "sm_reach 2 cfg_ex S0"
    by (rule sm_reach.start) (simp_all add: S0_def sm_fresh_def rpc_ex_def)
  obtain r1 s1 where r1: "create_session_st (cfg_ex 0) 0 ''h:31850'' 1 (rpc_ex a) = Some (0, r1)" "rp_session_vec r1 = [Some s1]"
    "rp_udp_sent r1 = [(''h'', 31850, req_ex)]" "rp_sm_rx_queue r1 = MtQueue_new" "ss_is_client s1" "ss_state s1 = St_ConnectInProgress"
    "ss_local_session_num s1 = 0" "rp_faults r1 = rp_faults (rpc_ex a)" "rp_app r1 = a"
    by (rule create_ex)
  define S1 where "S1 = upd_rpc 0 r1 S0"
  have "sm_step 2 cfg_ex S0 S1"
    unfolding S1_def by (rule sm_step.api) (use api_call.create [OF r1(1)] in \<open>simp_all add: S0_def\<close>)
  then have S1: "sm_reach 2 cfg_ex S1"
    by (rule sm_reach.step [OF S0])
  have hooks: "hooks_at 2 cfg_ex ''h'' 31850 i = (if i < 2 then Some i else None)" for i
    by (auto simp: hooks_at_def cfg_ex_def basic_cfg_def upt_rec numeral_2_eq_2)
  have push: "unlocked_pop (unlocked_push wi MtQueue_new) = Some (wi, MtQueue_new)" for wi :: sm_work_item
    by (simp add: unlocked_push_def unlocked_pop_def MtQueue_new_def)
  define S2 where "S2 = upd_rpc 1 ((sy_rpc S1 1)\<lparr>rp_sm_rx_queue := unlocked_push (SmWork 1 req_ex) (rp_sm_rx_queue (sy_rpc S1 1))\<rparr>) S1"
  have "sm_step 2 cfg_ex S1 S2"
    unfolding S2_def
  proof (rule sm_step.push)
    show "(''h'', 31850, req_ex) \<in> wire 2 S1"
      using r1(3) by (auto simp: wire_def S1_def intro!: bexI [of _ 0])
    show "sm_thread_on_pkt (hooks_at 2 cfg_ex ''h'' 31850) req_ex = Some (Sm_Push 1 (SmWork 1 req_ex))"
      by (simp add: sm_thread_on_pkt_def req_ex_def sp_is_req_def sep_ex_def hooks)
  qed
  then have S2: "sm_reach 2 cfg_ex S2"
    by (rule sm_reach.step [OF S1])
  obtain r2 s2 where r2: "handle_sm_item (cfg_ex 1) (SmWork 1 req_ex) (rpc_ex a) = Some r2" "rp_session_vec r2 = [Some s2]"
    "rp_udp_sent r2 = [(''h'', 31850, resp_ex)]" "rp_sm_rx_queue r2 = MtQueue_new"
    by (rule accept_ex)
  define S3 where "S3 = upd_rpc 1 r2 S2"
  have q: "(rpc_ex a)\<lparr>rp_sm_rx_queue := MtQueue_new\<rparr> = rpc_ex a" "rp_sm_rx_queue (rpc_ex a) = MtQueue_new"
    by (simp_all add: rpc_ex_def)
  have h2: "handle_sm_item (cfg_ex 1) (SmWork 1 req_ex) ((rpc_ex a)\<lparr>rp_sm_rx_queue := MtQueue_new\<rparr>) = Some r2"
    unfolding q(1) by (rule r2(1))
  have "sm_step 2 cfg_ex S2 S3"
    unfolding S3_def
    by (rule sm_step.handle [where wi = "SmWork 1 req_ex" and q = MtQueue_new]) (use h2 push q(2) in \<open>simp_all add: S2_def S1_def S0_def\<close>)
  then have S3: "sm_reach 2 cfg_ex S3"
    by (rule sm_reach.step [OF S2])
  define S4 where "S4 = upd_rpc 0 ((sy_rpc S3 0)\<lparr>rp_sm_rx_queue := unlocked_push (SmWork 0 resp_ex) (rp_sm_rx_queue (sy_rpc S3 0))\<rparr>) S3"
  have "sm_step 2 cfg_ex S3 S4"
    unfolding S4_def
  proof (rule sm_step.push)
    show "(''h'', 31850, resp_ex) \<in> wire 2 S3"
      using r2(3) by (auto simp: wire_def S3_def intro!: bexI [of _ 1])
    show "sm_thread_on_pkt (hooks_at 2 cfg_ex ''h'' 31850) resp_ex = Some (Sm_Push 0 (SmWork 0 resp_ex))"
      by (simp add: sm_thread_on_pkt_def resp_ex_def req_ex_def sp_is_req_def cep_ex_def hooks)
  qed
  then have S4: "sm_reach 2 cfg_ex S4"
    by (rule sm_reach.step [OF S3])
  obtain r3 s3 where r3: "handle_sm_item (cfg_ex 0) (SmWork 0 resp_ex) r1 = Some r3" "rp_session_vec r3 = [Some s3]" "ss_is_client s3"
    "ss_state s3 = St_Connected" "ss_remote_session_num s3 = 0"
    by (rule connect_ex [OF r1(2,6,5,7,8)]) (use r1(9) in \<open>auto simp: a_def\<close>)
  have q1: "r1\<lparr>rp_sm_rx_queue := MtQueue_new\<rparr> = r1"
    using r1(4) by (cases r1) simp
  have h3: "handle_sm_item (cfg_ex 0) (SmWork 0 resp_ex) (r1\<lparr>rp_sm_rx_queue := MtQueue_new\<rparr>) = Some r3"
    unfolding q1 by (rule r3(1))
  define S5 where "S5 = upd_rpc 0 r3 S4"
  have "sm_step 2 cfg_ex S4 S5"
    unfolding S5_def
    by (rule sm_step.handle [where wi = "SmWork 0 resp_ex" and q = MtQueue_new])
      (use h3 push r1(4) in \<open>simp_all add: S4_def S3_def S2_def S1_def S0_def\<close>)
  then have "sm_reach 2 cfg_ex S5"
    by (rule sm_reach.step [OF S4])
  moreover have "\<forall>i<2. length (rp_session_vec (sy_rpc S5 i)) \<le> 65536"
    using r2(2) r3(2) by (auto simp: S5_def S4_def S3_def less_2_cases_iff)
  moreover have "connected_client (sy_rpc S5 0) 0 s3"
    using r3 by (simp add: connected_client_def S5_def get_session_view)
  ultimately show thesis
    using that r3(5) by blast
qed


theorem session_agreement_witness:
  "\<exists>S s s'. sm_reach 2 cfg_ex S \<and> connected_client (sy_rpc S 0) 0 s \<and> get_session (sy_rpc S 1) 0 = Some s' \<and>
    ss_state s' = St_Connected \<and> ss_uniq_token s' = ss_uniq_token s \<and> ss_remote_session_num s' = 0"
proof -
  obtain S s where S: "sm_reach 2 cfg_ex S" "\<forall>i<2. length (rp_session_vec (sy_rpc S i)) \<le> 65536" "connected_client (sy_rpc S 0) 0 s"
    "ss_remote_session_num s = 0"
    by (rule run_ex)
  obtain i s' where i: "i < 2" "get_session (sy_rpc S i) 0 = Some s'" "\<not> ss_is_client s'" "ss_state s' = St_Connected"
    "ss_uniq_token s' = ss_uniq_token s" "ss_remote_session_num s' = 0"
    using session_agreement [OF S(1) cfg_ex_setting S(2) _ S(3)] S(4) by auto
  have "i \<noteq> 0"
    using i(2,3) S(3) unfolding connected_client_def by (metis option.inject)
  then have "i = 1"
    using i(1) by simp
  then show ?thesis
    using S(1,3) i by blast
qed

end
