(* ===== verification/Spec2Isabelle.thy ===== *)
theory Spec2Isabelle
  imports Huge_Alloc Packetise Raft_Safety Sm_System
begin

text \<open>
  Verification of zRPC, a zero-copy RPC system over RDMA derived from eRPC (src/README.md), and of the Raft
  library its state machine replication application links.

  \<^bold>\<open>The program.\<close> An application builds a message in a Serializer (src/src/huibuffer), a vector of
  pointers to memory it already has. The Rpc object (src/src/rpc.h, src/src/rpc_impl) cuts the message into
  packets, puts a packet header (src/src/pkthdr.h) before each, and hands them to the transport
  (src/src/transport_impl/infiniband), paced by a timing wheel (src/src/cc/timing_wheel.h) at the rate that
  Timely (src/src/cc/timely.h) computes. Memory comes from the hugepage allocator (src/src/util/huge_alloc.h).
  Sessions (src/src/session.h, src/src/sm_types.h) are set up over UDP between processes named by URIs
  (src/src/util/autorun_helpers.h). Raft is in src/apps/smr/willemt_raft.

  \<^bold>\<open>Theories.\<close>
  \<^item> \<open>Prelude\<close>: collections, the heap of bytes, machine arithmetic, assertions.
  \<^item> \<open>Iovec\<close>, \<open>Iovec_Contracts\<close>: struct iovec and iovector_view (huibuffer/iovector.h, iovector.cpp). A view
    denotes the bytes its elements point to; the extraction and copy routines are proved against operations on
    byte lists, memcpy_iov with its termination and the case in which it does not return, slice with the case
    it misses.
  \<^item> \<open>Iovector\<close>: the iovector with inline storage and its allocation of elements.
  \<^item> \<open>Serialization\<close>, \<open>Packetise\<close>: Serializer and Deserializer (serialize.h, serialization.h). Messages
    round-trip through any segmentation; init_data_iov cuts a message into packets.
  \<^item> \<open>Raft_Log\<close>, \<open>Raft_Node\<close>, \<open>Raft_Server\<close>, \<open>Raft_Inv\<close>, \<open>Raft_Handlers\<close>, \<open>Raft_Replication\<close>,
    \<open>Raft_Safety\<close>: the ring buffer of the log refines a list; every server operation keeps the server
    invariant; along every run of a server votes are not changed in a term and committed entries are stable;
    a leader has a majority, and majorities intersect; an accepted appendentries message makes the log agree
    with the leader's. Callbacks and the network are parameters.
  \<^item> \<open>Math_Utils\<close>, \<open>Huge_Alloc\<close>: size classes by bit scan equal the reference loop; allocated buffers
    are disjoint; the largest class is handled wrongly.
  \<^item> \<open>Timing_Wheel\<close>, \<open>Timely\<close>: the wheel refines a list of slots; an insertion is paced; the rate stays in
    its bounds.
  \<^item> \<open>Uri\<close>, \<open>Sm_Types\<close>, \<open>Containers\<close>, \<open>Pkthdr\<close>, \<open>Session\<close>: URIs round-trip; the session management types;
    FixedVector (an interface of bounded stacks), FixedQueue, MtQueue, FastRand; packet headers at the width
    of their bit-fields; session slots and sessions.
  \<^item> \<open>Ib_Transport\<close>: the InfiniBand datapath. Every poll finds a completion, the send queue does not overflow,
    receives are posted in ring order, receive buffers are disjoint.

  \<^bold>\<open>Conventions.\<close> A definition has the name of the function it translates, with a prefix of its class where
  names clash. A result of type option is None when the process stops: an exception, a failed assertion or
  undefined behaviour. Assertions that NDEBUG removes are guarded by a flag, so that both builds are covered.
  Addresses and sizes are natural numbers, with wrapping written out where the source can wrap; bit-fields
  and shifts are kept at their width. Loops that may not end are partial functions into option, and
  where a property says that such a loop returns, this is proved; no fuel is used. Calls that leave the
  program are parameters: the clock, the random number generator, the card, the application's callbacks.

  \<^bold>\<open>Not modelled.\<close>
  \<^item> The nexus threads, UDP sockets, logging, NUMA and thread-local helpers (src/src/nexus_impl, src/src/util):
    threads and system calls.
  \<^item> The raw Ethernet, DPDK and fake transports, and the set-up of devices and queue pairs: sequences of calls of
    the verbs and DPDK libraries.
  \<^item> src/mica (a key-value store with a copy of rapidjson, cityhash and DPDK's memcpy), src/RPC-test (benchmarks of
    other RPC systems with their generated code), src/src/huibuffer/test-gs (benchmarks of serialisation
    formats with generated code), the benchmark applications, tests and scripts.
\<close>

end
